(* ===== verification/Prelude.thy ===== *)
theory Prelude
  imports Main "HOL-Library.AList" "HOL-Library.Sublist"
begin

text \<open>
  Shared vocabulary of the development: the theorem collections, the JavaScript string
  operations the crawler uses, insertion-ordered maps (a JavaScript \<open>Map\<close> is an
  association list, oldest entry first, updated with \<open>AList.update\<close>), and the generic
  reachability and fixed-window arguments that several components share.
\<close>

named_theorems config_defs \<open>the constants of src/config.ts\<close>
named_theorems preserves \<open>an operation keeps an invariant\<close>

type_synonym url = string
type_synonym domain = string
type_synonym time_ms = int

section \<open>JavaScript strings\<close>

text \<open>
  A string is the list of its characters (Latin-1, which is where every pattern of the
  source acts). White space is what \<open>trim\<close> and \<open>\s\<close> accept in that range.
\<close>

definition is_ws :: "char \<Rightarrow> bool" where
  "is_ws c \<longleftrightarrow> (of_char c :: nat) \<in> {9, 10, 11, 12, 13, 32, 160}"

definition js_trim_start :: "string \<Rightarrow> string" where
  "js_trim_start s = dropWhile is_ws s"

definition js_trim :: "string \<Rightarrow> string" where
  "js_trim s = rev (dropWhile is_ws (rev (dropWhile is_ws s)))"

definition char_lower :: "char \<Rightarrow> char" where
  "char_lower c = (let n = of_char c :: nat in
     if (65 \<le> n \<and> n \<le> 90) \<or> (192 \<le> n \<and> n \<le> 222 \<and> n \<noteq> 215) then char_of (n + 32) else c)"

definition js_lower :: "string \<Rightarrow> string" where
  "js_lower s = map char_lower s"

definition js_startsWith :: "string \<Rightarrow> string \<Rightarrow> bool" where
  "js_startsWith s p \<longleftrightarrow> take (length p) s = p"

definition js_endsWith :: "string \<Rightarrow> string \<Rightarrow> bool" where
  "js_endsWith s p \<longleftrightarrow> js_startsWith (rev s) (rev p)"

fun js_includes :: "string \<Rightarrow> string \<Rightarrow> bool" where
  "js_includes [] p = (p = [])"
| "js_includes (c # cs) p = (js_startsWith (c # cs) p \<or> js_includes cs p)"

text \<open>\<open>s.replace(p, r)\<close> with a string pattern replaces the first occurrence only.\<close>

fun js_replace :: "string \<Rightarrow> string \<Rightarrow> string \<Rightarrow> string" where
  "js_replace [] p r = (if p = [] then r else [])"
| "js_replace (c # cs) p r =
     (if js_startsWith (c # cs) p then r @ drop (length p) (c # cs)
      else c # js_replace cs p r)"

fun js_split :: "char \<Rightarrow> string \<Rightarrow> string list" where
  "js_split d [] = [[]]"
| "js_split d (c # cs) =
     (if c = d then [] # js_split d cs
      else (case js_split d cs of [] \<Rightarrow> [[c]] | w # ws \<Rightarrow> (c # w) # ws))"

lemma js_split_no_sep: "c \<notin> set s \<Longrightarrow> js_split c s = [s]"
  by (induction s) auto

lemma js_split_app: "c \<notin> set s \<Longrightarrow> js_split c (s @ c # t) = s # js_split c t"
  by (induction s) auto

lemma js_startsWith_prefix: "js_startsWith s p \<longleftrightarrow> prefix p s"
  by (metis append_take_drop_id js_startsWith_def prefix_def append_eq_conv_conj)

lemma js_endsWith_suffix: "js_endsWith s p \<longleftrightarrow> suffix p s"
  by (simp add: js_endsWith_def js_startsWith_prefix suffix_to_prefix)

lemma js_startsWith_Nil [simp]: "js_startsWith s []"
  by (simp add: js_startsWith_def)

lemma js_startsWith_Cons [simp]:
  "js_startsWith (c # cs) (d # ds) \<longleftrightarrow> c = d \<and> js_startsWith cs ds"
  "\<not> js_startsWith [] (d # ds)"
  by (auto simp: js_startsWith_def)

lemma set_js_trim: "set (js_trim s) \<subseteq> set s"
  unfolding js_trim_def by (metis set_dropWhileD set_rev subsetI)

lemma length_js_trim: "length (js_trim s) \<le> length s"
  unfolding js_trim_def
  by (metis length_dropWhile_le length_rev le_trans)

lemma js_trim_ends:
  "js_trim s \<noteq> [] \<Longrightarrow> \<not> is_ws (last (js_trim s))"
  unfolding js_trim_def
  by (metis hd_dropWhile hd_rev rev_is_Nil_conv rev_rev_ident)

lemma dropWhile_idem_hd: "s = [] \<or> \<not> P (hd s) \<Longrightarrow> dropWhile P s = s"
  by (cases s) auto

lemma js_trim_starts:
  assumes "js_trim s \<noteq> []" shows "\<not> is_ws (hd (js_trim s))"
proof -
  let ?t = "dropWhile is_ws s"
  have "suffix (rev (js_trim s)) (rev ?t)"
    unfolding js_trim_def by (simp add: suffix_dropWhile)
  then have "prefix (js_trim s) ?t" by (simp add: suffix_to_prefix)
  then have "hd (js_trim s) = hd ?t" and "?t \<noteq> []"
    using assms by (auto simp: prefix_def simp del: dropWhile_eq_Nil_conv)
  then show ?thesis by (metis hd_dropWhile)
qed

lemma js_trim_idem [simp]: "js_trim (js_trim s) = js_trim s"
proof -
  let ?t = "js_trim s"
  have "dropWhile is_ws ?t = ?t"
    by (rule dropWhile_idem_hd) (use js_trim_starts in blast)
  moreover have "dropWhile is_ws (rev ?t) = rev ?t"
    by (rule dropWhile_idem_hd) (use js_trim_ends in \<open>auto simp: hd_rev\<close>)
  ultimately show ?thesis by (simp add: js_trim_def [of ?t])
qed

lemma js_trim_fixed: "s \<noteq> [] \<Longrightarrow> \<not> is_ws (hd s) \<Longrightarrow> \<not> is_ws (last s) \<Longrightarrow> js_trim s = s"
  by (simp add: js_trim_def dropWhile_idem_hd hd_rev)

text \<open>\<open>x || d\<close> on an optional number or string: absent, 0 and the empty string give \<open>d\<close>.\<close>

definition or_num :: "int option \<Rightarrow> int \<Rightarrow> int" where
  "or_num x d = (case x of None \<Rightarrow> d | Some v \<Rightarrow> if v = 0 then d else v)"

definition or_str :: "string option \<Rightarrow> string \<Rightarrow> string" where
  "or_str x d = (case x of None \<Rightarrow> d | Some v \<Rightarrow> if v = [] then d else v)"

text \<open>The decimal digits of a number, as string concatenation prints them.\<close>

fun js_digits :: "nat \<Rightarrow> string" where
  "js_digits n = (if n < 10 then [char_of (48 + n)] else js_digits (n div 10) @ [char_of (48 + n mod 10)])"

declare js_digits.simps [simp del]

text \<open>\<open>Math.ceil(x / k)\<close> for a positive divisor.\<close>

definition ceil_div :: "int \<Rightarrow> int \<Rightarrow> int" where
  "ceil_div x k = - ((- x) div k)"

section \<open>Insertion-ordered maps\<close>

text \<open>
  \<open>m.get(k)\<close> is \<open>map_of m k\<close>, \<open>m.set(k, v)\<close> is \<open>AList.update k v m\<close> (an existing key keeps
  its place), \<open>m.delete(k)\<close> is \<open>AList.delete k m\<close> and \<open>m.size\<close> the length. The caches of
  the crawler shrink by deleting keys in iteration order, oldest first.
\<close>

fun delete_oldest :: "nat \<Rightarrow> ('k \<times> 'v) list \<Rightarrow> ('k \<times> 'v) list" where
  "delete_oldest 0 m = m"
| "delete_oldest (Suc n) [] = []"
| "delete_oldest (Suc n) ((k, v) # m) = delete_oldest n (AList.delete k ((k, v) # m))"

abbreviation keys :: "('k \<times> 'v) list \<Rightarrow> 'k list" where
  "keys m \<equiv> map fst m"

lemma delete_id: "k \<notin> fst ` set m \<Longrightarrow> AList.delete k m = m"
  by (induction m) auto

lemma delete_oldest_drop: "distinct (keys m) \<Longrightarrow> delete_oldest n m = drop n m"
proof (induction n m rule: delete_oldest.induct)
  case (3 n k v m)
  then show ?case by (simp add: delete_id)
qed auto

lemma keys_delete: "keys (AList.delete k m) = filter (\<lambda>x. x \<noteq> k) (keys m)"
  by (induction m) auto

lemma distinct_keys_delete: "distinct (keys m) \<Longrightarrow> distinct (keys (AList.delete k m))"
  by (simp add: keys_delete)

lemma keys_update:
  "keys (AList.update k v m) = (if k \<in> set (keys m) then keys m else keys m @ [k])"
  by (induction m) auto

lemma distinct_keys_update: "distinct (keys m) \<Longrightarrow> distinct (keys (AList.update k v m))"
  by (simp add: keys_update del: list.set_map)

lemma length_update:
  "length (AList.update k v m) = (if k \<in> set (keys m) then length m else Suc (length m))"
  by (metis keys_update length_append_singleton length_map)

lemma map_of_update [simp]: "map_of (AList.update k v m) = (map_of m)(k \<mapsto> v)"
  by (simp add: update_conv')

lemma map_of_delete [simp]: "map_of (AList.delete k m) = (map_of m)(k := None)"
  by (simp add: delete_conv')

lemma length_filter_key:
  "distinct (map f xs) \<Longrightarrow> length (filter (\<lambda>x. f x = u) xs) = (if u \<in> f ` set xs then 1 else 0)"
  by (induction xs) (auto simp: filter_empty_conv)

section \<open>Reachable states\<close>

inductive reaches :: "('s \<Rightarrow> 's \<Rightarrow> bool) \<Rightarrow> ('s \<Rightarrow> bool) \<Rightarrow> 's \<Rightarrow> bool" for step init where
  reaches_init: "init s \<Longrightarrow> reaches step init s"
| reaches_step: "reaches step init s \<Longrightarrow> step s t \<Longrightarrow> reaches step init t"

text \<open>
  The interface of every state machine below: its initial states satisfy an invariant and
  its steps keep it; the client's conclusion is that all reachable states satisfy it.
\<close>

locale invariant_system =
  fixes step :: "'s \<Rightarrow> 's \<Rightarrow> bool" and init :: "'s \<Rightarrow> bool" and inv :: "'s \<Rightarrow> bool"
  assumes inv_init: "init s \<Longrightarrow> inv s"
    and inv_step: "inv s \<Longrightarrow> step s t \<Longrightarrow> inv t"
begin

lemma reaches_inv: "reaches step init s \<Longrightarrow> inv s"
  by (induction rule: reaches.induct) (blast intro: inv_init inv_step)+

end

section \<open>Fixed-window counters\<close>

text \<open>
  Running a rate limiter over the arrival times of one client: the answer to each request,
  and the state left behind.
\<close>

fun run_hits :: "(time_ms \<Rightarrow> 's \<Rightarrow> bool \<times> 's) \<Rightarrow> time_ms list \<Rightarrow> 's \<Rightarrow> bool list \<times> 's" where
  "run_hits hit [] s = ([], s)"
| "run_hits hit (t # ts) s =
     (let (ok, s') = hit t s; (oks, s'') = run_hits hit ts s' in (ok # oks, s''))"

definition admitted :: "bool list \<Rightarrow> int" where
  "admitted oks = int (length (filter id oks))"

lemma admitted_simps [simp]:
  "admitted [] = 0"
  "admitted (b # bs) = (if b then 1 else 0) + admitted bs"
  by (auto simp: admitted_def)

text \<open>
  What a fixed-window limiter promises for one client: \<open>wstart\<close> is when its window opened
  (\<open>None\<close> before the first request) and \<open>used\<close> how many requests the window has counted.
\<close>

locale window_limiter =
  fixes hit :: "time_ms \<Rightarrow> 's \<Rightarrow> bool \<times> 's"
    and wstart :: "'s \<Rightarrow> time_ms option"
    and used :: "'s \<Rightarrow> int"
    and window :: time_ms and limit :: int
  assumes limit_pos: "0 < limit"
    and window_nonneg: "0 \<le> window"
    and hit_fresh: "wstart s = None \<or> (\<exists>t0. wstart s = Some t0 \<and> now - t0 > window) \<Longrightarrow>
      fst (hit now s) \<and> wstart (snd (hit now s)) = Some now \<and> used (snd (hit now s)) = 1"
    and hit_same: "wstart s = Some t0 \<Longrightarrow> now - t0 \<le> window \<Longrightarrow>
      (fst (hit now s) \<longleftrightarrow> used s + 1 \<le> limit) \<and> wstart (snd (hit now s)) = Some t0 \<and>
      used (snd (hit now s)) = used s + 1"
begin

lemma run_in_window:
  assumes "wstart s = Some t0" and "\<forall>t \<in> set ts. t - t0 \<le> window" and "0 \<le> used s"
  shows "admitted (fst (run_hits hit ts s)) = min (int (length ts)) (max 0 (limit - used s)) \<and>
    wstart (snd (run_hits hit ts s)) = Some t0 \<and>
    used (snd (run_hits hit ts s)) = used s + int (length ts)"
  using assms
proof (induction ts arbitrary: s)
  case Nil
  then show ?case by simp
next
  case (Cons t ts)
  obtain ok s' where h: "hit t s = (ok, s')" by fastforce
  have s': "ok \<longleftrightarrow> used s + 1 \<le> limit" "wstart s' = Some t0" "used s' = used s + 1"
    using hit_same [of s t0 t] Cons.prems h by auto
  then have "\<forall>t \<in> set ts. t - t0 \<le> window" "0 \<le> used s'" using Cons.prems by auto
  with Cons.IH [OF s'(2)] h s' show ?case by (auto simp: Let_def split_beta)
qed

text \<open>A window that opens with the first of \<open>n + 1\<close> requests admits exactly its quota.\<close>

lemma window_quota:
  assumes "wstart s = None \<or> (\<exists>t1. wstart s = Some t1 \<and> t0 - t1 > window)"
    and "\<forall>t \<in> set ts. t - t0 \<le> window"
  shows "admitted (fst (run_hits hit (t0 # ts) s)) = min (int (length (t0 # ts))) limit"
proof -
  obtain ok s' where h: "hit t0 s = (ok, s')" by fastforce
  from hit_fresh [OF assms(1)] h have "ok" "wstart s' = Some t0" "used s' = 1" by auto
  with run_in_window [of s' t0 ts] assms(2) h limit_pos show ?thesis
    by (auto simp: Let_def split_beta)
qed

end

end
