(* ===== verification/Circuit.thy ===== *)
theory Circuit
  imports Prelude Complex_Main
begin

text \<open>
  src/circuit.ts: the three-state circuit breaker, the retry strategy and the registry of
  breakers. A method that mutates the breaker takes it and returns it changed; \<open>Date.now()\<close>
  is the argument \<open>now\<close> of the synchronous segment that reads it. \<open>execute\<close> awaits the
  protected call in the middle, so it is two segments, \<open>admit\<close> before the call and \<open>finish\<close>
  after it, and between them other calls run; \<open>cb_step\<close> is that interleaving.
\<close>

section \<open>The breaker\<close>

datatype State = CLOSED | OPEN | HALF_OPEN

record CircuitBreakerOptions =
  o_name :: "string option"
  o_failureThreshold :: "int option"
  o_resetTimeout :: "int option"
  o_halfOpenMax :: "int option"
  o_monitorInterval :: "int option"

record CircuitBreaker =
  cb_name :: string
  failureThreshold :: int
  resetTimeout :: int
  halfOpenMax :: int
  monitorInterval :: int
  cb_state :: State
  failureCount :: int
  successCount :: int
  halfOpenAttempts :: int
  lastFailureTime :: "time_ms option"
  lastStateChange :: time_ms

definition new_CircuitBreaker :: "CircuitBreakerOptions \<Rightarrow> time_ms \<Rightarrow> CircuitBreaker" where
  "new_CircuitBreaker opts now =
    \<lparr> cb_name = or_str (o_name opts) ''default'',
      failureThreshold = or_num (o_failureThreshold opts) 5,
      resetTimeout = or_num (o_resetTimeout opts) 30000,
      halfOpenMax = or_num (o_halfOpenMax opts) 3,
      monitorInterval = or_num (o_monitorInterval opts) 10000,
      cb_state = CLOSED, failureCount = 0, successCount = 0, halfOpenAttempts = 0,
      lastFailureTime = None, lastStateChange = now \<rparr>"

definition cb_transition :: "State \<Rightarrow> time_ms \<Rightarrow> CircuitBreaker \<Rightarrow> CircuitBreaker" where
  "cb_transition newState now b =
    (let b' = b\<lparr>cb_state := newState, lastStateChange := now\<rparr> in
     case newState of
       CLOSED \<Rightarrow> b'\<lparr>failureCount := 0, successCount := 0, halfOpenAttempts := 0\<rparr>
     | HALF_OPEN \<Rightarrow> b'\<lparr>halfOpenAttempts := 0, successCount := 0\<rparr>
     | OPEN \<Rightarrow> b')"

text \<open>The getter \<open>currentState\<close> moves an open breaker on; \<open>null\<close> counts as 0 in the subtraction.\<close>

definition last_failure :: "CircuitBreaker \<Rightarrow> time_ms" where
  "last_failure b = (case lastFailureTime b of None \<Rightarrow> 0 | Some t \<Rightarrow> t)"

definition currentState :: "time_ms \<Rightarrow> CircuitBreaker \<Rightarrow> CircuitBreaker" where
  "currentState now b =
    (if cb_state b = OPEN \<and> now - last_failure b \<ge> resetTimeout b
     then cb_transition HALF_OPEN now b else b)"

definition cb_onSuccess :: "time_ms \<Rightarrow> CircuitBreaker \<Rightarrow> CircuitBreaker" where
  "cb_onSuccess now b =
    (if cb_state b = HALF_OPEN then
       (let b' = b\<lparr>successCount := successCount b + 1\<rparr> in
        if successCount b' \<ge> halfOpenMax b' then cb_transition CLOSED now b' else b')
     else b\<lparr>failureCount := max 0 (failureCount b - 1)\<rparr>)"

definition cb_onFailure :: "time_ms \<Rightarrow> CircuitBreaker \<Rightarrow> CircuitBreaker" where
  "cb_onFailure now b =
    (let b' = b\<lparr>failureCount := failureCount b + 1, lastFailureTime := Some now\<rparr> in
     if cb_state b' = HALF_OPEN then cb_transition OPEN now b'
     else if failureCount b' \<ge> failureThreshold b' then cb_transition OPEN now b'
     else b')"

definition cb_checkState :: "time_ms \<Rightarrow> CircuitBreaker \<Rightarrow> CircuitBreaker" where
  "cb_checkState now b = (if cb_state b = OPEN then currentState now b else b)"

datatype admission = Admit | RejectOpen | RejectHalfOpen

definition cb_admit :: "time_ms \<Rightarrow> CircuitBreaker \<Rightarrow> admission \<times> CircuitBreaker" where
  "cb_admit now b0 =
    (let b = currentState now b0 in
     if cb_state b = OPEN then (RejectOpen, b)
     else if cb_state b = HALF_OPEN then
       (if halfOpenAttempts b \<ge> halfOpenMax b then (RejectHalfOpen, cb_transition OPEN now b)
        else (Admit, b\<lparr>halfOpenAttempts := halfOpenAttempts b + 1\<rparr>))
     else (Admit, b))"

definition cb_finish :: "time_ms \<Rightarrow> bool \<Rightarrow> CircuitBreaker \<Rightarrow> CircuitBreaker" where
  "cb_finish now ok b = (if ok then cb_onSuccess now b else cb_onFailure now b)"

text \<open>
  \<open>execute(fn, fallback)\<close> when nothing else runs meanwhile: the protected call acts on the
  rest of the world \<open>w\<close>, so a rejected call is one that leaves \<open>w\<close> alone.
\<close>

datatype 'e cb_error = CircuitIsOpen string | RejectedHalfOpen string | Thrown 'e

definition cb_execute ::
  "time_ms \<Rightarrow> time_ms \<Rightarrow> ('w \<Rightarrow> ('e + 'a) \<times> 'w) \<Rightarrow> ('e option \<Rightarrow> 'e cb_error + 'a) option \<Rightarrow>
   CircuitBreaker \<times> 'w \<Rightarrow> ('e cb_error + 'a) \<times> CircuitBreaker \<times> 'w" where
  "cb_execute t0 t1 fn fallback = (\<lambda>(b, w).
    (case cb_admit t0 b of
       (RejectOpen, b') \<Rightarrow>
         ((case fallback of Some f \<Rightarrow> f None | None \<Rightarrow> Inl (CircuitIsOpen (cb_name b'))), b', w)
     | (RejectHalfOpen, b') \<Rightarrow>
         ((case fallback of Some f \<Rightarrow> f None | None \<Rightarrow> Inl (RejectedHalfOpen (cb_name b'))), b', w)
     | (Admit, b') \<Rightarrow>
         (case fn w of
            (Inr r, w') \<Rightarrow> (Inr r, cb_onSuccess t1 b', w')
          | (Inl e, w') \<Rightarrow>
              ((case fallback of Some f \<Rightarrow> f (Some e) | None \<Rightarrow> Inl (Thrown e)),
               cb_onFailure t1 b', w'))))"

record CircuitBreakerStatus =
  s_name :: string
  s_state :: State
  s_failureCount :: int
  s_lastFailure :: "time_ms option"
  s_uptime :: int

definition getStatus :: "time_ms \<Rightarrow> CircuitBreaker \<Rightarrow> CircuitBreakerStatus \<times> CircuitBreaker" where
  "getStatus now b0 =
    (let b = currentState now b0 in
     (\<lparr> s_name = cb_name b, s_state = cb_state b, s_failureCount = failureCount b,
        s_lastFailure = lastFailureTime b, s_uptime = now - lastStateChange b \<rparr>, b))"

lemmas breaker_ops =
  cb_transition_def currentState_def cb_onSuccess_def cb_onFailure_def cb_checkState_def
  cb_admit_def cb_finish_def Let_def

section \<open>Interleaved calls\<close>

text \<open>
  Events of one breaker: a call asks for admission, an admitted call returns (with or
  without success), the monitor timer ticks, a status is read. The second component counts
  the calls between their two segments.
\<close>

datatype cb_event = Call time_ms | Return time_ms bool | Monitor time_ms | Status time_ms

type_synonym cb_sys = "CircuitBreaker \<times> nat"

fun cb_apply :: "cb_event \<Rightarrow> cb_sys \<Rightarrow> cb_sys" where
  "cb_apply (Call t) (b, n) =
     (case cb_admit t b of (a, b') \<Rightarrow> (b', if a = Admit then Suc n else n))"
| "cb_apply (Return t ok) (b, n) = (if n = 0 then (b, n) else (cb_finish t ok b, n - 1))"
| "cb_apply (Monitor t) (b, n) = (cb_checkState t b, n)"
| "cb_apply (Status t) (b, n) = (snd (getStatus t b), n)"

fun cb_run :: "cb_event list \<Rightarrow> cb_sys \<Rightarrow> cb_sys" where
  "cb_run [] s = s"
| "cb_run (e # es) s = cb_run es (cb_apply e s)"

inductive cb_step :: "cb_sys \<Rightarrow> cb_sys \<Rightarrow> bool" where
  cb_stepI: "cb_step s (cb_apply e s)"

inductive_cases cb_stepE: "cb_step s t"

definition cb_start :: "cb_sys \<Rightarrow> bool" where
  "cb_start s \<longleftrightarrow> (\<exists>opts now. fst s = new_CircuitBreaker opts now \<and> snd s = 0 \<and>
     0 < failureThreshold (fst s) \<and> 0 < halfOpenMax (fst s))"

text \<open>The fields agree with the state.\<close>

definition cb_ok :: "CircuitBreaker \<Rightarrow> bool" where
  "cb_ok b \<longleftrightarrow>
    0 < failureThreshold b \<and> 0 < halfOpenMax b \<and>
    0 \<le> failureCount b \<and>
    0 \<le> successCount b \<and> successCount b < halfOpenMax b \<and>
    0 \<le> halfOpenAttempts b \<and> halfOpenAttempts b \<le> halfOpenMax b \<and>
    (cb_state b = CLOSED \<longrightarrow>
       failureCount b < failureThreshold b \<and> successCount b = 0 \<and> halfOpenAttempts b = 0) \<and>
    (cb_state b \<noteq> CLOSED \<longrightarrow> lastFailureTime b \<noteq> None)"

lemma cb_ok_new:
  "0 < failureThreshold (new_CircuitBreaker opts now) \<Longrightarrow>
   0 < halfOpenMax (new_CircuitBreaker opts now) \<Longrightarrow> cb_ok (new_CircuitBreaker opts now)"
  by (simp add: cb_ok_def new_CircuitBreaker_def)

lemma cb_ok_currentState [preserves]: "cb_ok b \<Longrightarrow> cb_ok (currentState now b)"
  by (auto simp: cb_ok_def breaker_ops)

lemma cb_ok_admit [preserves]: "cb_ok b \<Longrightarrow> cb_ok (snd (cb_admit now b))"
  using cb_ok_currentState [of b now]
  by (auto simp: cb_ok_def cb_admit_def cb_transition_def Let_def split: State.splits)

lemma cb_ok_onSuccess [preserves]: "cb_ok b \<Longrightarrow> cb_ok (cb_onSuccess now b)"
  by (cases "cb_state b") (auto simp: cb_ok_def breaker_ops)

lemma cb_ok_onFailure [preserves]: "cb_ok b \<Longrightarrow> cb_ok (cb_onFailure now b)"
  by (cases "cb_state b") (auto simp: cb_ok_def breaker_ops)

lemma cb_ok_checkState [preserves]: "cb_ok b \<Longrightarrow> cb_ok (cb_checkState now b)"
  by (simp add: cb_checkState_def cb_ok_currentState)

lemma cb_ok_finish [preserves]: "cb_ok b \<Longrightarrow> cb_ok (cb_finish now ok b)"
  by (simp add: cb_finish_def preserves)

lemma cb_ok_apply [preserves]: "cb_ok (fst s) \<Longrightarrow> cb_ok (fst (cb_apply e s))"
  by (cases s; cases e)
    (simp_all add: getStatus_def Let_def split_beta preserves)

interpretation breaker: invariant_system cb_step cb_start "\<lambda>s. cb_ok (fst s)"
proof unfold_locales
  show "cb_ok (fst s)" if "cb_start s" for s
    using that by (auto simp: cb_start_def intro: cb_ok_new)
  show "cb_ok (fst t)" if "cb_ok (fst s)" "cb_step s t" for s t
    using that by (metis cb_ok_apply cb_stepE)
qed

text \<open>In every state the breaker can reach, with any interleaving of calls, returns, monitor
  ticks and status reads, its counters agree with its state: a closed breaker has fewer failures
  than its threshold and no half-open bookkeeping, an open or half-open one remembers a failure
  time, and the half-open counters stay within \<open>halfOpenMax\<close>.\<close>

theorem breaker_fields_agree: "reaches cb_step cb_start s \<Longrightarrow> cb_ok (fst s)"
  by (rule breaker.reaches_inv)

definition demo_options :: CircuitBreakerOptions where
  "demo_options = \<lparr> o_name = Some ''test'', o_failureThreshold = Some 3,
     o_resetTimeout = Some 1000, o_halfOpenMax = Some 2, o_monitorInterval = None \<rparr>"

lemma demo_breaker [simp]:
  "new_CircuitBreaker demo_options 0 =
    \<lparr> cb_name = ''test'', failureThreshold = 3, resetTimeout = 1000, halfOpenMax = 2,
      monitorInterval = 10000, cb_state = CLOSED, failureCount = 0, successCount = 0,
      halfOpenAttempts = 0, lastFailureTime = None, lastStateChange = 0 \<rparr>"
  by (simp add: new_CircuitBreaker_def demo_options_def or_num_def or_str_def)

lemma breaker_fields_agree_witness:
  "reaches cb_step cb_start (cb_apply (Call 5) (new_CircuitBreaker demo_options 0, 0)) \<and>
   cb_ok (fst (cb_apply (Call 5) (new_CircuitBreaker demo_options 0, 0)))"
proof -
  have "cb_start (new_CircuitBreaker demo_options 0, 0)"
    unfolding cb_start_def by (intro exI [of _ demo_options] exI [of _ 0]) simp
  then have "reaches cb_step cb_start (cb_apply (Call 5) (new_CircuitBreaker demo_options 0, 0))"
    by (blast intro: reaches_step reaches_init cb_stepI)
  with breaker_fields_agree show ?thesis by blast
qed

section \<open>Opening\<close>

fun is_failure :: "cb_event \<Rightarrow> bool" where
  "is_failure (Return t ok) = (\<not> ok)"
| "is_failure _ = False"

definition failures :: "cb_event list \<Rightarrow> int" where
  "failures es = int (length (filter is_failure es))"

text \<open>The failures seen so far bound the failure count, and pay for leaving \<open>CLOSED\<close>.\<close>

definition paid :: "int \<Rightarrow> int \<Rightarrow> CircuitBreaker \<Rightarrow> bool" where
  "paid m k b \<longleftrightarrow> failureThreshold b = m \<and> failureCount b \<le> k \<and> 0 \<le> k \<and>
     (cb_state b \<noteq> CLOSED \<longrightarrow> m \<le> k)"

lemma paid_currentState: "paid m k b \<Longrightarrow> paid m k (currentState t b)"
  by (auto simp: paid_def breaker_ops)

lemma paid_admit: "paid m k b \<Longrightarrow> paid m k (snd (cb_admit t b))"
  using paid_currentState [of m k b t]
  by (auto simp: paid_def cb_admit_def cb_transition_def Let_def split: State.splits)

lemma paid_onSuccess: "paid m k b \<Longrightarrow> paid m k (cb_onSuccess t b)"
  by (cases "cb_state b") (auto simp: paid_def breaker_ops)

lemma paid_onFailure: "paid m k b \<Longrightarrow> paid m (k + 1) (cb_onFailure t b)"
  by (cases "cb_state b") (auto simp: paid_def breaker_ops)

lemma paid_apply:
  "paid m k (fst s) \<Longrightarrow> paid m (k + failures [e]) (fst (cb_apply e s))"
proof (cases s; cases e)
  fix b n t ok
  assume p: "paid m k (fst s)" and s: "s = (b, n)" and e: "e = Return t ok"
  have "paid m k' (fst (cb_apply e s))" if "k' = (if ok then k else k + 1)" for k'
    using p s e that paid_onFailure [of m k b t] paid_onSuccess [of m k b t]
    by (auto simp: cb_finish_def paid_def)
  then show ?thesis using e by (cases ok) (simp_all add: failures_def)
qed (auto simp: failures_def getStatus_def cb_checkState_def Let_def split_beta
      intro: paid_currentState paid_admit)

lemma failures_Cons: "failures (e # es) = failures [e] + failures es"
  by (simp add: failures_def)

lemma paid_run: "paid m k (fst s) \<Longrightarrow> paid m (k + failures es) (fst (cb_run es s))"
proof (induction es arbitrary: k s)
  case (Cons e es)
  from Cons.IH [OF paid_apply [OF Cons.prems, of e]] show ?case
    by (simp add: failures_Cons [of e es] add.assoc)
qed (simp add: failures_def)

text \<open>C18. A breaker opens only when it has earned it: whatever calls, returns and timer ticks
  happen and however they interleave, a new breaker that is found open or half-open has
  had at least \<open>failureThreshold\<close> failed calls.\<close>

theorem opens_only_after_threshold:
  assumes "cb_state (fst (cb_run es (new_CircuitBreaker opts now, 0))) \<noteq> CLOSED"
  shows "failureThreshold (new_CircuitBreaker opts now) \<le> failures es"
proof -
  let ?b = "new_CircuitBreaker opts now"
  have "paid (failureThreshold ?b) 0 (fst (?b, 0 :: nat))"
    by (simp add: paid_def new_CircuitBreaker_def)
  from paid_run [OF this, of es] assms show ?thesis by (simp add: paid_def)
qed

lemma opens_only_after_threshold_witness:
  "let es = [Call 1, Return 2 False, Call 3, Return 4 False, Call 5, Return 6 False] in
   cb_state (fst (cb_run es (new_CircuitBreaker demo_options 0, 0))) \<noteq> CLOSED \<and>
   failureThreshold (new_CircuitBreaker demo_options 0) \<le> failures es"
proof -
  let ?es = "[Call 1, Return 2 False, Call 3, Return 4 False, Call 5, Return 6 False]"
  have "cb_state (fst (cb_run ?es (new_CircuitBreaker demo_options 0, 0))) \<noteq> CLOSED"
    by (simp add: breaker_ops)
  with opens_only_after_threshold [OF this] show ?thesis by (simp add: Let_def)
qed

text \<open>An open breaker fails fast: before \<open>resetTimeout\<close> has passed since the last failure,
  \<open>execute\<close> runs the fallback without an error (or throws the open error if there is none),
  never calls the protected function, and leaves the breaker as it was.\<close>

theorem open_fails_fast:
  assumes "cb_state b = OPEN" and "t0 - last_failure b < resetTimeout b"
  shows "cb_execute t0 t1 fn fallback (b, w) =
    ((case fallback of Some f \<Rightarrow> f None | None \<Rightarrow> Inl (CircuitIsOpen (cb_name b))), b, w)"
  using assms by (simp add: cb_execute_def cb_admit_def currentState_def Let_def)

lemma open_fails_fast_witness:
  "cb_execute 500 501 (\<lambda>n. (Inr n, Suc n)) None
     ((new_CircuitBreaker demo_options 0)\<lparr>cb_state := OPEN, lastFailureTime := Some 100\<rparr>, 7 :: nat) =
   (Inl (CircuitIsOpen ''test'' :: unit cb_error),
    (new_CircuitBreaker demo_options 0)\<lparr>cb_state := OPEN, lastFailureTime := Some 100\<rparr>, 7)"
  by (subst open_fails_fast) (simp_all add: last_failure_def)

section \<open>Recovering\<close>

text \<open>A probe is a call that is admitted and returns before the next one starts.\<close>

definition probes :: "time_ms list \<Rightarrow> cb_event list" where
  "probes ts = concat (map (\<lambda>t. [Call t, Return t True]) ts)"

lemma probe_half_open:
  assumes "cb_state b = HALF_OPEN" "successCount b = j" "halfOpenAttempts b = j"
    "j < halfOpenMax b"
  shows "cb_run (probes [t]) (b, n) =
    ((if j + 1 \<ge> halfOpenMax b then cb_transition CLOSED t else id)
      (b\<lparr>halfOpenAttempts := j + 1, successCount := j + 1\<rparr>), n)"
  using assms by (simp add: probes_def breaker_ops)

lemma probes_Cons: "cb_run (probes (t # ts)) s = cb_run (probes ts) (cb_run (probes [t]) s)"
  by (cases s) (simp add: probes_def)

lemma probes_half_open:
  assumes "cb_state b = HALF_OPEN" "successCount b = j" "halfOpenAttempts b = j"
    "int (length ts) = halfOpenMax b - j" "ts \<noteq> []"
  shows "\<exists>b'. cb_run (probes ts) (b, n) = (b', n) \<and> cb_state b' = CLOSED \<and> failureCount b' = 0 \<and>
    successCount b' = 0 \<and> halfOpenAttempts b' = 0"
  using assms
proof (induction ts arbitrary: b j)
  case (Cons t ts)
  show ?case
  proof (cases "ts = []")
    case True
    with Cons.prems show ?thesis
      using probe_half_open [of b j t n] by (auto simp: cb_transition_def)
  next
    case False
    then have "j + 1 < halfOpenMax b" using Cons.prems by (cases ts) auto
    then have "cb_run (probes [t]) (b, n) =
        (b\<lparr>halfOpenAttempts := j + 1, successCount := j + 1\<rparr>, n)"
      using probe_half_open [of b j t n] Cons.prems by simp
    with Cons.IH [of "b\<lparr>halfOpenAttempts := j + 1, successCount := j + 1\<rparr>" "j + 1"] Cons.prems False
    show ?thesis by (simp add: probes_Cons [of t ts])
  qed
qed simp

lemma Call_after_timeout:
  assumes "cb_state b = OPEN" "t - last_failure b \<ge> resetTimeout b" "0 < halfOpenMax b"
  shows "cb_apply (Call t) (b, n) = cb_apply (Call t) (cb_transition HALF_OPEN t b, n)"
  using assms by (simp add: breaker_ops)

text \<open>C19. Recovery: once \<open>resetTimeout\<close> has passed since the last failure, \<open>halfOpenMax\<close>
  successful calls one after the other close an open breaker and clear all its counters.\<close>

theorem open_recovers:
  assumes "cb_state b = OPEN" and "t - last_failure b \<ge> resetTimeout b"
    and "int (length (t # ts)) = halfOpenMax b"
  shows "\<exists>b'. cb_run (probes (t # ts)) (b, n) = (b', n) \<and> cb_state b' = CLOSED \<and>
    failureCount b' = 0 \<and> successCount b' = 0 \<and> halfOpenAttempts b' = 0"
proof -
  let ?h = "cb_transition HALF_OPEN t b"
  have "cb_run (probes (t # ts)) (b, n) = cb_run (probes (t # ts)) (?h, n)"
    using Call_after_timeout [of b t n] assms by (simp add: probes_def)
  moreover have "cb_state ?h = HALF_OPEN" "successCount ?h = 0" "halfOpenAttempts ?h = 0"
    "int (length (t # ts)) = halfOpenMax ?h - 0"
    using assms by (auto simp: cb_transition_def)
  ultimately show ?thesis using probes_half_open [of ?h 0 "t # ts" n] by simp
qed

lemma open_recovers_witness:
  "\<exists>b'. cb_run (probes [2000, 2010])
      ((new_CircuitBreaker demo_options 0)\<lparr>cb_state := OPEN, failureCount := 3,
         lastFailureTime := Some 900\<rparr>, 0) = (b', 0) \<and> cb_state b' = CLOSED \<and>
    failureCount b' = 0 \<and> successCount b' = 0 \<and> halfOpenAttempts b' = 0"
  by (rule open_recovers) (simp_all add: last_failure_def)

text \<open>A failure while half-open reopens the breaker at once and restarts the timer: every
  call in the next \<open>resetTimeout\<close> milliseconds is rejected and changes nothing.\<close>

theorem half_open_failure_reopens:
  assumes "cb_state b = HALF_OPEN" and "t' - t < resetTimeout b"
  shows "cb_state (cb_finish t False b) = OPEN \<and>
    cb_admit t' (cb_finish t False b) = (RejectOpen, cb_finish t False b)"
  using assms by (simp add: breaker_ops last_failure_def)

lemma half_open_failure_reopens_witness:
  "cb_state (cb_finish 1000 False ((new_CircuitBreaker demo_options 0)\<lparr>cb_state := HALF_OPEN\<rparr>)) = OPEN \<and>
   cb_admit 1500 (cb_finish 1000 False ((new_CircuitBreaker demo_options 0)\<lparr>cb_state := HALF_OPEN\<rparr>)) =
   (RejectOpen, cb_finish 1000 False ((new_CircuitBreaker demo_options 0)\<lparr>cb_state := HALF_OPEN\<rparr>))"
  by (rule half_open_failure_reopens) simp_all

text \<open>The half-open limit does not hold callers back: when all \<open>halfOpenMax\<close> probes are taken,
  the next call is rejected and the breaker goes to \<open>OPEN\<close>, but the failure time is not renewed,
  so the call after it, even at the same instant, finds the breaker half-open again with a
  fresh set of probes and is admitted.\<close>

theorem half_open_rejection_readmits:
  assumes "cb_state b = HALF_OPEN" and "halfOpenAttempts b \<ge> halfOpenMax b"
    and "0 < halfOpenMax b" and "t - last_failure b \<ge> resetTimeout b" and "t \<le> t'"
  shows "fst (cb_admit t b) = RejectHalfOpen \<and> cb_state (snd (cb_admit t b)) = OPEN \<and>
    fst (cb_admit t' (snd (cb_admit t b))) = Admit \<and>
    halfOpenAttempts (snd (cb_admit t' (snd (cb_admit t b)))) = 1"
  using assms by (simp add: breaker_ops last_failure_def)

lemma half_open_rejection_readmits_witness:
  "let b = (new_CircuitBreaker demo_options 0)\<lparr>cb_state := HALF_OPEN, halfOpenAttempts := 2,
         lastFailureTime := Some 900\<rparr> in
   fst (cb_admit 2000 b) = RejectHalfOpen \<and> cb_state (snd (cb_admit 2000 b)) = OPEN \<and>
   fst (cb_admit 2000 (snd (cb_admit 2000 b))) = Admit \<and>
   halfOpenAttempts (snd (cb_admit 2000 (snd (cb_admit 2000 b)))) = 1"
  unfolding Let_def by (rule half_open_rejection_readmits) (simp_all add: last_failure_def)

section \<open>Retrying\<close>

record RetryOptions =
  r_maxRetries :: "int option"
  r_baseDelay :: "int option"
  r_maxDelay :: "int option"
  r_factor :: "int option"
  r_jitter :: "bool option"

record RetryStrategy =
  maxRetries :: int
  baseDelay :: int
  maxDelay :: int
  retry_factor :: int
  jitter :: bool

definition new_RetryStrategy :: "RetryOptions \<Rightarrow> RetryStrategy" where
  "new_RetryStrategy opts =
    \<lparr> maxRetries = or_num (r_maxRetries opts) 3, baseDelay = or_num (r_baseDelay opts) 1000,
      maxDelay = or_num (r_maxDelay opts) 30000, retry_factor = or_num (r_factor opts) 2,
      jitter = (r_jitter opts \<noteq> Some False) \<rparr>"

text \<open>\<open>rnd\<close> is the value of \<open>Math.random()\<close>, between 0 and 1.\<close>

definition calculateDelay :: "RetryStrategy \<Rightarrow> real \<Rightarrow> nat \<Rightarrow> int" where
  "calculateDelay rs rnd attempt =
    (let d = of_int (baseDelay rs) * of_int (retry_factor rs) ^ attempt;
         d = min d (of_int (maxDelay rs));
         d = (if jitter rs then d * (1 / 2 + rnd * (1 / 2)) else d)
     in \<lfloor>d\<rfloor>)"

text \<open>
  The loop of \<open>execute\<close>, from \<open>attempt\<close> with \<open>r\<close> rounds left: the call acts on the world \<open>w\<close>;
  the result is the value or the last error, with the delays slept on the way.
\<close>

fun retry_loop ::
  "RetryStrategy \<Rightarrow> (nat \<Rightarrow> real) \<Rightarrow> (nat \<Rightarrow> 'w \<Rightarrow> ('e + 'a) \<times> 'w) \<Rightarrow> nat \<Rightarrow> nat \<Rightarrow>
   'e option \<Rightarrow> 'w \<Rightarrow> ('e option + 'a) \<times> int list \<times> 'w" where
  "retry_loop rs rnd fn 0 attempt lastError w = (Inl lastError, [], w)"
| "retry_loop rs rnd fn (Suc r) attempt lastError w =
    (case fn attempt w of
       (Inr v, w') \<Rightarrow> (Inr v, [], w')
     | (Inl e, w') \<Rightarrow>
         (case retry_loop rs rnd fn r (Suc attempt) (Some e) w' of
            (res, delays, w'') \<Rightarrow>
              (res,
               (if int attempt < maxRetries rs then [calculateDelay rs (rnd attempt) attempt] else [])
                 @ delays,
               w'')))"

definition retry_execute ::
  "RetryStrategy \<Rightarrow> (nat \<Rightarrow> real) \<Rightarrow> (nat \<Rightarrow> 'w \<Rightarrow> ('e + 'a) \<times> 'w) \<Rightarrow> 'w \<Rightarrow>
   ('e option + 'a) \<times> int list \<times> 'w" where
  "retry_execute rs rnd fn w = retry_loop rs rnd fn (nat (maxRetries rs + 1)) 0 None w"

text \<open>A call whose outcomes are \<open>out\<close> and that logs its attempts.\<close>

definition logged :: "(nat \<Rightarrow> 'e + 'a) \<Rightarrow> nat \<Rightarrow> nat list \<Rightarrow> ('e + 'a) \<times> nat list" where
  "logged out a w = (out a, w @ [a])"

lemma retry_loop_succeeds:
  assumes "\<forall>i < k. \<exists>e. out (a + i) = Inl e" "out (a + k) = Inr v" "k < r"
    and "int (a + r) = maxRetries rs + 1"
  shows "retry_loop rs rnd (logged out) r a le w =
    (Inr v, map (\<lambda>i. calculateDelay rs (rnd i) i) [a..<a + k], w @ [a..<Suc (a + k)])"
  using assms
proof (induction k arbitrary: r a le w)
  case 0
  then show ?case by (cases r) (auto simp: logged_def)
next
  case (Suc k)
  obtain r' where r: "r = Suc r'" using Suc.prems by (cases r) auto
  obtain e where "out a = Inl e" using Suc.prems(1) by force
  then have e: "logged out a w = (Inl e, w @ [a])" by (simp add: logged_def)
  have "retry_loop rs rnd (logged out) r' (Suc a) (Some e) (w @ [a]) =
      (Inr v, map (\<lambda>i. calculateDelay rs (rnd i) i) [Suc a..<Suc a + k],
       (w @ [a]) @ [Suc a..<Suc (Suc a + k)])"
    by (rule Suc.IH) (use Suc.prems r in \<open>auto dest: spec [of _ "Suc _"]\<close>)
  moreover have "int a < maxRetries rs" using Suc.prems r by simp
  moreover have "[a..<Suc (Suc (a + k))] = a # [Suc a..<Suc (Suc (a + k))]"
    "[a..<Suc (a + k)] = a # [Suc a..<Suc (a + k)]"
    by (simp_all add: upt_conv_Cons del: upt_Suc)
  ultimately show ?case by (simp add: r e del: upt_Suc)
qed

lemma retry_loop_fails:
  assumes "\<forall>i < r. \<exists>e. out (a + i) = Inl e" and "0 < r"
    and "int (a + r) = maxRetries rs + 1"
  shows "retry_loop rs rnd (logged out) r a le w =
    (Inl (Some (projl (out (a + r - 1)))), map (\<lambda>i. calculateDelay rs (rnd i) i) [a..<a + r - 1],
     w @ [a..<a + r])"
  using assms
proof (induction r arbitrary: a le w)
  case (Suc r)
  obtain e where oa: "out a = Inl e" using Suc.prems(1) by force
  then have e: "logged out a w = (Inl e, w @ [a])" by (simp add: logged_def)
  show ?case
  proof (cases "r = 0")
    case True
    with e oa Suc.prems show ?thesis by simp
  next
    case False
    have "retry_loop rs rnd (logged out) r (Suc a) (Some e) (w @ [a]) =
      (Inl (Some (projl (out (Suc a + r - 1)))),
       map (\<lambda>i. calculateDelay rs (rnd i) i) [Suc a..<Suc a + r - 1], (w @ [a]) @ [Suc a..<Suc a + r])"
      by (rule Suc.IH) (use Suc.prems False in \<open>auto dest: spec [of _ "Suc _"]\<close>)
    moreover have "int a < maxRetries rs" using Suc.prems False by simp
    moreover have "[a..<Suc (a + r)] = a # [Suc a..<Suc (a + r)]"
      "[a..<a + r] = a # [Suc a..<a + r]" using False by (simp_all add: upt_conv_Cons del: upt_Suc)
    ultimately show ?thesis using e by (simp del: upt_Suc)
  qed
qed simp

text \<open>\<open>RetryStrategy.execute\<close> calls the function on attempts 0, 1, ... until the first success
  at attempt \<open>k\<close> within \<open>maxRetries\<close>, returns that value, and has slept exactly the back-off
  delays of the attempts before it.\<close>

theorem retry_returns_first_success:
  assumes "\<forall>i < k. \<exists>e. out i = Inl e" and "out k = Inr v" and "int k \<le> maxRetries rs"
  shows "retry_execute rs rnd (logged out) [] =
    (Inr v, map (\<lambda>i. calculateDelay rs (rnd i) i) [0..<k], [0..<Suc k])"
  using assms retry_loop_succeeds [of k out 0 v "nat (maxRetries rs + 1)" rs rnd None "[]"]
  by (simp add: retry_execute_def)

definition demo_retry :: RetryStrategy where
  "demo_retry = new_RetryStrategy \<lparr> r_maxRetries = Some 2, r_baseDelay = Some 10,
     r_maxDelay = None, r_factor = None, r_jitter = Some False \<rparr>"

lemma demo_retry [simp]:
  "demo_retry = \<lparr> maxRetries = 2, baseDelay = 10, maxDelay = 30000, retry_factor = 2, jitter = False \<rparr>"
  by (simp add: demo_retry_def new_RetryStrategy_def or_num_def)

lemma retry_returns_first_success_witness:
  "retry_execute demo_retry (\<lambda>_. 0)
     (logged (\<lambda>i. if i < 2 then Inl ''not yet'' else Inr ''done'')) [] =
   (Inr ''done'', map (\<lambda>i. calculateDelay demo_retry 0 i) [0..<2], [0..<Suc 2])"
  by (rule retry_returns_first_success) auto

text \<open>When every attempt fails, \<open>execute\<close> makes exactly \<open>maxRetries + 1\<close> calls, sleeps
  \<open>maxRetries\<close> times and throws the error of the last call.\<close>

theorem retry_gives_up:
  assumes "\<forall>i. \<exists>e. out i = Inl e" and "0 \<le> maxRetries rs"
  shows "retry_execute rs rnd (logged out) [] =
    (Inl (Some (projl (out (nat (maxRetries rs))))),
     map (\<lambda>i. calculateDelay rs (rnd i) i) [0..<nat (maxRetries rs)],
     [0..<Suc (nat (maxRetries rs))])"
proof -
  have "nat (maxRetries rs + 1) = Suc (nat (maxRetries rs))" using assms(2) by simp
  with assms retry_loop_fails [of "nat (maxRetries rs + 1)" out 0 rs rnd None "[]"]
  show ?thesis by (simp add: retry_execute_def del: upt_Suc)
qed

lemma retry_gives_up_witness:
  "retry_execute demo_retry (\<lambda>_. 0) (logged (\<lambda>i. Inl i :: nat + unit)) [] =
    (Inl (Some 2), map (\<lambda>i. calculateDelay demo_retry 0 i) [0..<2], [0..<Suc 2])"
  using retry_gives_up [of "\<lambda>i. Inl i :: nat + unit" demo_retry "\<lambda>_. 0"] by simp

text \<open>Back-off delays are bounded: with non-negative settings a delay never exceeds
  \<open>maxDelay\<close> and is never negative, and with jitter it is at least half of the capped
  exponential value, rounded down.\<close>

theorem retry_delay_bounds:
  assumes "0 \<le> baseDelay rs" and "0 \<le> maxDelay rs" and "0 \<le> retry_factor rs"
    and "0 \<le> rnd" and "rnd < 1"
  shows "0 \<le> calculateDelay rs rnd a \<and> calculateDelay rs rnd a \<le> maxDelay rs \<and>
    min (baseDelay rs * retry_factor rs ^ a) (maxDelay rs) div 2 \<le> calculateDelay rs rnd a"
proof -
  define m where "m = min (baseDelay rs * retry_factor rs ^ a) (maxDelay rs)"
  define j where "j = (if jitter rs then 1 / 2 + rnd * (1 / 2) else 1)"
  have m: "0 \<le> m" "m \<le> maxDelay rs" using assms by (auto simp: m_def)
  have j: "1 / 2 \<le> j" "j \<le> 1" using assms by (auto simp: j_def)
  have d: "calculateDelay rs rnd a = \<lfloor>of_int m * j\<rfloor>"
    by (auto simp: calculateDelay_def Let_def m_def j_def min_def simp flip: of_int_mult of_int_power)
  have "of_int m * j \<le> of_int m" using j m by (simp add: mult_left_le)
  then have "\<lfloor>of_int m * j\<rfloor> \<le> m" by linarith
  moreover have "of_int m * (1 / 2) \<le> of_int m * j" using j m by (intro mult_left_mono) auto
  then have "\<lfloor>of_int m / 2 :: real\<rfloor> \<le> \<lfloor>of_int m * j\<rfloor>" by (intro floor_mono) simp
  then have "m div 2 \<le> \<lfloor>of_int m * j\<rfloor>" using floor_divide_of_int_eq [where ?'a = real, of m 2] by simp
  moreover have "0 \<le> \<lfloor>of_int m * j\<rfloor>" using j m by simp
  ultimately show ?thesis using m d by (auto simp: m_def)
qed

lemma retry_delay_bounds_witness:
  "0 \<le> calculateDelay demo_retry (1 / 4) 3 \<and> calculateDelay demo_retry (1 / 4) 3 \<le> maxDelay demo_retry \<and>
   min (baseDelay demo_retry * retry_factor demo_retry ^ 3) (maxDelay demo_retry) div 2
     \<le> calculateDelay demo_retry (1 / 4) 3"
  by (rule retry_delay_bounds) simp_all

section \<open>The registry\<close>

type_synonym registry = "(string \<times> CircuitBreaker) list"

text \<open>\<open>{ name, ...options }\<close>: a name among the options wins over the registry key.\<close>

definition getBreaker ::
  "string \<Rightarrow> CircuitBreakerOptions \<Rightarrow> time_ms \<Rightarrow> registry \<Rightarrow> CircuitBreaker \<times> registry" where
  "getBreaker nm opts now m =
    (let m' = (if map_of m nm = None
               then AList.update nm (new_CircuitBreaker
                      (opts\<lparr>o_name := (case o_name opts of None \<Rightarrow> Some nm | Some n \<Rightarrow> Some n)\<rparr>) now) m
               else m)
     in (the (map_of m' nm), m'))"

fun getAllBreakers :: "time_ms \<Rightarrow> registry \<Rightarrow> CircuitBreakerStatus list \<times> registry" where
  "getAllBreakers now [] = ([], [])"
| "getAllBreakers now ((n, b) # m) =
    (let (st, b') = getStatus now b; (sts, m') = getAllBreakers now m
     in (st # sts, (n, b') # m'))"

text \<open>The registry keeps one breaker per name: asking for a name again returns the breaker
  that is there, whatever options are passed, and leaves the registry unchanged; asking for a
  new name leaves every other breaker alone and keeps the names distinct.\<close>

theorem getBreaker_registry:
  "map_of (snd (getBreaker nm opts now m)) nm = Some (fst (getBreaker nm opts now m)) \<and>
   getBreaker nm opts' now' (snd (getBreaker nm opts now m)) = getBreaker nm opts now m \<and>
   (n' = nm \<or> map_of (snd (getBreaker nm opts now m)) n' = map_of m n') \<and>
   distinct (keys (snd (getBreaker nm opts now m))) = distinct (keys m)"
proof -
  have "distinct (keys (AList.update nm b m)) = distinct (keys m)" for b
    by (auto simp: keys_update)
  then show ?thesis by (auto simp: getBreaker_def Let_def)
qed

end
