(* ===== verification/RateLimit.thy ===== *)
theory RateLimit
  imports Prelude
begin

text \<open>
  src/ratelimit.ts: the in-memory request limiter of the HTTP server. One record per client
  address counts general and search requests in a window that starts with the first request.
  A Redis limiter, when there is one, is asked first; its answer (or its failure) is an
  argument, and the in-memory counters decide only when it is absent or throws.
\<close>

section \<open>State and handlers\<close>

definition RATE_LIMIT_WINDOW_MS :: time_ms where "RATE_LIMIT_WINDOW_MS = 60000"
definition RATE_LIMIT_MAX :: int where "RATE_LIMIT_MAX = 100"
definition RATE_LIMIT_SEARCH_MAX :: int where "RATE_LIMIT_SEARCH_MAX = 30"

lemmas rate_constants = RATE_LIMIT_WINDOW_MS_def RATE_LIMIT_MAX_def RATE_LIMIT_SEARCH_MAX_def

record client =
  c_start :: time_ms
  c_count :: int
  c_searchCount :: int

type_synonym clients = "(string \<times> client) list"

definition client_ip :: "string option \<Rightarrow> string option \<Rightarrow> string" where
  "client_ip req_ip remoteAddress = or_str req_ip (or_str remoteAddress ''unknown'')"

definition getClient :: "time_ms \<Rightarrow> string \<Rightarrow> clients \<Rightarrow> client \<times> clients" where
  "getClient now ip m =
    (case map_of m ip of
       Some c \<Rightarrow>
         if now - c_start c > RATE_LIMIT_WINDOW_MS
         then (let c = \<lparr>c_start = now, c_count = 0, c_searchCount = 0\<rparr> in (c, AList.update ip c m))
         else (c, m)
     | None \<Rightarrow>
         (let c = \<lparr>c_start = now, c_count = 0, c_searchCount = 0\<rparr> in (c, AList.update ip c m)))"

datatype response = Next | TooMany int string

text \<open>What the Redis limiter said: an answer, or \<open>Inl ()\<close> when the call threw.\<close>

type_synonym redis_answer = "(unit + bool) option"

definition retry_after :: "time_ms \<Rightarrow> client \<Rightarrow> int" where
  "retry_after now c = ceil_div (RATE_LIMIT_WINDOW_MS - (now - c_start c)) 1000"

definition rateLimit ::
  "redis_answer \<Rightarrow> time_ms \<Rightarrow> time_ms \<Rightarrow> string \<Rightarrow> clients \<Rightarrow> response \<times> clients" where
  "rateLimit redis now now' ip m =
    (case redis of
       Some (Inr True) \<Rightarrow> (Next, m)
     | Some (Inr False) \<Rightarrow> (TooMany 60 ''Too many requests. Try again later.'', m)
     | _ \<Rightarrow>
       (let (c, m) = getClient now ip m;
            c = c\<lparr>c_count := c_count c + 1\<rparr>;
            m = AList.update ip c m
        in if c_count c > RATE_LIMIT_MAX
           then (TooMany (retry_after now' c) ''Too many requests. Try again later.'', m)
           else (Next, m)))"

definition searchRateLimit ::
  "redis_answer \<Rightarrow> time_ms \<Rightarrow> time_ms \<Rightarrow> string \<Rightarrow> clients \<Rightarrow> response \<times> clients" where
  "searchRateLimit redis now now' ip m =
    (case redis of
       Some (Inr True) \<Rightarrow> (Next, m)
     | Some (Inr False) \<Rightarrow> (TooMany 60 ''Search rate limit exceeded. Try again later.'', m)
     | _ \<Rightarrow>
       (let (c, m) = getClient now ip m;
            c = c\<lparr>c_searchCount := c_searchCount c + 1\<rparr>;
            m = AList.update ip c m
        in if c_searchCount c > RATE_LIMIT_SEARCH_MAX
           then (TooMany (retry_after now' c) ''Search rate limit exceeded. Try again later.'', m)
           else (Next, m)))"

definition cleanupClients :: "time_ms \<Rightarrow> clients \<Rightarrow> clients" where
  "cleanupClients now m = filter (\<lambda>(ip, c). \<not> (now - c_start c > RATE_LIMIT_WINDOW_MS * 2)) m"

section \<open>Quotas\<close>

text \<open>The in-memory limiters as fixed-window counters of one address.\<close>

definition general_hit :: "string \<Rightarrow> time_ms \<Rightarrow> clients \<Rightarrow> bool \<times> clients" where
  "general_hit ip t m = (case rateLimit None t t ip m of (r, m') \<Rightarrow> (r = Next, m'))"

definition search_hit :: "string \<Rightarrow> time_ms \<Rightarrow> clients \<Rightarrow> bool \<times> clients" where
  "search_hit ip t m = (case searchRateLimit None t t ip m of (r, m') \<Rightarrow> (r = Next, m'))"

definition win_start :: "string \<Rightarrow> clients \<Rightarrow> time_ms option" where
  "win_start ip m = map_option c_start (map_of m ip)"

definition win_count :: "string \<Rightarrow> clients \<Rightarrow> int" where
  "win_count ip m = (case map_of m ip of None \<Rightarrow> 0 | Some c \<Rightarrow> c_count c)"

definition win_search :: "string \<Rightarrow> clients \<Rightarrow> int" where
  "win_search ip m = (case map_of m ip of None \<Rightarrow> 0 | Some c \<Rightarrow> c_searchCount c)"

lemmas limiter_defs =
  rateLimit_def searchRateLimit_def getClient_def general_hit_def search_hit_def
  win_start_def win_count_def win_search_def Let_def

interpretation general: window_limiter "general_hit ip" "win_start ip" "win_count ip"
  RATE_LIMIT_WINDOW_MS RATE_LIMIT_MAX for ip
  by unfold_locales
    (auto simp: limiter_defs rate_constants split: option.splits)

interpretation search: window_limiter "search_hit ip" "win_start ip" "win_search ip"
  RATE_LIMIT_WINDOW_MS RATE_LIMIT_SEARCH_MAX for ip
  by unfold_locales
    (auto simp: limiter_defs rate_constants split: option.splits)

text \<open>The general quota: when an address opens a window (its first request ever, or the
  first more than 60 seconds after its window opened), then of that request and any number of
  further ones inside the window exactly the first 100 pass, the rest get 429.\<close>

theorem general_quota:
  assumes "win_start ip m = None \<or> (\<exists>t1. win_start ip m = Some t1 \<and> t0 - t1 > RATE_LIMIT_WINDOW_MS)"
    and "\<forall>t \<in> set ts. t - t0 \<le> RATE_LIMIT_WINDOW_MS"
  shows "admitted (fst (run_hits (general_hit ip) (t0 # ts) m)) = min (int (length (t0 # ts))) RATE_LIMIT_MAX"
  using assms by (rule general.window_quota)

lemma general_quota_witness:
  "admitted (fst (run_hits (general_hit ''10.0.0.1'') (0 # replicate 150 7) [])) = RATE_LIMIT_MAX"
proof -
  have "admitted (fst (run_hits (general_hit ''10.0.0.1'') (0 # replicate 150 7) [])) =
      min (int (length (0 # replicate 150 (7 :: int)))) RATE_LIMIT_MAX"
    by (rule general_quota) (auto simp: win_start_def rate_constants)
  then show ?thesis by (simp add: rate_constants)
qed

text \<open>The search quota: in the same way an address gets exactly its first 30 searches of a
  window.\<close>

theorem search_quota:
  assumes "win_start ip m = None \<or> (\<exists>t1. win_start ip m = Some t1 \<and> t0 - t1 > RATE_LIMIT_WINDOW_MS)"
    and "\<forall>t \<in> set ts. t - t0 \<le> RATE_LIMIT_WINDOW_MS"
  shows "admitted (fst (run_hits (search_hit ip) (t0 # ts) m)) =
    min (int (length (t0 # ts))) RATE_LIMIT_SEARCH_MAX"
  using assms by (rule search.window_quota)

lemma search_quota_witness:
  "admitted (fst (run_hits (search_hit ''10.0.0.1'') (0 # replicate 40 60000) [])) = RATE_LIMIT_SEARCH_MAX"
proof -
  have "admitted (fst (run_hits (search_hit ''10.0.0.1'') (0 # replicate 40 60000) [])) =
      min (int (length (0 # replicate 40 (60000 :: int)))) RATE_LIMIT_SEARCH_MAX"
    by (rule search_quota) (auto simp: win_start_def rate_constants)
  then show ?thesis by (simp add: rate_constants)
qed

section \<open>Isolation, clean-up and the retry header\<close>

lemma getClient_frame: "ip' \<noteq> ip \<Longrightarrow> map_of (snd (getClient now ip m)) ip' = map_of m ip'"
  by (auto simp: getClient_def Let_def split: option.splits)

lemma rateLimit_frame: "ip' \<noteq> ip \<Longrightarrow> map_of (snd (rateLimit redis t t' ip m)) ip' = map_of m ip'"
  using getClient_frame [of ip' ip t m]
  by (auto simp: rateLimit_def Let_def split_beta split: option.splits sum.splits bool.splits)

text \<open>The answer depends on the table only through the record of the address itself.\<close>

lemma rateLimit_local:
  assumes "map_of m ip = map_of m' ip"
  shows "fst (rateLimit redis t t' ip m) = fst (rateLimit redis t t' ip m') \<and>
    map_of (snd (rateLimit redis t t' ip m)) ip = map_of (snd (rateLimit redis t t' ip m')) ip"
  using assms
  by (auto simp: rateLimit_def getClient_def Let_def split_beta
      split: option.splits sum.splits bool.splits)

text \<open>A missing record and an expired one are treated alike.\<close>

lemma rateLimit_expired:
  assumes "map_of m ip = Some c" "t - c_start c > RATE_LIMIT_WINDOW_MS" "map_of m' ip = None"
  shows "fst (rateLimit redis t t' ip m) = fst (rateLimit redis t t' ip m')"
  using assms
  by (auto simp: rateLimit_def getClient_def Let_def rate_constants split_beta
      split: option.splits sum.splits bool.splits)

lemma map_of_cleanup:
  assumes "distinct (keys m)"
  shows "map_of (cleanupClients now m) ip =
    (case map_of m ip of None \<Rightarrow> None
     | Some c \<Rightarrow> if now - c_start c > RATE_LIMIT_WINDOW_MS * 2 then None else Some c)"
proof -
  have "map_of (filter (\<lambda>(k, c). P c) m) ip =
      (case map_of m ip of None \<Rightarrow> None | Some c \<Rightarrow> if P c then Some c else None)" for P
    using assms
  proof (induction m)
    case (Cons x m)
    then have "fst x = ip \<Longrightarrow> map_of m ip = None" by (auto simp: map_of_eq_None_iff)
    with Cons show ?case by (cases x) auto
  qed simp
  from this [of "\<lambda>c. \<not> now - c_start c > RATE_LIMIT_WINDOW_MS * 2"] show ?thesis
    by (auto simp: cleanupClients_def split: option.splits)
qed

text \<open>Clients do not share quota and the clean-up timer is invisible: a request of one
  address leaves every other record alone, and sweeping stale records at time \<open>now\<close> changes
  the answer to no later request.\<close>

theorem clients_isolated_and_cleanup_invisible:
  assumes "distinct (keys m)" and "now \<le> t"
  shows "(ip' = ip \<or> map_of (snd (rateLimit redis t t' ip m)) ip' = map_of m ip') \<and>
    fst (rateLimit redis t t' ip (cleanupClients now m)) = fst (rateLimit redis t t' ip m)"
proof -
  have "fst (rateLimit redis t t' ip (cleanupClients now m)) = fst (rateLimit redis t t' ip m)"
  proof (cases "map_of (cleanupClients now m) ip = map_of m ip")
    case True
    then show ?thesis using rateLimit_local by blast
  next
    case False
    then obtain c where c: "map_of m ip = Some c" "now - c_start c > RATE_LIMIT_WINDOW_MS * 2"
      and none: "map_of (cleanupClients now m) ip = None"
      using map_of_cleanup [OF assms(1), of now ip] by (auto split: option.splits if_splits)
    have "t - c_start c > RATE_LIMIT_WINDOW_MS" using c assms(2) by (simp add: rate_constants)
    from rateLimit_expired [OF c(1) this none] show ?thesis by simp
  qed
  then show ?thesis using rateLimit_frame by blast
qed

lemma clients_isolated_and_cleanup_invisible_witness:
  "let m = [(''a'', \<lparr>c_start = 0, c_count = 100, c_searchCount = 0\<rparr>),
            (''b'', \<lparr>c_start = 130000, c_count = 100, c_searchCount = 0\<rparr>)] in
   (''b'' = ''a'' \<or> map_of (snd (rateLimit None 140000 140000 ''a'' m)) ''b'' = map_of m ''b'') \<and>
   fst (rateLimit None 140000 140000 ''a'' (cleanupClients 130000 m)) = fst (rateLimit None 140000 140000 ''a'' m)"
  unfolding Let_def by (rule clients_isolated_and_cleanup_invisible) simp_all

lemma ceil_seconds:
  "0 \<le> x \<Longrightarrow> x \<le> 60000 \<Longrightarrow>
    0 \<le> ceil_div x 1000 \<and> ceil_div x 1000 \<le> 60 \<and> x \<le> ceil_div x 1000 * 1000"
proof -
  assume "0 \<le> x" "x \<le> 60000"
  moreover have "(- x) div 1000 * 1000 + (- x) mod 1000 = - x" by (rule div_mult_mod_eq)
  moreover have "0 \<le> (- x) mod 1000" "(- x) mod 1000 < 1000" by simp_all
  ultimately show ?thesis unfolding ceil_div_def by linarith
qed

text \<open>The \<open>Retry-After\<close> of an in-memory rejection is a number of whole seconds between 0
  and 60, and waiting that long is enough: a request that arrives more than that many seconds
  after the rejection passes.\<close>

theorem retry_after_suffices:
  assumes "map_of m ip = Some c" and "c_start c \<le> t" and "t \<le> t'"
    and "t' - c_start c \<le> RATE_LIMIT_WINDOW_MS"
    and "rateLimit None t t' ip m = (TooMany r msg, m')"
    and "t'' > t' + r * 1000"
  shows "0 \<le> r \<and> r \<le> 60 \<and> fst (rateLimit None t'' t''' ip m') = Next"
proof -
  let ?c = "c\<lparr>c_count := c_count c + 1\<rparr>"
  have r: "r = ceil_div (RATE_LIMIT_WINDOW_MS - (t' - c_start c)) 1000" "m' = AList.update ip ?c m"
    using assms
    by (auto simp: rateLimit_def getClient_def Let_def retry_after_def rate_constants split: if_splits)
  then have b: "0 \<le> r" "r \<le> 60" "RATE_LIMIT_WINDOW_MS - (t' - c_start c) \<le> r * 1000"
    using ceil_seconds [of "RATE_LIMIT_WINDOW_MS - (t' - c_start c)"] assms(2,3,4)
    by (auto simp: rate_constants)
  then have "t'' - c_start ?c > RATE_LIMIT_WINDOW_MS" using assms(6) by simp
  then have "fst (rateLimit None t'' t''' ip m') = Next"
    by (simp add: r(2) rateLimit_def getClient_def Let_def rate_constants)
  with b show ?thesis by blast
qed

lemma retry_after_suffices_witness:
  "let m = [(''a'', \<lparr>c_start = 0, c_count = 100, c_searchCount = 0\<rparr>)] in
   (0 :: int) \<le> 51 \<and> (51 :: int) \<le> 60 \<and>
   fst (rateLimit None 60501 60501 ''a'' (AList.update ''a'' \<lparr>c_start = 0, c_count = 101, c_searchCount = 0\<rparr> m)) = Next"
  unfolding Let_def
  using retry_after_suffices [of "[(''a'', \<lparr>c_start = 0, c_count = 100, c_searchCount = 0\<rparr>)]" "''a''"
      "\<lparr>c_start = 0, c_count = 100, c_searchCount = 0\<rparr>" 9000 9500 51
      "''Too many requests. Try again later.''"
      "[(''a'', \<lparr>c_start = 0, c_count = 101, c_searchCount = 0\<rparr>)]" 60501 60501]
  by (simp add: rateLimit_def getClient_def Let_def retry_after_def rate_constants ceil_div_def)

end
