(* ===== verification/RedisState.thy ===== *)
theory RedisState
  imports RateLimit
begin

text \<open>
  src/redis.ts: the sliding-window limiter with its in-memory fallback, the distributed breaker
  state, the connection, the DNS cache and the set of seen URLs. The Redis server is outside
  the repository; the commands used here act on its keys as documented: a sorted set of
  scores with an expiry, strings with an expiry, and a set.
\<close>

section \<open>The sliding-window limiter\<close>

record zset =
  members :: "time_ms list"
  expires :: time_ms

record fallback_entry =
  fe_count :: int
  fe_start :: time_ms

record RedisRateLimiter =
  maxRequests :: int
  windowMs :: time_ms
  localFallback :: "(string \<times> fallback_entry) list"

text \<open>
  The pipeline of \<open>isAllowed\<close>: an expired key is empty; members up to \<open>now - windowMs\<close> go, the
  new one is added, the rest is counted, and the key expires one window later.
\<close>

definition live_members :: "time_ms \<Rightarrow> zset option \<Rightarrow> time_ms list" where
  "live_members now z = (case z of None \<Rightarrow> [] | Some z \<Rightarrow> if now \<ge> expires z then [] else members z)"

definition sliding_pipeline :: "RedisRateLimiter \<Rightarrow> time_ms \<Rightarrow> zset option \<Rightarrow> int \<times> zset option" where
  "sliding_pipeline L now z =
    (let ms = filter (\<lambda>t. \<not> (0 \<le> t \<and> t \<le> now - windowMs L)) (live_members now z) @ [now]
     in (int (length ms), Some \<lparr>members = ms, expires = now + windowMs L\<rparr>))"

definition fallback_hit :: "string \<Rightarrow> time_ms \<Rightarrow> RedisRateLimiter \<Rightarrow> bool \<times> RedisRateLimiter" where
  "fallback_hit key now L =
    (let e = (case map_of (localFallback L) key of Some e \<Rightarrow> e | None \<Rightarrow> \<lparr>fe_count = 0, fe_start = now\<rparr>);
         e = (if now - fe_start e > windowMs L then \<lparr>fe_count = 0, fe_start = now\<rparr> else e);
         e = e\<lparr>fe_count := fe_count e + 1\<rparr>
     in (fe_count e \<le> maxRequests L, L\<lparr>localFallback := AList.update key e (localFallback L)\<rparr>))"

text \<open>Redis answers, answers with an error for the count (which reads as 0), or fails.\<close>

datatype redis_reply = Replied | CountMissing | Failed

definition isAllowed ::
  "redis_reply \<Rightarrow> time_ms \<Rightarrow> string \<Rightarrow> RedisRateLimiter \<times> (string \<rightharpoonup> zset) \<Rightarrow>
   bool \<times> RedisRateLimiter \<times> (string \<rightharpoonup> zset)" where
  "isAllowed reply now key = (\<lambda>(L, zs).
    (case reply of
       Failed \<Rightarrow> (case fallback_hit key now L of (ok, L') \<Rightarrow> (ok, L', zs))
     | CountMissing \<Rightarrow> (0 \<le> maxRequests L, L, zs)
     | Replied \<Rightarrow>
         (case sliding_pipeline L now (zs key) of
            (count, z) \<Rightarrow> (count \<le> maxRequests L, L, zs(key := z)))))"

text \<open>The requests of one key over a working Redis.\<close>

definition sliding_hit :: "RedisRateLimiter \<Rightarrow> time_ms \<Rightarrow> zset option \<Rightarrow> bool \<times> zset option" where
  "sliding_hit L now z = (case sliding_pipeline L now z of (count, z') \<Rightarrow> (count \<le> maxRequests L, z'))"

lemma isAllowed_sliding:
  "isAllowed Replied now key (L, zs) =
    (fst (sliding_hit L now (zs key)), L, zs(key := snd (sliding_hit L now (zs key))))"
  by (simp add: isAllowed_def sliding_hit_def split: prod.splits)

lemma run_hits_snoc:
  "run_hits hit (ts @ [t]) s =
    (let (oks, s') = run_hits hit ts s; (ok, s'') = hit t s' in (oks @ [ok], s''))"
  by (induction ts arbitrary: s) (auto simp: Let_def split: prod.splits)

lemma run_hits_length: "length (fst (run_hits hit ts s)) = length ts"
  by (induction ts arbitrary: s) (simp_all add: Let_def split_beta)

lemma zip_filter_le:
  "(\<And>t. Q t \<Longrightarrow> P t) \<Longrightarrow>
    length (filter (\<lambda>(t, ok). ok \<and> Q t) (zip ts oks)) \<le> length (filter P ts)"
  by (induction ts oks rule: list_induct2') (auto intro: le_SucI)

text \<open>What the sorted set still knows: every request in a window that is not over.\<close>

lemma sliding_members:
  assumes "sorted ts" and "\<forall>t \<in> set ts. 0 \<le> t" and "\<forall>t \<in> set ts. t \<le> now" and "0 \<le> windowMs L"
  shows "filter (\<lambda>t. \<not> (0 \<le> t \<and> t \<le> now - windowMs L))
      (live_members now (snd (run_hits (sliding_hit L) ts None))) =
    filter (\<lambda>t. t > now - windowMs L) ts"
  using assms(1-3)
proof (induction ts arbitrary: now rule: rev_induct)
  case Nil
  then show ?case by (simp add: live_members_def)
next
  case (snoc t ts)
  let ?w = "windowMs L"
  have prefix: "sorted ts" "\<forall>x \<in> set ts. 0 \<le> x" "\<forall>x \<in> set ts. x \<le> t"
    using snoc.prems by (auto simp: sorted_append)
  obtain oks z where r: "run_hits (sliding_hit L) ts None = (oks, z)" by fastforce
  note IH = snoc.IH [OF prefix, unfolded r snd_conv]
  then have fin: "snd (run_hits (sliding_hit L) (ts @ [t]) None) =
      Some \<lparr>members = filter (\<lambda>x. x > t - ?w) ts @ [t], expires = t + ?w\<rparr>"
    by (simp add: run_hits_snoc r sliding_hit_def sliding_pipeline_def IH)
  show ?case
  proof (cases "now \<ge> t + ?w")
    case True
    then have "\<forall>x \<in> set (ts @ [t]). \<not> x > now - ?w" using prefix(3) by auto
    then show ?thesis unfolding fin using True by (simp add: live_members_def filter_empty_conv)
  next
    case False
    have "t \<le> now" using snoc.prems(3) by simp
    then show ?thesis unfolding fin using False snoc.prems(2)
      by (auto simp: live_members_def intro!: filter_cong)
  qed
qed

text \<open>C27. With Redis the limit is a true sliding window: for any series of requests of one key in
  the order of their times, and any instant \<open>b\<close>, at most \<open>maxRequests\<close> of the requests in
  the window of length \<open>windowMs\<close> that ends at \<open>b\<close> are allowed.\<close>

theorem sliding_quota:
  assumes "sorted ts" and "\<forall>t \<in> set ts. 0 \<le> t" and "0 \<le> windowMs L" and "0 \<le> maxRequests L"
  shows "int (length (filter (\<lambda>(t, ok). ok \<and> b - windowMs L < t \<and> t \<le> b)
      (zip ts (fst (run_hits (sliding_hit L) ts None))))) \<le> maxRequests L"
  using assms(1,2)
proof (induction ts rule: rev_induct)
  case Nil
  then show ?case using assms(4) by simp
next
  case (snoc t ts)
  let ?w = "windowMs L" and ?in = "\<lambda>(t, ok). ok \<and> b - windowMs L < t \<and> t \<le> b"
  have prefix: "sorted ts" "\<forall>x \<in> set ts. 0 \<le> x" "\<forall>x \<in> set ts. x \<le> t"
    using snoc.prems by (auto simp: sorted_append)
  obtain oks z where r: "run_hits (sliding_hit L) ts None = (oks, z)" by fastforce
  have len: "length oks = length ts" using run_hits_length [of "sliding_hit L" ts None] r by simp
  have count: "fst (sliding_pipeline L t z) = int (length (filter (\<lambda>x. x > t - ?w) ts)) + 1"
    using sliding_members [OF prefix assms(3)] r by (simp add: sliding_pipeline_def Let_def)
  obtain ok where ok: "fst (run_hits (sliding_hit L) (ts @ [t]) None) = oks @ [ok]"
      "ok \<longleftrightarrow> fst (sliding_pipeline L t z) \<le> maxRequests L"
    using r by (auto simp: run_hits_snoc sliding_hit_def split: prod.splits)
  show ?case
  proof (cases "?in (t, ok)")
    case True
    have "length (filter ?in (zip ts oks)) \<le> length (filter (\<lambda>x. x > t - ?w) ts)"
      using True by (intro zip_filter_le) auto
    with count ok True show ?thesis using len by simp
  next
    case False
    with snoc.IH [OF prefix(1,2)] r ok(1) len show ?thesis by auto
  qed
qed

definition demo_limiter :: RedisRateLimiter where
  "demo_limiter = \<lparr>maxRequests = 2, windowMs = 5, localFallback = []\<rparr>"

lemma sliding_quota_witness:
  "int (length (filter (\<lambda>(t, ok). ok \<and> 7 - windowMs demo_limiter < t \<and> t \<le> 7)
     (zip [3, 4, 4, 7] (fst (run_hits (sliding_hit demo_limiter) [3, 4, 4, 7] None))))) \<le> maxRequests demo_limiter"
  by (rule sliding_quota) (simp_all add: demo_limiter_def)

section \<open>The in-memory fallback\<close>

text \<open>The fallback is a fixed-window counter, the third provider of \<open>window_limiter\<close>.\<close>

definition fb_start :: "string \<Rightarrow> RedisRateLimiter \<Rightarrow> time_ms option" where
  "fb_start key L = map_option fe_start (map_of (localFallback L) key)"

definition fb_count :: "string \<Rightarrow> RedisRateLimiter \<Rightarrow> int" where
  "fb_count key L = (case map_of (localFallback L) key of None \<Rightarrow> 0 | Some e \<Rightarrow> fe_count e)"

text \<open>The limiter object src/ratelimit.ts creates for all routes, with any history behind it.\<close>

definition general_limiter :: "(string \<times> fallback_entry) list \<Rightarrow> RedisRateLimiter" where
  "general_limiter m =
    \<lparr>maxRequests = RATE_LIMIT_MAX, windowMs = RATE_LIMIT_WINDOW_MS, localFallback = m\<rparr>"

definition fallback_general_hit ::
  "string \<Rightarrow> time_ms \<Rightarrow> (string \<times> fallback_entry) list \<Rightarrow> bool \<times> (string \<times> fallback_entry) list" where
  "fallback_general_hit key now m =
    (case fallback_hit key now (general_limiter m) of (ok, L) \<Rightarrow> (ok, localFallback L))"

interpretation fallback: window_limiter "fallback_general_hit key"
  "\<lambda>m. fb_start key (general_limiter m)" "\<lambda>m. fb_count key (general_limiter m)"
  RATE_LIMIT_WINDOW_MS RATE_LIMIT_MAX for key
  by unfold_locales
    (auto simp: fallback_general_hit_def fallback_hit_def general_limiter_def fb_start_def fb_count_def
      rate_constants Let_def split: option.splits)

lemma fallback_quota:
  "map_of m key = None \<Longrightarrow> \<forall>t \<in> set ts. t - t0 \<le> RATE_LIMIT_WINDOW_MS \<Longrightarrow>
    admitted (fst (run_hits (fallback_general_hit key) (t0 # ts) m)) = min (int (length (t0 # ts))) 100"
  using fallback.window_quota [of key m t0 ts]
  by (simp add: fb_start_def general_limiter_def RATE_LIMIT_MAX_def)

section \<open>The distributed breaker\<close>

text \<open>
  \<open>RedisCircuitState\<close>: three keys; the state key expires \<open>resetTimeout\<close> after an opening.
  \<open>fault i\<close> says that the \<open>i\<close>-th command of an operation fails: reads then give the initial
  state, and a write that fails ends the operation, with the writes before it done. Nothing
  else in the repository uses this class.
\<close>

datatype rc_state = RC_CLOSED | RC_OPEN | RC_HALF_OPEN

record RedisCircuit =
  rc_threshold :: int
  rc_resetTimeout :: time_ms
  rc_stateKey :: "(rc_state \<times> time_ms option) option"
  rc_failures :: int
  rc_lastFailure :: "time_ms option"

definition rc_read_state :: "time_ms \<Rightarrow> RedisCircuit \<Rightarrow> rc_state" where
  "rc_read_state now c =
    (case rc_stateKey c of
       None \<Rightarrow> RC_CLOSED
     | Some (s, None) \<Rightarrow> s
     | Some (s, Some e) \<Rightarrow> if now \<ge> e then RC_CLOSED else s)"

definition rc_getState :: "bool \<Rightarrow> time_ms \<Rightarrow> RedisCircuit \<Rightarrow> rc_state \<times> int \<times> time_ms option" where
  "rc_getState fails now c =
    (if fails then (RC_CLOSED, 0, None) else (rc_read_state now c, rc_failures c, rc_lastFailure c))"

definition rc_recordSuccess :: "bool \<Rightarrow> (nat \<Rightarrow> bool) \<Rightarrow> time_ms \<Rightarrow> RedisCircuit \<Rightarrow> RedisCircuit" where
  "rc_recordSuccess read_fails fault now c =
    (if fst (rc_getState read_fails now c) = RC_HALF_OPEN then
       (if fault 0 then c
        else let c = c\<lparr>rc_stateKey := Some (RC_CLOSED, None)\<rparr>
             in if fault 1 then c else c\<lparr>rc_failures := 0\<rparr>)
     else c)"

definition rc_recordFailure :: "bool \<Rightarrow> (nat \<Rightarrow> bool) \<Rightarrow> time_ms \<Rightarrow> RedisCircuit \<Rightarrow> RedisCircuit" where
  "rc_recordFailure read_fails fault now c =
    (case rc_getState read_fails now c of
       (st, n, _) \<Rightarrow>
         let failures = n + 1 in
         if fault 0 then c
         else let c = c\<lparr>rc_failures := failures\<rparr> in
         if fault 1 then c
         else let c = c\<lparr>rc_lastFailure := Some now\<rparr> in
         if st = RC_HALF_OPEN \<or> failures \<ge> rc_threshold c then
           (if fault 2 then c
            else if fault 3 then c\<lparr>rc_stateKey := Some (RC_OPEN, None)\<rparr>
            else c\<lparr>rc_stateKey := Some (RC_OPEN, Some (now + rc_resetTimeout c))\<rparr>)
         else c)"

text \<open>\<open>canExecute\<close>; \<open>None\<close> is the one command outside every \<open>try\<close> failing.\<close>

definition rc_canExecute :: "bool \<Rightarrow> bool \<Rightarrow> time_ms \<Rightarrow> RedisCircuit \<Rightarrow> bool option \<times> RedisCircuit" where
  "rc_canExecute read_fails write_fails now c =
    (case rc_getState read_fails now c of
       (RC_CLOSED, _, _) \<Rightarrow> (Some True, c)
     | (RC_OPEN, _, lastFailure) \<Rightarrow>
         (if (case lastFailure of None \<Rightarrow> False | Some t \<Rightarrow> t \<noteq> 0 \<and> now - t \<ge> rc_resetTimeout c)
          then (if write_fails then (None, c)
                else (Some True, c\<lparr>rc_stateKey := Some (RC_HALF_OPEN, None)\<rparr>))
          else (Some False, c))
     | (RC_HALF_OPEN, _, _) \<Rightarrow> (Some True, c))"

text \<open>A history over a working Redis: the operations at their times.\<close>

datatype rc_event = RC_Success time_ms | RC_Failure time_ms | RC_Ask time_ms

fun rc_run :: "rc_event list \<Rightarrow> RedisCircuit \<Rightarrow> RedisCircuit" where
  "rc_run [] c = c"
| "rc_run (RC_Success t # es) c = rc_run es (rc_recordSuccess False (\<lambda>_. False) t c)"
| "rc_run (RC_Failure t # es) c = rc_run es (rc_recordFailure False (\<lambda>_. False) t c)"
| "rc_run (RC_Ask t # es) c = rc_run es (snd (rc_canExecute False False t c))"

definition new_RedisCircuit :: "int \<Rightarrow> time_ms \<Rightarrow> RedisCircuit" where
  "new_RedisCircuit threshold reset =
    \<lparr>rc_threshold = threshold, rc_resetTimeout = reset, rc_stateKey = None, rc_failures = 0, rc_lastFailure = None\<rparr>"

text \<open>
  The state key is absent, or an opening whose expiry goes with the last failure, the
  threshold being reached.
\<close>

definition rc_ok :: "RedisCircuit \<Rightarrow> bool" where
  "rc_ok c \<longleftrightarrow> rc_stateKey c = None \<or>
    rc_threshold c \<le> rc_failures c \<and>
    (\<exists>t. rc_lastFailure c = Some t \<and> rc_stateKey c = Some (RC_OPEN, Some (t + rc_resetTimeout c)))"

fun failures_in :: "rc_event list \<Rightarrow> nat" where
  "failures_in [] = 0"
| "failures_in (RC_Failure t # es) = Suc (failures_in es)"
| "failures_in (e # es) = failures_in es"

lemma rc_run_facts:
  assumes "rc_ok c"
  shows "rc_ok (rc_run es c) \<and>
    rc_failures (rc_run es c) = rc_failures c + int (failures_in es) \<and>
    rc_threshold (rc_run es c) = rc_threshold c \<and> rc_resetTimeout (rc_run es c) = rc_resetTimeout c"
  using assms
proof (induction es arbitrary: c)
  case (Cons e es)
  note ok = Cons.prems
  show ?case
  proof (cases e)
    case (RC_Success t)
    have "rc_recordSuccess False (\<lambda>_. False) t c = c"
      using ok by (auto simp: rc_recordSuccess_def rc_getState_def rc_read_state_def rc_ok_def split: if_splits)
    then show ?thesis using Cons.IH [OF Cons.prems] by (simp add: RC_Success)
  next
    case (RC_Failure t)
    let ?c = "rc_recordFailure False (\<lambda>_. False) t c"
    have c: "rc_failures ?c = rc_failures c + 1" "rc_threshold ?c = rc_threshold c"
        "rc_resetTimeout ?c = rc_resetTimeout c"
      by (simp_all add: rc_recordFailure_def rc_getState_def Let_def)
    have "rc_ok ?c"
      using ok by (auto simp: rc_recordFailure_def rc_getState_def rc_read_state_def rc_ok_def Let_def split: if_splits)
    from Cons.IH [OF this] show ?thesis by (simp add: RC_Failure c)
  next
    case (RC_Ask t)
    have "snd (rc_canExecute False False t c) = c"
      using ok by (auto simp: rc_canExecute_def rc_getState_def rc_read_state_def rc_ok_def split: rc_state.splits)
    then show ?thesis using Cons.IH [OF Cons.prems] by (simp add: RC_Ask)
  qed
qed simp

text \<open>The distributed breaker never half-opens and never forgives: over any history on a working
  Redis, each operation taking no time, its state key is absent or an opening, because the key expires at the moment
  \<open>canExecute\<close> would move it on; failures are only ever added up, so that after the
  threshold has been reached once, every later failure opens it again, whatever succeeded in
  between.\<close>

theorem redis_breaker_never_half_opens:
  fixes es threshold reset
  defines "c \<equiv> rc_run es (new_RedisCircuit threshold reset)"
  shows "rc_read_state now c \<noteq> RC_HALF_OPEN \<and> rc_failures c = int (failures_in es) \<and>
    (threshold \<le> int (failures_in es) + 1 \<longrightarrow>
      rc_stateKey (rc_recordFailure False (\<lambda>_. False) now c) = Some (RC_OPEN, Some (now + reset)))"
proof -
  have "rc_ok (new_RedisCircuit threshold reset)" by (simp add: new_RedisCircuit_def rc_ok_def)
  with rc_run_facts [of "new_RedisCircuit threshold reset" es]
  have facts: "rc_ok c" "rc_failures c = int (failures_in es)" "rc_threshold c = threshold" "rc_resetTimeout c = reset"
    by (auto simp: c_def new_RedisCircuit_def rc_ok_def)
  then show ?thesis
    by (auto simp: rc_read_state_def rc_ok_def rc_recordFailure_def rc_getState_def Let_def split: if_splits)
qed

lemma redis_breaker_never_half_opens_witness:
  "rc_stateKey (rc_recordFailure False (\<lambda>_. False) 50 (rc_run [RC_Failure 1] (new_RedisCircuit 2 10)))
    = Some (RC_OPEN, Some 60)"
  using redis_breaker_never_half_opens [of 50 "[RC_Failure 1]" 2 10] by simp

section \<open>The connection\<close>

text \<open>
  The client of the module by its status, \<open>None\<close> before it exists; the statuses are those of
  the client library, which is told to connect lazily. The argument of \<open>connectRedis\<close> is
  whether \<open>connect\<close> resolves, and the status afterwards.
\<close>

type_synonym redis_client = "string option"

definition getRedis :: "redis_client \<Rightarrow> redis_client" where
  "getRedis c = (case c of None \<Rightarrow> Some ''wait'' | Some s \<Rightarrow> Some s)"

text \<open>The delay before the next attempt to reconnect; \<open>None\<close> gives up.\<close>

definition redis_retryStrategy :: "int \<Rightarrow> int option" where
  "redis_retryStrategy tries = (if tries > 3 then None else Some (min (tries * 200) 2000))"

definition connectRedis :: "bool \<Rightarrow> string \<Rightarrow> redis_client \<Rightarrow> bool \<times> redis_client" where
  "connectRedis resolves status c = (resolves, map_option (\<lambda>_. status) (getRedis c))"

definition redis_isConnected :: "redis_client \<Rightarrow> bool" where
  "redis_isConnected c = (c = Some ''ready'')"

section \<open>The DNS cache\<close>

text \<open>
  \<open>RedisDnsCache\<close> over the string keys of the server with their expiry. \<open>SETEX\<close> refuses an
  expiry that is not positive, which \<open>set\<close> swallows like every failure.
\<close>

type_synonym redis_strings = "(string \<times> string \<times> time_ms) list"

definition dns_get :: "bool \<Rightarrow> time_ms \<Rightarrow> string \<Rightarrow> redis_strings \<Rightarrow> string option" where
  "dns_get fails now host m =
    (if fails then None
     else (case map_of m (''dns:'' @ host) of
       None \<Rightarrow> None
     | Some (ip, e) \<Rightarrow> if now \<ge> e then None else Some ip))"

definition dns_set :: "bool \<Rightarrow> time_ms \<Rightarrow> string \<Rightarrow> string \<Rightarrow> int \<Rightarrow> redis_strings \<Rightarrow> redis_strings" where
  "dns_set fails now host ip ttlMs m =
    (let seconds = ttlMs div 1000
     in if fails \<or> seconds \<le> 0 then m else AList.update (''dns:'' @ host) (ip, now + seconds * 1000) m)"

definition dns_size :: "bool \<Rightarrow> time_ms \<Rightarrow> redis_strings \<Rightarrow> nat" where
  "dns_size fails now m =
    (if fails then 0 else length (filter (\<lambda>(k, _, e). js_startsWith k ''dns:'' \<and> now < e) m))"

text \<open>An address that is set is found for its whole seconds and not later; other hosts are not touched.\<close>

lemma dns_set_get:
  assumes "1000 \<le> ttlMs"
  shows "dns_get False t host (dns_set False now host ip ttlMs m) =
      (if t < now + ttlMs - ttlMs mod 1000 then Some ip else None)"
    and "h \<noteq> host \<Longrightarrow> dns_get False t h (dns_set False now host ip ttlMs m) = dns_get False t h m"
proof -
  have "0 < ttlMs div 1000" using assms by (simp add: pos_imp_zdiv_pos_iff)
  moreover have "ttlMs div 1000 * 1000 = ttlMs - ttlMs mod 1000" by (simp add: minus_mod_eq_div_mult)
  ultimately show "dns_get False t host (dns_set False now host ip ttlMs m) =
      (if t < now + ttlMs - ttlMs mod 1000 then Some ip else None)"
    "h \<noteq> host \<Longrightarrow> dns_get False t h (dns_set False now host ip ttlMs m) = dns_get False t h m"
    by (auto simp: dns_get_def dns_set_def Let_def)
qed

section \<open>Seen URLs\<close>

text \<open>
  \<open>RedisUrlDedup\<close> over the set \<open>urls:seen\<close>: \<open>pop\<close> is the server's random choice of the
  members it drops.
\<close>

definition dedup_isSeen :: "bool \<Rightarrow> string \<Rightarrow> string set \<Rightarrow> bool" where
  "dedup_isSeen fails u urls \<longleftrightarrow> \<not> fails \<and> u \<in> urls"

definition dedup_markSeen :: "bool \<Rightarrow> (string set \<Rightarrow> string set) \<Rightarrow> string \<Rightarrow> string set \<Rightarrow> string set" where
  "dedup_markSeen fails pop u urls =
    (if fails then urls
     else let urls = insert u urls in if card urls > 1000000 then urls - pop urls else urls)"

end
