(* ===== verification/Store.thy ===== *)
theory Store
  imports Prelude
begin

text \<open>
  The crawl database: the tables \<open>nodes\<close>, \<open>visited\<close> and \<open>frontier\<close> (and the full-text table
  \<open>nodes_fts\<close> of the SQLite schema), and the meaning of the SQL statements that src/db.ts
  prepares on them. A row list is kept in rowid order. What SQL leaves open (the order in
  which a statement without \<open>ORDER BY\<close> meets its rows, the random order of a shuffle) is an
  argument \<open>ord\<close> that permutes rows. The interface that the crawler calls is the locale
  \<open>crawl_store\<close>, after \<open>Statements\<close> and \<open>Transactions\<close> of src/types.ts.
\<close>

section \<open>Rows and tables\<close>

record PageData =
  d_url :: url
  d_title :: string
  d_desc :: string
  d_dom :: domain
  d_depth :: int
  d_parent :: "url option"
  d_pop :: int
  d_lang :: string
  d_https :: int
  d_meta :: string
  d_ogt :: string
  d_ogd :: string
  d_clen :: int
  d_ts :: time_ms
  d_origUrl :: url

record node_row =
  n_url :: url
  n_title :: string
  n_description :: string
  n_domain :: domain
  n_depth :: int
  n_parent :: "url option"
  n_popularity :: int
  n_lang :: string
  n_https :: int
  n_metaDescription :: string
  n_ogTitle :: string
  n_ogDescription :: string
  n_contentLength :: int
  n_crawled_at :: time_ms

record FrontierItem =
  f_url :: url
  f_depth :: int
  f_parent :: "url option"

record frontier_row = FrontierItem +
  f_id :: int

record fts_row =
  t_url :: url
  t_title :: string
  t_description :: string
  t_metaDescription :: string
  t_ogTitle :: string
  t_ogDescription :: string
  t_domain :: domain

text \<open>\<open>seq\<close> is the largest frontier id ever handed out (AUTOINCREMENT, SERIAL).\<close>

record store =
  nodes :: "node_row list"
  visited :: "url set"
  frontier :: "frontier_row list"
  seq :: int

record sqlite_store = store +
  nodes_fts :: "fts_row list"

definition empty_sqlite :: sqlite_store where
  "empty_sqlite = \<lparr>nodes = [], visited = {}, frontier = [], seq = 0, nodes_fts = []\<rparr>"

section \<open>Statements\<close>

text \<open>
  An insert into \<open>frontier\<close> draws the next id before the UNIQUE constraint is checked, so an
  ignored insert leaves a gap.
\<close>

definition insertFrontier :: "url \<Rightarrow> int \<Rightarrow> url option \<Rightarrow> 'a store_scheme \<Rightarrow> 'a store_scheme" where
  "insertFrontier u depth parent s =
    (if u \<in> f_url ` set (frontier s) then s\<lparr>seq := seq s + 1\<rparr>
     else s\<lparr>seq := seq s + 1,
            frontier := frontier s @ [\<lparr>f_url = u, f_depth = depth, f_parent = parent, f_id = seq s + 1\<rparr>]\<rparr>)"

definition deleteFromFrontier :: "url \<Rightarrow> 'a store_scheme \<Rightarrow> 'a store_scheme" where
  "deleteFromFrontier u s = s\<lparr>frontier := filter (\<lambda>r. f_url r \<noteq> u) (frontier s)\<rparr>"

definition markVisited :: "url \<Rightarrow> 'a store_scheme \<Rightarrow> 'a store_scheme" where
  "markVisited u s = s\<lparr>visited := insert u (visited s)\<rparr>"

definition isVisited :: "url \<Rightarrow> 'a store_scheme \<Rightarrow> bool" where
  "isVisited u s \<longleftrightarrow> u \<in> visited s"

definition getBatch :: "int \<Rightarrow> nat \<Rightarrow> 'a store_scheme \<Rightarrow> frontier_row list" where
  "getBatch cursor limit s = take limit (filter (\<lambda>r. f_id r > cursor) (frontier s))"

definition getMinId :: "'a store_scheme \<Rightarrow> int option" where
  "getMinId s = (case frontier s of [] \<Rightarrow> None | r # _ \<Rightarrow> Some (f_id r))"

definition nodeCount :: "'a store_scheme \<Rightarrow> int" where
  "nodeCount s = int (length (nodes s))"

definition frontierCount :: "'a store_scheme \<Rightarrow> int" where
  "frontierCount s = int (length (frontier s))"

definition node_of_page :: "PageData \<Rightarrow> node_row" where
  "node_of_page d =
    \<lparr> n_url = d_url d, n_title = d_title d, n_description = d_desc d, n_domain = d_dom d,
      n_depth = d_depth d, n_parent = d_parent d, n_popularity = d_pop d, n_lang = d_lang d,
      n_https = d_https d, n_metaDescription = d_meta d, n_ogTitle = d_ogt d,
      n_ogDescription = d_ogd d, n_contentLength = d_clen d, n_crawled_at = d_ts d \<rparr>"

text \<open>\<open>INSERT \<dots> ON CONFLICT(url) DO UPDATE SET\<close> every column: the row keeps its place.\<close>

definition insertNode :: "PageData \<Rightarrow> 'a store_scheme \<Rightarrow> 'a store_scheme" where
  "insertNode d s =
    (if d_url d \<in> n_url ` set (nodes s)
     then s\<lparr>nodes := map (\<lambda>n. if n_url n = d_url d then node_of_page d else n) (nodes s)\<rparr>
     else s\<lparr>nodes := nodes s @ [node_of_page d]\<rparr>)"

definition updatePop :: "int \<Rightarrow> url \<Rightarrow> 'a store_scheme \<Rightarrow> 'a store_scheme" where
  "updatePop p u s =
    s\<lparr>nodes := map (\<lambda>n. if n_url n = u then n\<lparr>n_popularity := p\<rparr> else n) (nodes s)\<rparr>"

definition insertFts :: "PageData \<Rightarrow> sqlite_store \<Rightarrow> sqlite_store" where
  "insertFts d s = s\<lparr>nodes_fts := nodes_fts s @
    [\<lparr> t_url = d_url d, t_title = d_title d, t_description = d_desc d, t_metaDescription = d_meta d,
       t_ogTitle = d_ogt d, t_ogDescription = d_ogd d, t_domain = d_dom d \<rparr>]\<rparr>"

definition rebuildFts :: "sqlite_store \<Rightarrow> sqlite_store" where
  "rebuildFts s = s\<lparr>nodes_fts := nodes_fts s @ map (\<lambda>n.
    \<lparr> t_url = n_url n, t_title = n_title n, t_description = n_description n,
      t_metaDescription = n_metaDescription n, t_ogTitle = n_ogTitle n,
      t_ogDescription = n_ogDescription n, t_domain = n_domain n \<rparr>) (nodes s)\<rparr>"

definition ftsCount :: "sqlite_store \<Rightarrow> int" where
  "ftsCount s = int (length (nodes_fts s))"

text \<open>Delete up to \<open>limit\<close> frontier rows whose URL is visited, met in the order \<open>ord\<close>.\<close>

definition delete_visited ::
  "(frontier_row list \<Rightarrow> frontier_row list) \<Rightarrow> nat \<Rightarrow> 'a store_scheme \<Rightarrow> int \<times> 'a store_scheme" where
  "delete_visited ord limit s =
    (let ids = map f_id (take limit (ord (filter (\<lambda>r. f_url r \<in> visited s) (frontier s))))
     in (int (length ids), s\<lparr>frontier := filter (\<lambda>r. f_id r \<notin> set ids) (frontier s)\<rparr>))"

definition clearProcessed ::
  "(frontier_row list \<Rightarrow> frontier_row list) \<Rightarrow> 'a store_scheme \<Rightarrow> 'a store_scheme" where
  "clearProcessed ord s = snd (delete_visited ord 10000 s)"

definition domainCountStmt :: "'a store_scheme \<Rightarrow> (domain \<times> int) list" where
  "domainCountStmt s =
    map (\<lambda>d. (d, int (length (filter (\<lambda>n. n_domain n = d) (nodes s))))) (remdups (map n_domain (nodes s)))"

definition domainPopStmt ::
  "((domain \<times> int) list \<Rightarrow> (domain \<times> int) list) \<Rightarrow> 'a store_scheme \<Rightarrow> (domain \<times> int) list" where
  "domainPopStmt ord s = take 20 (sort_key (\<lambda>r. - snd r) (ord (domainCountStmt s)))"

definition treeLight :: "nat \<Rightarrow> 'a store_scheme \<Rightarrow> node_row list" where
  "treeLight limit s = take limit (rev (nodes s))"

definition recrawlTargets :: "(url list \<Rightarrow> url list) \<Rightarrow> nat \<Rightarrow> 'a store_scheme \<Rightarrow> url list" where
  "recrawlTargets ord limit s = take limit (ord (map n_url (nodes s)))"

section \<open>Transactions\<close>

text \<open>
  A transaction runs its statements in order on a working copy. \<open>fault i\<close> says that the
  \<open>i\<close>-th statement throws: the engine rolls back and the error reaches the caller.
\<close>

datatype db_error = DbError

fun run_txn :: "(nat \<Rightarrow> bool) \<Rightarrow> nat \<Rightarrow> ('s \<Rightarrow> 's) list \<Rightarrow> 's \<Rightarrow> db_error + 's" where
  "run_txn fault i [] s = Inr s"
| "run_txn fault i (st # sts) s = (if fault i then Inl DbError else run_txn fault (Suc i) sts (st s))"

text \<open>The statements of \<open>saveNode\<close> on the tables both backends have.\<close>

definition save_statements :: "PageData \<Rightarrow> ('a store_scheme \<Rightarrow> 'a store_scheme) list" where
  "save_statements d =
    [insertNode d, markVisited (d_url d), deleteFromFrontier (d_url d)] @
    (if d_origUrl d \<noteq> d_url d then [markVisited (d_origUrl d), deleteFromFrontier (d_origUrl d)] else [])"

text \<open>The full-text insert sits in a \<open>try\<close> of its own: its failure (\<open>fts_ok\<close> false) is only logged.\<close>

definition saveNode :: "(nat \<Rightarrow> bool) \<Rightarrow> bool \<Rightarrow> PageData \<Rightarrow> sqlite_store \<Rightarrow> db_error + sqlite_store" where
  "saveNode fault fts_ok d s =
    run_txn fault 0 (save_statements d @ (if fts_ok then [insertFts d] else [])) s"

definition insertManyFrontier ::
  "(nat \<Rightarrow> bool) \<Rightarrow> FrontierItem list \<Rightarrow> 'a store_scheme \<Rightarrow> db_error + 'a store_scheme" where
  "insertManyFrontier fault items s =
    run_txn fault 0 (map (\<lambda>i. insertFrontier (f_url i) (f_depth i) (f_parent i)) items) s"

text \<open>The caller's view: an error leaves the committed database as it was.\<close>

definition committed :: "'s \<Rightarrow> db_error + 's \<Rightarrow> 's" where
  "committed s r = (case r of Inl _ \<Rightarrow> s | Inr s' \<Rightarrow> s')"

lemmas statement_defs =
  insertFrontier_def deleteFromFrontier_def markVisited_def isVisited_def insertNode_def
  insertFts_def delete_visited_def Let_def

section \<open>Table invariants\<close>

definition frontier_ok :: "'a store_scheme \<Rightarrow> bool" where
  "frontier_ok s \<longleftrightarrow> distinct (map f_url (frontier s)) \<and> sorted_wrt (<) (map f_id (frontier s)) \<and>
     (\<forall>r \<in> set (frontier s). 0 < f_id r \<and> f_id r \<le> seq s) \<and> 0 \<le> seq s"

definition nodes_ok :: "'a store_scheme \<Rightarrow> bool" where
  "nodes_ok s \<longleftrightarrow> distinct (map n_url (nodes s)) \<and> n_url ` set (nodes s) \<subseteq> visited s"

definition store_ok :: "'a store_scheme \<Rightarrow> bool" where
  "store_ok s \<longleftrightarrow> frontier_ok s \<and> nodes_ok s"

lemma store_ok_empty [preserves]: "store_ok empty_sqlite"
  by (simp add: store_ok_def frontier_ok_def nodes_ok_def empty_sqlite_def)

lemma store_ok_insertFrontier [preserves]: "store_ok s \<Longrightarrow> store_ok (insertFrontier u d p s)"
  by (force simp: store_ok_def frontier_ok_def nodes_ok_def insertFrontier_def sorted_wrt_append)

lemma frontier_ok_filter: "frontier_ok s \<Longrightarrow> frontier_ok (s\<lparr>frontier := filter P (frontier s)\<rparr>)"
  by (auto simp: frontier_ok_def distinct_map_filter sorted_wrt_map intro: sorted_wrt_filter)

lemma store_ok_filter: "store_ok s \<Longrightarrow> store_ok (s\<lparr>frontier := filter P (frontier s)\<rparr>)"
  by (simp add: store_ok_def frontier_ok_filter nodes_ok_def)

lemma store_ok_deleteFromFrontier [preserves]: "store_ok s \<Longrightarrow> store_ok (deleteFromFrontier u s)"
  by (simp add: deleteFromFrontier_def store_ok_filter)

lemma store_ok_delete_visited [preserves]: "store_ok s \<Longrightarrow> store_ok (snd (delete_visited ord n s))"
  by (simp add: delete_visited_def Let_def store_ok_filter)

lemma store_ok_clearProcessed [preserves]: "store_ok s \<Longrightarrow> store_ok (clearProcessed ord s)"
  by (simp add: clearProcessed_def preserves)

lemma store_ok_markVisited [preserves]: "store_ok s \<Longrightarrow> store_ok (markVisited u s)"
  by (auto simp: store_ok_def frontier_ok_def nodes_ok_def markVisited_def)

lemma store_ok_insertFts [preserves]: "store_ok s \<Longrightarrow> store_ok (insertFts d s)"
  by (simp add: store_ok_def frontier_ok_def nodes_ok_def insertFts_def)

lemma n_url_of_page [simp]: "n_url (node_of_page d) = d_url d"
  by (simp add: node_of_page_def)

lemma urls_insertNode:
  "map n_url (nodes (insertNode d s)) =
    (if d_url d \<in> n_url ` set (nodes s) then map n_url (nodes s) else map n_url (nodes s) @ [d_url d])"
  by (simp add: insertNode_def)

lemma insertNode_frame [simp]:
  "visited (insertNode d s) = visited s" "frontier (insertNode d s) = frontier s"
  "seq (insertNode d s) = seq s"
  by (simp_all add: insertNode_def)

lemma node_urls_insertNode:
  "n_url ` set (nodes (insertNode d s)) = insert (d_url d) (n_url ` set (nodes s))"
  using arg_cong [OF urls_insertNode [of d s], of set] by (auto split: if_splits)

text \<open>\<open>insertNode\<close> alone breaks \<open>nodes \<subseteq> visited\<close>; the next statement of the transaction mends it.\<close>

lemma store_ok_insertNode_mark [preserves]:
  assumes "store_ok s" shows "store_ok (markVisited (d_url d) (insertNode d s))"
proof -
  have "distinct (map n_url (nodes (insertNode d s)))"
    using assms by (auto simp: store_ok_def nodes_ok_def urls_insertNode)
  then show ?thesis
    using assms by (auto simp: store_ok_def frontier_ok_def nodes_ok_def markVisited_def node_urls_insertNode)
qed

lemma run_txn_append:
  "run_txn fault i (xs @ ys) s =
    (case run_txn fault i xs s of Inl e \<Rightarrow> Inl e | Inr s' \<Rightarrow> run_txn fault (i + length xs) ys s')"
  by (induction xs arbitrary: i s) (auto split: sum.splits)

text \<open>Without a fault a transaction is the composition of its statements.\<close>

lemma run_txn_Inr: "run_txn fault i sts s = Inr s' \<Longrightarrow> s' = fold (\<lambda>f. f) sts s"
  by (induction sts arbitrary: i s) (auto split: if_splits)

lemma store_ok_saveNode:
  assumes "store_ok s" and "saveNode fault fts_ok d s = Inr s'" shows "store_ok s'"
proof -
  have "store_ok (fold (\<lambda>f. f) (save_statements d @ (if fts_ok then [insertFts d] else [])) s)"
    using assms(1) by (simp add: save_statements_def preserves)
  then show ?thesis using run_txn_Inr assms(2) unfolding saveNode_def by metis
qed

lemma store_ok_fold_insertFrontier:
  "store_ok s \<Longrightarrow> store_ok (fold (\<lambda>i. insertFrontier (f_url i) (f_depth i) (f_parent i)) items s)"
  by (induction items arbitrary: s) (simp_all add: preserves)

lemma store_ok_insertMany:
  assumes "store_ok s" and "insertManyFrontier fault items s = Inr s'" shows "store_ok s'"
  using run_txn_Inr [OF assms(2) [unfolded insertManyFrontier_def]]
    store_ok_fold_insertFrontier [OF assms(1), of items]
  by (simp add: fold_map comp_def)

section \<open>The statement interface\<close>

text \<open>
  What src/queue.ts is handed: \<open>Statements\<close> and \<open>Transactions\<close>, over an abstract database.
  \<open>totalNodes\<close> is optional in the interface.
\<close>

record 's Statements =
  run_insertNode :: "PageData \<Rightarrow> 's \<Rightarrow> 's"
  run_insertFrontier :: "url \<Rightarrow> int \<Rightarrow> url option \<Rightarrow> 's \<Rightarrow> 's"
  run_deleteFromFrontier :: "url \<Rightarrow> 's \<Rightarrow> 's"
  run_markVisited :: "url \<Rightarrow> 's \<Rightarrow> 's"
  get_isVisited :: "url \<Rightarrow> 's \<Rightarrow> bool"
  all_getBatch :: "int \<Rightarrow> nat \<Rightarrow> 's \<Rightarrow> frontier_row list"
  get_getMinId :: "'s \<Rightarrow> int option"
  run_clearProcessed :: "(frontier_row list \<Rightarrow> frontier_row list) \<Rightarrow> 's \<Rightarrow> 's"
  get_nodeCount :: "'s \<Rightarrow> int"
  get_frontierCount :: "'s \<Rightarrow> int"
  all_domainCount :: "'s \<Rightarrow> (domain \<times> int) list"
  all_domainPop :: "((domain \<times> int) list \<Rightarrow> (domain \<times> int) list) \<Rightarrow> 's \<Rightarrow> (domain \<times> int) list"
  get_ftsCount :: "'s \<Rightarrow> int"
  run_rebuildFts :: "'s \<Rightarrow> 's"
  all_treeLight :: "nat \<Rightarrow> 's \<Rightarrow> node_row list"
  all_recrawlTargets :: "(url list \<Rightarrow> url list) \<Rightarrow> nat \<Rightarrow> 's \<Rightarrow> url list"
  get_totalNodes :: "('s \<Rightarrow> int) option"
  txn_saveNode :: "(nat \<Rightarrow> bool) \<Rightarrow> bool \<Rightarrow> PageData \<Rightarrow> 's \<Rightarrow> db_error + 's"
  txn_insertManyFrontier :: "(nat \<Rightarrow> bool) \<Rightarrow> FrontierItem list \<Rightarrow> 's \<Rightarrow> db_error + 's"

definition as_row :: "url \<Rightarrow> int \<Rightarrow> url option \<Rightarrow> int \<Rightarrow> frontier_row" where
  "as_row u d p i = \<lparr>f_url = u, f_depth = d, f_parent = p, f_id = i\<rparr>"

text \<open>A whole sweep of the frontier: batch after batch, the cursor at the last id of each.\<close>

fun paging :: "'s Statements \<Rightarrow> nat \<Rightarrow> nat \<Rightarrow> int \<Rightarrow> 's \<Rightarrow> frontier_row list" where
  "paging st n 0 c s = []"
| "paging st n (Suc fuel) c s =
    (let b = all_getBatch st c n s
     in if b = [] then [] else b @ paging st n fuel (f_id (last b)) s)"

text \<open>
  The laws the crawler relies on, over the pending rows \<open>pend\<close> and the visited set \<open>vis\<close>
  of a database that satisfies its invariant \<open>ok\<close>.
\<close>

locale crawl_store =
  fixes st :: "'s Statements"
    and pend :: "'s \<Rightarrow> frontier_row list" and vis :: "'s \<Rightarrow> url set" and ok :: "'s \<Rightarrow> bool"
  assumes ok_ids: "ok s \<Longrightarrow> sorted_wrt (<) (map f_id (pend s)) \<and> distinct (map f_url (pend s)) \<and>
      (\<forall>r \<in> set (pend s). 0 < f_id r)"
    and ok_insert: "ok s \<Longrightarrow> ok (run_insertFrontier st u d p s)"
    and ok_delete: "ok s \<Longrightarrow> ok (run_deleteFromFrontier st u s)"
    and ok_mark: "ok s \<Longrightarrow> ok (run_markVisited st u s)"
    and ok_save: "ok s \<Longrightarrow> txn_saveNode st f b page s = Inr s' \<Longrightarrow> ok s'"
    and insert_old: "u \<in> f_url ` set (pend s) \<Longrightarrow> pend (run_insertFrontier st u d p s) = pend s"
    and insert_new: "u \<notin> f_url ` set (pend s) \<Longrightarrow>
      \<exists>i. pend (run_insertFrontier st u d p s) = pend s @ [as_row u d p i]"
    and insert_vis: "vis (run_insertFrontier st u d p s) = vis s"
    and delete_pend: "pend (run_deleteFromFrontier st u s) = filter (\<lambda>r. f_url r \<noteq> u) (pend s)"
    and delete_vis: "vis (run_deleteFromFrontier st u s) = vis s"
    and mark_pend: "pend (run_markVisited st u s) = pend s"
    and mark_vis: "vis (run_markVisited st u s) = insert u (vis s)"
    and visited_iff: "get_isVisited st u s \<longleftrightarrow> u \<in> vis s"
    and batch_eq: "all_getBatch st c n s = take n (filter (\<lambda>r. f_id r > c) (pend s))"
    and save_pend: "txn_saveNode st f b page s = Inr s' \<Longrightarrow>
      pend s' = filter (\<lambda>r. f_url r \<noteq> d_url page \<and> f_url r \<noteq> d_origUrl page) (pend s)"
    and save_vis: "txn_saveNode st f b page s = Inr s' \<Longrightarrow>
      vis s' = {d_url page, d_origUrl page} \<union> vis s"
    and ok_clear: "ok s \<Longrightarrow> ok (run_clearProcessed st ord s)"
    and clear_pend: "set (pend (run_clearProcessed st ord s)) \<subseteq> set (pend s)"
    and many_fold: "txn_insertManyFrontier st f items s = Inr s' \<Longrightarrow>
      s' = fold (\<lambda>i. run_insertFrontier st (f_url i) (f_depth i) (f_parent i)) items s"
begin

lemma insert_cases:
  obtains "u \<in> f_url ` set (pend s)" "pend (run_insertFrontier st u d p s) = pend s"
  | i where "u \<notin> f_url ` set (pend s)" "pend (run_insertFrontier st u d p s) = pend s @ [as_row u d p i]"
  using insert_old insert_new by metis

lemma insert_urls: "f_url ` set (pend (run_insertFrontier st u d p s)) = insert u (f_url ` set (pend s))"
  by (cases rule: insert_cases [of u s d p]) (auto simp: as_row_def)

lemma many_ok: "ok s \<Longrightarrow> txn_insertManyFrontier st f items s = Inr s' \<Longrightarrow> ok s'"
proof (drule many_fold, hypsubst)
  show "ok s \<Longrightarrow> ok (fold (\<lambda>i. run_insertFrontier st (f_url i) (f_depth i) (f_parent i)) items s)"
    by (induction items arbitrary: s) (simp_all add: ok_insert)
qed

lemma many_urls:
  assumes "txn_insertManyFrontier st f items s = Inr s'"
  shows "f_url ` set (pend s') = f_url ` set (pend s) \<union> f_url ` set items"
  unfolding many_fold [OF assms]
  by (induction items arbitrary: s) (auto simp: insert_urls)

lemma many_vis: "txn_insertManyFrontier st f items s = Inr s' \<Longrightarrow> vis s' = vis s"
proof (drule many_fold, hypsubst)
  show "vis (fold (\<lambda>i. run_insertFrontier st (f_url i) (f_depth i) (f_parent i)) items s) = vis s"
    by (induction items arbitrary: s) (simp_all add: insert_vis)
qed

text \<open>Crawling one page: save it, then enqueue its links.\<close>

lemma crawl_page:
  assumes "txn_saveNode st f b page s = Inr s1" and "txn_insertManyFrontier st g links s1 = Inr s2"
  shows "get_isVisited st (d_url page) s2 \<and> get_isVisited st (d_origUrl page) s2 \<and>
    f_url ` set (pend s2) =
      (f_url ` set (pend s) - {d_url page, d_origUrl page}) \<union> f_url ` set links"
proof -
  have "f_url ` set (pend s1) = f_url ` set (pend s) - {d_url page, d_origUrl page}"
    using save_pend [OF assms(1)] by auto
  then show ?thesis
    using many_urls [OF assms(2)] many_vis [OF assms(2)] save_vis [OF assms(1)]
    by (simp add: visited_iff)
qed

lemma batch_bounds:
  assumes "ok s"
  shows "length (all_getBatch st c n s) \<le> n \<and> sorted_wrt (<) (map f_id (all_getBatch st c n s)) \<and>
    (\<forall>r \<in> set (all_getBatch st c n s). r \<in> set (pend s) \<and> c < f_id r)"
proof -
  have "sorted_wrt (<) (map f_id (filter (\<lambda>r. f_id r > c) (pend s)))"
    using ok_ids [OF assms] by (simp add: sorted_wrt_map sorted_wrt_filter)
  then have "sorted_wrt (<) (map f_id (all_getBatch st c n s))"
    by (metis batch_eq sorted_wrt_take take_map)
  then show ?thesis by (auto simp: batch_eq dest: in_set_takeD)
qed

text \<open>
  Paging with a cursor, as the crawl loop does: each batch starts after the last id of the
  one before. It meets every pending row exactly once, in id order.
\<close>

lemma filter_after_take:
  assumes "sorted_wrt (<) (map f_id rows)" and "take n (filter (\<lambda>r. f_id r > c) rows) \<noteq> []"
  shows "filter (\<lambda>r. f_id r > f_id (last (take n (filter (\<lambda>r. f_id r > c) rows)))) rows =
    drop n (filter (\<lambda>r. f_id r > c) rows)"
proof -
  let ?rest = "filter (\<lambda>r. f_id r > c) rows" and ?m = "last (take n (filter (\<lambda>r. f_id r > c) rows))"
  have rest: "sorted_wrt (\<lambda>x y. f_id x < f_id y) ?rest"
    using assms(1) by (simp add: sorted_wrt_map sorted_wrt_filter)
  have mem: "?m \<in> set (take n ?rest)" using assms(2) by (rule last_in_set)
  then have "c < f_id ?m" by (auto dest: in_set_takeD)
  then have "filter (\<lambda>r. f_id r > f_id ?m) rows = filter (\<lambda>r. f_id r > f_id ?m) ?rest"
    unfolding filter_filter by (intro filter_cong) auto
  also have "\<dots> = filter (\<lambda>r. f_id r > f_id ?m) (take n ?rest) @ filter (\<lambda>r. f_id r > f_id ?m) (drop n ?rest)"
    by (metis append_take_drop_id filter_append)
  also have "filter (\<lambda>r. f_id r > f_id ?m) (take n ?rest) = []"
  proof -
    have s: "sorted_wrt (\<lambda>x y. f_id x < f_id y) (take n ?rest)" using rest by (rule sorted_wrt_take)
    have "f_id r \<le> f_id (last xs)" if "sorted_wrt (\<lambda>x y. f_id x < f_id y) xs" "r \<in> set xs" for r xs
      using that by (induction xs) (auto simp: less_imp_le)
    from this [OF s] show ?thesis by (force simp: filter_empty_conv)
  qed
  also have "filter (\<lambda>r. f_id r > f_id ?m) (drop n ?rest) = drop n ?rest"
  proof -
    have "sorted_wrt (\<lambda>x y. f_id x < f_id y) (take n ?rest @ drop n ?rest)"
      using rest by simp
    with mem show ?thesis unfolding sorted_wrt_append by (intro filter_True) blast
  qed
  finally show ?thesis by simp
qed

lemma paging_complete:
  assumes "ok s" and "0 < n" and "length (filter (\<lambda>r. f_id r > c) (pend s)) < fuel"
  shows "paging st n fuel c s = filter (\<lambda>r. f_id r > c) (pend s)"
  using assms(3)
proof (induction fuel arbitrary: c)
  case (Suc fuel)
  let ?rest = "filter (\<lambda>r. f_id r > c) (pend s)" and ?b = "all_getBatch st c n s"
  have b: "?b = take n ?rest" by (rule batch_eq)
  show ?case
  proof (cases "?b = []")
    case True
    with b assms(2) have "?rest = []" by (metis take_eq_Nil not_gr_zero)
    with True show ?thesis by simp
  next
    case False
    have rest': "filter (\<lambda>r. f_id r > f_id (last ?b)) (pend s) = drop n ?rest"
      using filter_after_take [of "pend s" n c] ok_ids [OF assms(1)] False b by simp
    have "length (drop n ?rest) < fuel" using Suc.prems False b assms(2) by (cases ?rest) auto
    then have "paging st n fuel (f_id (last ?b)) s = drop n ?rest"
      using Suc.IH [of "f_id (last ?b)"] rest' by simp
    then show ?thesis using False b by (simp add: Let_def)
  qed
qed simp

end

end
