(* ===== verification/StoreBackends.thy ===== *)
theory StoreBackends
  imports Store
begin

text \<open>
  The two providers of the statement interface: src/db.ts (SQLite, with a full-text table)
  and src/db-pg.ts (PostgreSQL, whose full-text index is automatic). Both are handed to the
  crawler by \<open>createBackend\<close> of src/db-adapter.ts.
\<close>

section \<open>SQLite\<close>

definition sqlite_statements :: "sqlite_store Statements" where
  "sqlite_statements =
    \<lparr> run_insertNode = insertNode,
      run_insertFrontier = insertFrontier,
      run_deleteFromFrontier = deleteFromFrontier,
      run_markVisited = markVisited,
      get_isVisited = isVisited,
      all_getBatch = getBatch,
      get_getMinId = getMinId,
      run_clearProcessed = clearProcessed,
      get_nodeCount = nodeCount,
      get_frontierCount = frontierCount,
      all_domainCount = domainCountStmt,
      all_domainPop = domainPopStmt,
      get_ftsCount = ftsCount,
      run_rebuildFts = rebuildFts,
      all_treeLight = treeLight,
      all_recrawlTargets = recrawlTargets,
      get_totalNodes = Some nodeCount,
      txn_saveNode = saveNode,
      txn_insertManyFrontier = insertManyFrontier \<rparr>"

section \<open>PostgreSQL\<close>

text \<open>
  \<open>insertNode.run\<close> of the PostgreSQL statements: on a conflict it updates title,
  description, popularity and crawl time only.
\<close>

definition pg_insertNode :: "PageData \<Rightarrow> store \<Rightarrow> store" where
  "pg_insertNode d s =
    (if d_url d \<in> n_url ` set (nodes s)
     then s\<lparr>nodes := map (\<lambda>n. if n_url n = d_url d
              then n\<lparr>n_title := d_title d, n_description := d_desc d, n_popularity := d_pop d,
                     n_crawled_at := d_ts d\<rparr>
              else n) (nodes s)\<rparr>
     else s\<lparr>nodes := nodes s @ [node_of_page d]\<rparr>)"

text \<open>\<open>treeLight\<close> orders by crawl time here, not by row; equal times in the order \<open>ord\<close> leaves.\<close>

definition pg_treeLight :: "(node_row list \<Rightarrow> node_row list) \<Rightarrow> nat \<Rightarrow> store \<Rightarrow> node_row list" where
  "pg_treeLight ord limit s = take limit (sort_key (\<lambda>n. - n_crawled_at n) (ord (nodes s)))"

text \<open>
  The transactions of src/db-pg.ts: \<open>BEGIN\<close>, the statements, \<open>COMMIT\<close>; any of them may
  throw, and the handler then sends \<open>ROLLBACK\<close> and rethrows. There is no full-text insert.
\<close>

definition pg_saveNode :: "(nat \<Rightarrow> bool) \<Rightarrow> bool \<Rightarrow> PageData \<Rightarrow> store \<Rightarrow> db_error + store" where
  "pg_saveNode fault fts_ok d s = run_txn fault 0 ([id] @ save_statements d @ [id]) s"

definition pg_insertManyFrontier ::
  "(nat \<Rightarrow> bool) \<Rightarrow> FrontierItem list \<Rightarrow> store \<Rightarrow> db_error + store" where
  "pg_insertManyFrontier fault items s =
    run_txn fault 0 ([id] @ map (\<lambda>i. insertFrontier (f_url i) (f_depth i) (f_parent i)) items @ [id]) s"

definition pg_statements :: "store Statements" where
  "pg_statements =
    \<lparr> run_insertNode = pg_insertNode,
      run_insertFrontier = insertFrontier,
      run_deleteFromFrontier = deleteFromFrontier,
      run_markVisited = markVisited,
      get_isVisited = isVisited,
      all_getBatch = getBatch,
      get_getMinId = getMinId,
      run_clearProcessed = clearProcessed,
      get_nodeCount = nodeCount,
      get_frontierCount = frontierCount,
      all_domainCount = domainCountStmt,
      all_domainPop = domainPopStmt,
      get_ftsCount = nodeCount,
      run_rebuildFts = id,
      all_treeLight = pg_treeLight id,
      all_recrawlTargets = recrawlTargets,
      get_totalNodes = None,
      txn_saveNode = pg_saveNode,
      txn_insertManyFrontier = pg_insertManyFrontier \<rparr>"

section \<open>Both satisfy the interface\<close>

lemma save_statements_pend:
  "frontier (fold (\<lambda>f. f) (save_statements d) s) =
    filter (\<lambda>r. f_url r \<noteq> d_url d \<and> f_url r \<noteq> d_origUrl d) (frontier s)"
  by (auto simp: save_statements_def deleteFromFrontier_def markVisited_def conj_commute
      intro: filter_cong)

lemma save_statements_vis:
  "visited (fold (\<lambda>f. f) (save_statements d) s) = {d_url d, d_origUrl d} \<union> visited s"
  by (auto simp: save_statements_def deleteFromFrontier_def markVisited_def)

lemma store_ok_save_statements: "store_ok s \<Longrightarrow> store_ok (fold (\<lambda>f. f) (save_statements d) s)"
  by (simp add: save_statements_def preserves)

lemma insertFts_frame [simp]:
  "frontier (insertFts d s) = frontier s" "visited (insertFts d s) = visited s"
  by (simp_all add: insertFts_def)

lemma saveNode_fold:
  "saveNode f b d s = Inr s' \<Longrightarrow>
    s' = (if b then insertFts d else id) (fold (\<lambda>f. f) (save_statements d) s)"
  by (drule run_txn_Inr [OF trans [OF saveNode_def [symmetric]]]) simp

lemma pg_saveNode_fold: "pg_saveNode f b d s = Inr s' \<Longrightarrow> s' = fold (\<lambda>f. f) (save_statements d) s"
  by (drule run_txn_Inr [OF trans [OF pg_saveNode_def [symmetric]]]) simp

lemma insertMany_fold:
  "insertManyFrontier f items s = Inr s' \<Longrightarrow>
    s' = fold (\<lambda>i. insertFrontier (f_url i) (f_depth i) (f_parent i)) items s"
  by (drule run_txn_Inr [OF trans [OF insertManyFrontier_def [symmetric]]]) (simp add: fold_map comp_def)

lemma pg_insertMany_fold:
  "pg_insertManyFrontier f items s = Inr s' \<Longrightarrow>
    s' = fold (\<lambda>i. insertFrontier (f_url i) (f_depth i) (f_parent i)) items s"
  by (drule run_txn_Inr [OF trans [OF pg_insertManyFrontier_def [symmetric]]]) (simp add: fold_map comp_def)

lemma insertFrontier_cases:
  "u \<in> f_url ` set (frontier s) \<Longrightarrow> frontier (insertFrontier u d p s) = frontier s"
  "u \<notin> f_url ` set (frontier s) \<Longrightarrow>
    frontier (insertFrontier u d p s) = frontier s @ [as_row u d p (seq s + 1)]"
  "visited (insertFrontier u d p s) = visited s"
  by (simp_all add: insertFrontier_def as_row_def)

lemma store_ok_ids:
  "store_ok s \<Longrightarrow> sorted_wrt (<) (map f_id (frontier s)) \<and> distinct (map f_url (frontier s)) \<and>
    (\<forall>r \<in> set (frontier s). 0 < f_id r)"
  by (simp add: store_ok_def frontier_ok_def)

lemma delete_mark_frame:
  "frontier (deleteFromFrontier u s) = filter (\<lambda>r. f_url r \<noteq> u) (frontier s)"
  "visited (deleteFromFrontier u s) = visited s"
  "frontier (markVisited u s) = frontier s"
  "visited (markVisited u s) = insert u (visited s)"
  by (simp_all add: deleteFromFrontier_def markVisited_def)

lemma insertFrontier_new:
  "u \<notin> f_url ` set (frontier s) \<Longrightarrow>
    \<exists>i. frontier (insertFrontier u d p s) = frontier s @ [as_row u d p i]"
  using insertFrontier_cases(2) by blast

lemma clearProcessed_frontier: "set (frontier (clearProcessed ord s)) \<subseteq> set (frontier s)"
  by (auto simp: clearProcessed_def delete_visited_def Let_def)

lemmas provider_facts =
  clearProcessed_frontier store_ok_clearProcessed
  insertFrontier_cases delete_mark_frame isVisited_def getBatch_def
  save_statements_pend save_statements_vis store_ok_save_statements store_ok_insertFts
  store_ok_insertFrontier store_ok_deleteFromFrontier store_ok_markVisited

interpretation sqlite: crawl_store sqlite_statements frontier visited store_ok
  by (unfold_locales, unfold sqlite_statements_def Statements.simps)
    (erule store_ok_ids insertFrontier_new | (drule saveNode_fold insertMany_fold; simp add: provider_facts)
      | simp add: provider_facts)+

interpretation pg: crawl_store pg_statements frontier visited store_ok
  by (unfold_locales, unfold pg_statements_def Statements.simps)
    (erule store_ok_ids insertFrontier_new | (drule pg_saveNode_fold pg_insertMany_fold; simp add: provider_facts)
      | simp add: provider_facts)+

section \<open>Every history of statements\<close>

text \<open>The statements and committed transactions of the crawler, in any order.\<close>

inductive db_step :: "sqlite_store \<Rightarrow> sqlite_store \<Rightarrow> bool" where
  db_insertFrontier: "db_step s (insertFrontier u d p s)"
| db_delete: "db_step s (deleteFromFrontier u s)"
| db_mark: "db_step s (markVisited u s)"
| db_clear: "db_step s (clearProcessed ord s)"
| db_save: "db_step s (committed s (saveNode fault fts_ok page s))"
| db_insertMany: "db_step s (committed s (insertManyFrontier fault items s))"
| db_rebuild: "db_step s (rebuildFts s)"

lemma store_ok_rebuildFts [preserves]: "store_ok s \<Longrightarrow> store_ok (rebuildFts s)"
  by (simp add: store_ok_def frontier_ok_def nodes_ok_def rebuildFts_def)

interpretation tables: invariant_system db_step "\<lambda>s. s = empty_sqlite" store_ok
proof unfold_locales
  show "store_ok t" if "store_ok s" "db_step s t" for s t
    using that(2,1)
    by cases (auto simp: preserves committed_def split: sum.splits
        intro: store_ok_saveNode store_ok_insertMany)
qed (simp add: preserves)

text \<open>C20. Table integrity: after any sequence of the crawler's statements and transactions on a
  new SQLite database, frontier URLs are unique, frontier ids are positive and strictly
  increasing in row order and never above the sequence, page rows have unique URLs, and every
  saved page is marked visited.\<close>

theorem tables_stay_ok: "reaches db_step (\<lambda>s. s = empty_sqlite) s \<Longrightarrow> store_ok s"
  by (rule tables.reaches_inv)

lemma tables_stay_ok_witness:
  "store_ok (insertFrontier ''http://a/'' 0 None (insertFrontier ''http://a/'' 1 None empty_sqlite))"
proof (rule tables_stay_ok)
  have "reaches db_step (\<lambda>s. s = empty_sqlite) (insertFrontier ''http://a/'' 1 None empty_sqlite)"
    by (rule reaches_step [where s = empty_sqlite]) (simp_all add: reaches_init db_insertFrontier)
  then show "reaches db_step (\<lambda>s. s = empty_sqlite)
      (insertFrontier ''http://a/'' 0 None (insertFrontier ''http://a/'' 1 None empty_sqlite))"
    by (rule reaches_step) (rule db_insertFrontier)
qed

section \<open>What the crawler gets\<close>

text \<open>C22. Crawling a page on SQLite: when its save and the insertion of its links both commit,
  the page and the URL it was requested under are visited, neither is pending any more unless
  the page links to it, and the pending URLs are otherwise the old ones and the links.\<close>

theorem sqlite_crawl_page:
  assumes "saveNode f b page s = Inr s1" and "insertManyFrontier g links s1 = Inr s2"
  shows "isVisited (d_url page) s2 \<and> isVisited (d_origUrl page) s2 \<and>
    f_url ` set (frontier s2) =
      (f_url ` set (frontier s) - {d_url page, d_origUrl page}) \<union> f_url ` set links"
  using sqlite.crawl_page [of f b page s s1 g links s2] assms
  by (simp add: sqlite_statements_def)

definition demo_page :: "url \<Rightarrow> url \<Rightarrow> PageData" where
  "demo_page u orig = \<lparr> d_url = u, d_title = ''T'', d_desc = ''D'', d_dom = ''a.org'', d_depth = 0,
     d_parent = None, d_pop = 1, d_lang = ''en'', d_https = 1, d_meta = ''D'', d_ogt = [], d_ogd = [],
     d_clen = 10, d_ts = 5, d_origUrl = orig \<rparr>"

definition demo_store :: sqlite_store where
  "demo_store = insertFrontier ''b'' 1 (Some ''r'') (insertFrontier ''a'' 1 (Some ''r'') empty_sqlite)"

lemma sqlite_crawl_page_witness:
  "\<exists>s1 s2. saveNode (\<lambda>_. False) True (demo_page ''a2'' ''a'') demo_store = Inr s1 \<and>
    insertManyFrontier (\<lambda>_. False) [\<lparr>f_url = ''c'', f_depth = 2, f_parent = Some ''a2''\<rparr>] s1 = Inr s2 \<and>
    isVisited ''a2'' s2 \<and> isVisited ''a'' s2 \<and> f_url ` set (frontier s2) = {''b'', ''c''}"
proof -
  obtain s1 where 1: "saveNode (\<lambda>_. False) True (demo_page ''a2'' ''a'') demo_store = Inr s1"
    by (simp add: saveNode_def save_statements_def demo_page_def)
  obtain s2 where 2: "insertManyFrontier (\<lambda>_. False) [\<lparr>f_url = ''c'', f_depth = 2, f_parent = Some ''a2''\<rparr>] s1 = Inr s2"
    by (simp add: insertManyFrontier_def)
  have "f_url ` set (frontier demo_store) = {''a'', ''b''}"
    by (auto simp: demo_store_def insertFrontier_def empty_sqlite_def)
  with sqlite_crawl_page [OF 1 2] 1 2 show ?thesis by (auto simp: demo_page_def)
qed

text \<open>C23. Paging with the cursor: on a consistent SQLite database, reading batches of 50, each
  from the last id of the one before, starting at 0, meets every frontier row exactly once, in
  id order, and then an empty batch; one more read than there are rows always suffices.\<close>

theorem frontier_paging_complete:
  assumes "store_ok s"
  shows "paging sqlite_statements 50 (Suc (length (frontier s))) 0 s = frontier s"
proof -
  have "filter (\<lambda>r. f_id r > 0) (frontier s) = frontier s"
    using store_ok_ids [OF assms] by simp
  then show ?thesis
    using sqlite.paging_complete [OF assms, of 50 0 "Suc (length (frontier s))"] by simp
qed

lemma frontier_paging_complete_witness:
  "paging sqlite_statements 50 (Suc (length (frontier demo_store))) 0 demo_store = frontier demo_store"
  by (rule frontier_paging_complete) (simp add: demo_store_def preserves)


lemma truncate_statements [simp]:
  "store.truncate (insertFrontier u d p s) = insertFrontier u d p (store.truncate s)"
  "store.truncate (deleteFromFrontier u s) = deleteFromFrontier u (store.truncate s)"
  "store.truncate (markVisited u s) = markVisited u (store.truncate s)"
  "store.truncate (insertNode page s) = insertNode page (store.truncate s)"
  by (simp_all add: store.truncate_def insertFrontier_def deleteFromFrontier_def markVisited_def
      insertNode_def)

lemma truncate_insertFts [simp]: "store.truncate (insertFts d s) = store.truncate s"
  by (simp add: store.truncate_def insertFts_def)


text \<open>The full-text table is not keyed: saving the same final URL twice (two redirects to one
  page) leaves one row in \<open>nodes\<close> but two rows for it in \<open>nodes_fts\<close>, so a search that matches
  the page finds it twice.\<close>

theorem fts_rows_duplicate:
  assumes "d_url d1 = d_url d2"
    and "saveNode f1 True d1 s = Inr s1" and "saveNode f2 True d2 s1 = Inr s2"
    and "store_ok s"
  shows "length (filter (\<lambda>n. n_url n = d_url d1) (nodes s2)) = 1 \<and>
    2 \<le> length (filter (\<lambda>t. t_url t = d_url d1) (nodes_fts s2))"
proof -
  have fts: "nodes_fts (fold (\<lambda>f. f) (save_statements d) s) = nodes_fts s"
    for d and s :: sqlite_store
    by (simp add: save_statements_def insertNode_def markVisited_def deleteFromFrontier_def)
  have nds: "nodes (fold (\<lambda>f. f) (save_statements d) s) = nodes (insertNode d s)"
    for d and s :: sqlite_store
    by (simp add: save_statements_def markVisited_def deleteFromFrontier_def)
  have ok: "store_ok s2" using assms store_ok_saveNode by metis
  have s1: "nodes_fts s1 = nodes_fts (insertFts d1 s)"
    using saveNode_fold [OF assms(2)] fts [of d1 s] by (simp add: insertFts_def)
  have s2: "nodes_fts s2 = nodes_fts (insertFts d2 s1)" "nodes s2 = nodes (insertNode d2 s1)"
    using saveNode_fold [OF assms(3)] fts [of d2 s1] nds [of d2 s1] by (simp_all add: insertFts_def)
  have "d_url d1 \<in> n_url ` set (nodes s2)"
    using assms(1) by (simp add: s2(2) node_urls_insertNode)
  moreover have "distinct (map n_url (nodes s2))" using ok by (simp add: store_ok_def nodes_ok_def)
  ultimately have "length (filter (\<lambda>n. n_url n = d_url d1) (nodes s2)) = 1"
    by (simp add: length_filter_key)
  then show ?thesis using assms(1) by (simp add: s2(1) s1 insertFts_def)
qed

lemma fts_rows_duplicate_witness:
  "\<exists>s1 s2. saveNode (\<lambda>_. False) True (demo_page ''p'' ''a'') demo_store = Inr s1 \<and>
    saveNode (\<lambda>_. False) True (demo_page ''p'' ''b'') s1 = Inr s2 \<and>
    length (filter (\<lambda>n. n_url n = ''p'') (nodes s2)) = 1 \<and>
    2 \<le> length (filter (\<lambda>t. t_url t = ''p'') (nodes_fts s2))"
proof -
  obtain s1 where 1: "saveNode (\<lambda>_. False) True (demo_page ''p'' ''a'') demo_store = Inr s1"
    by (simp add: saveNode_def save_statements_def demo_page_def)
  obtain s2 where 2: "saveNode (\<lambda>_. False) True (demo_page ''p'' ''b'') s1 = Inr s2"
    by (simp add: saveNode_def save_statements_def demo_page_def)
  have u: "d_url (demo_page ''p'' x) = ''p''" for x by (simp add: demo_page_def)
  have "store_ok demo_store" by (simp add: demo_store_def preserves)
  from fts_rows_duplicate [OF _ 1 2 this] 1 2 show ?thesis by (auto simp: u)
qed

end
