(* ===== verification/CrawlState.thy ===== *)
theory CrawlState
  imports Store Config
begin

text \<open>
  The in-memory crawl state of src/db.ts (class \<open>CrawlState\<close>): cached table counts, the
  per-domain counters of the crawler and the automatic domain blacklist. The statements it
  refreshes from are those of the interface; \<open>fault i\<close> says that the \<open>i\<close>-th of them throws.
\<close>

record crawl_state =
  cs_nodeCount :: int
  cs_frontierCount :: int
  domainPop :: "(domain \<times> int) list"
  domainNodeCount :: "domain \<rightharpoonup> int"
  domainInflight :: "domain \<rightharpoonup> int"
  domainSuccess :: "domain \<rightharpoonup> int"
  domainFail :: "domain \<rightharpoonup> int"
  domainBlacklist :: "domain set"
  cs_success :: int
  cs_fail :: int
  diskPaused :: bool
  recrawlAttempted :: bool

definition new_CrawlState :: crawl_state where
  "new_CrawlState =
    \<lparr> cs_nodeCount = 0, cs_frontierCount = 0, domainPop = [], domainNodeCount = Map.empty,
      domainInflight = Map.empty, domainSuccess = Map.empty, domainFail = Map.empty,
      domainBlacklist = {}, cs_success = 0, cs_fail = 0, diskPaused = False,
      recrawlAttempted = False \<rparr>"

text \<open>\<open>m.get(k) || 0\<close>.\<close>

definition get0 :: "(domain \<rightharpoonup> int) \<Rightarrow> domain \<Rightarrow> int" where
  "get0 m d = (case m d of None \<Rightarrow> 0 | Some n \<Rightarrow> n)"

lemma get0_upd [simp]: "get0 (m(d \<mapsto> v)) d' = (if d' = d then v else get0 m d')"
  by (simp add: get0_def)

lemma get0_empty [simp]: "get0 Map.empty d = 0"
  by (simp add: get0_def)

text \<open>\<open>refresh\<close>: a statement that throws ends it, with the fields before it already set.\<close>

definition refresh ::
  "(nat \<Rightarrow> bool) \<Rightarrow> ((domain \<times> int) list \<Rightarrow> (domain \<times> int) list) \<Rightarrow> 's Statements \<Rightarrow> 's \<Rightarrow>
   crawl_state \<Rightarrow> crawl_state" where
  "refresh fault ord st db cs =
    (if fault 0 then cs else
     let cs = cs\<lparr>cs_nodeCount := get_nodeCount st db\<rparr> in
     if fault 1 then cs else
     let cs = cs\<lparr>cs_frontierCount := get_frontierCount st db\<rparr> in
     if fault 2 then cs else cs\<lparr>domainPop := all_domainPop st ord db\<rparr>)"

definition fullRefresh ::
  "(nat \<Rightarrow> bool) \<Rightarrow> ((domain \<times> int) list \<Rightarrow> (domain \<times> int) list) \<Rightarrow> 's Statements \<Rightarrow> 's \<Rightarrow>
   crawl_state \<Rightarrow> crawl_state" where
  "fullRefresh fault ord st db cs =
    (let cs = refresh fault ord st db cs in
     if fault 3 then cs
     else cs\<lparr>domainNodeCount := fold (\<lambda>(d, c) m. m(d \<mapsto> c)) (all_domainCount st db) Map.empty\<rparr>)"

definition getDomainCount :: "domain \<Rightarrow> crawl_state \<Rightarrow> int" where
  "getDomainCount d cs = get0 (domainNodeCount cs) d"

definition incrementDomainCount :: "domain \<Rightarrow> crawl_state \<Rightarrow> crawl_state" where
  "incrementDomainCount d cs =
    cs\<lparr>domainNodeCount := (domainNodeCount cs)(d \<mapsto> get0 (domainNodeCount cs) d + 1)\<rparr>"

definition recordDomainSuccess :: "domain \<Rightarrow> crawl_state \<Rightarrow> crawl_state" where
  "recordDomainSuccess d cs =
    cs\<lparr>domainSuccess := (domainSuccess cs)(d \<mapsto> get0 (domainSuccess cs) d + 1)\<rparr>"

text \<open>
  \<open>fail / total > 0.9\<close> is compared as \<open>10 * fail > 9 * total\<close>: the double quotient of two
  counts exceeds the double 0.9 exactly when the rational quotient exceeds 9/10, because
  rounding is monotone, equal rationals round alike, and counts are far below \<open>2 ^ 50\<close>.
\<close>

definition recordDomainFail :: "domain \<Rightarrow> crawl_state \<Rightarrow> crawl_state" where
  "recordDomainFail d cs =
    (let cs = cs\<lparr>domainFail := (domainFail cs)(d \<mapsto> get0 (domainFail cs) d + 1)\<rparr>;
         ok = get0 (domainSuccess cs) d;
         fail = get0 (domainFail cs) d;
         total = ok + fail
     in if total \<ge> 20 \<and> 10 * fail > 9 * total
        then cs\<lparr>domainBlacklist := insert d (domainBlacklist cs)\<rparr> else cs)"

definition isDomainBlacklisted :: "domain \<Rightarrow> crawl_state \<Rightarrow> bool" where
  "isDomainBlacklisted d cs \<longleftrightarrow> d \<in> domainBlacklist cs"

definition getInflight :: "domain \<Rightarrow> crawl_state \<Rightarrow> int" where
  "getInflight d cs = get0 (domainInflight cs) d"

definition setInflight :: "domain \<Rightarrow> int \<Rightarrow> crawl_state \<Rightarrow> crawl_state" where
  "setInflight d v cs = cs\<lparr>domainInflight := (domainInflight cs)(d \<mapsto> max 0 v)\<rparr>"

section \<open>The automatic blacklist\<close>

text \<open>The outcomes of fetches, in order: which domain, and whether it went well.\<close>

fun record_outcomes :: "(domain \<times> bool) list \<Rightarrow> crawl_state \<Rightarrow> crawl_state" where
  "record_outcomes [] cs = cs"
| "record_outcomes ((d, ok) # os) cs =
    record_outcomes os (if ok then recordDomainSuccess d cs else recordDomainFail d cs)"

definition fails_of :: "domain \<Rightarrow> (domain \<times> bool) list \<Rightarrow> int" where
  "fails_of d os = int (count_list os (d, False))"

definition total_of :: "domain \<Rightarrow> (domain \<times> bool) list \<Rightarrow> int" where
  "total_of d os = int (count_list os (d, False) + count_list os (d, True))"

definition bad_record :: "domain \<Rightarrow> (domain \<times> bool) list \<Rightarrow> bool" where
  "bad_record d os \<longleftrightarrow> os \<noteq> [] \<and> last os = (d, False) \<and>
     total_of d os \<ge> 20 \<and> 10 * fails_of d os > 9 * total_of d os"

lemma record_outcomes_append:
  "record_outcomes (os @ os') cs = record_outcomes os' (record_outcomes os cs)"
  by (induction os cs rule: record_outcomes.induct) auto

lemma count_list_snoc: "count_list (xs @ [x]) y = count_list xs y + (if x = y then 1 else 0)"
  by (induction xs) auto

lemma record_counters [simp]:
  "get0 (domainFail (recordDomainFail d' cs)) d = get0 (domainFail cs) d + (if d = d' then 1 else 0)"
  "domainSuccess (recordDomainFail d' cs) = domainSuccess cs"
  "get0 (domainSuccess (recordDomainSuccess d' cs)) d =
    get0 (domainSuccess cs) d + (if d = d' then 1 else 0)"
  "domainFail (recordDomainSuccess d' cs) = domainFail cs"
  "domainBlacklist (recordDomainSuccess d' cs) = domainBlacklist cs"
  by (simp_all add: recordDomainFail_def recordDomainSuccess_def Let_def get0_def)

lemma counters_of_outcomes:
  "get0 (domainFail (record_outcomes os new_CrawlState)) d = fails_of d os \<and>
   get0 (domainSuccess (record_outcomes os new_CrawlState)) d = total_of d os - fails_of d os"
proof (induction os rule: rev_induct)
  case Nil
  then show ?case by (simp add: new_CrawlState_def fails_of_def total_of_def)
next
  case (snoc x os)
  then show ?case
    by (cases x) (auto simp: record_outcomes_append fails_of_def total_of_def count_list_snoc)
qed

lemma blacklist_recordDomainFail:
  "d \<in> domainBlacklist (recordDomainFail d' cs) \<longleftrightarrow>
    d \<in> domainBlacklist cs \<or>
    (d = d' \<and> get0 (domainSuccess cs) d + (get0 (domainFail cs) d + 1) \<ge> 20 \<and>
     10 * (get0 (domainFail cs) d + 1) > 9 * (get0 (domainSuccess cs) d + (get0 (domainFail cs) d + 1)))"
  by (auto simp: recordDomainFail_def Let_def)

lemma bad_record_snoc:
  "bad_record d (os @ [(d', ok)]) \<longleftrightarrow> d = d' \<and> \<not> ok \<and> total_of d os + 1 \<ge> 20 \<and>
     10 * (fails_of d os + 1) > 9 * (total_of d os + 1)"
  by (auto simp: bad_record_def fails_of_def total_of_def count_list_snoc)

text \<open>The blacklist is exactly the documented rule, applied at every failure: a domain is on
  it if and only if at some point of the history a fetch of it had just failed, at least 20
  of its fetches were recorded, and more than 90 percent of them were failures. Nothing takes
  a domain off.\<close>

theorem blacklist_rule:
  "d \<in> domainBlacklist (record_outcomes os new_CrawlState) \<longleftrightarrow>
    (\<exists>n \<le> length os. bad_record d (take n os))"
proof (induction os rule: rev_induct)
  case Nil
  then show ?case by (simp add: new_CrawlState_def bad_record_def)
next
  case (snoc x os)
  obtain d' ok where x: "x = (d', ok)" by fastforce
  let ?s = "record_outcomes os new_CrawlState"
  have "d \<in> domainBlacklist (record_outcomes (os @ [x]) new_CrawlState) \<longleftrightarrow>
      d \<in> domainBlacklist ?s \<or> bad_record d (os @ [x])"
    using counters_of_outcomes [of os d]
    by (cases ok) (auto simp: x record_outcomes_append blacklist_recordDomainFail bad_record_snoc
        algebra_simps)
  also have "\<dots> \<longleftrightarrow> (\<exists>n \<le> length os. bad_record d (take n os)) \<or> bad_record d (os @ [x])"
    using snoc.IH by simp
  also have "\<dots> \<longleftrightarrow> (\<exists>n \<le> length (os @ [x]). bad_record d (take n (os @ [x])))"
    by (auto simp: le_Suc_eq)
  finally show ?case .
qed

section \<open>Refreshing\<close>

lemma fold_upd_notin:
  "d \<notin> fst ` set kvs \<Longrightarrow> fold (\<lambda>(d, c) m. m(d \<mapsto> c)) kvs m d = m d"
  by (induction kvs arbitrary: m) auto

lemma fold_upd_map:
  "distinct ds \<Longrightarrow> fold (\<lambda>(d, c) m. m(d \<mapsto> c)) (map (\<lambda>d. (d, f d)) ds) m d =
    (if d \<in> set ds then Some (f d) else m d)"
  by (induction ds arbitrary: m) (auto simp: fold_upd_notin image_image)

lemma domainCount_lookup:
  assumes "all_domainCount st = domainCountStmt" and "\<not> fault 3"
  shows "getDomainCount d (fullRefresh fault ord st db cs) =
    int (length (filter (\<lambda>n. n_domain n = d) (nodes db)))"
proof -
  have "d \<notin> n_domain ` set (nodes db) \<Longrightarrow> filter (\<lambda>n. n_domain n = d) (nodes db) = []"
    by (auto simp: filter_empty_conv)
  then show ?thesis
    using assms
    by (auto simp: fullRefresh_def getDomainCount_def get0_def Let_def domainCountStmt_def
        fold_upd_map)
qed

end
