(* ===== verification/Numbers.thy ===== *)
theory Numbers
  imports Prelude
begin

text \<open>
  Numbers and words in strings, as JavaScript reads and prints them: \<open>parseInt\<close>, splitting at
  white space, and what they make of the digits \<open>js_digits\<close> prints.
\<close>

text \<open>\<open>parseInt\<close> in base 10: white space, a sign, the digits up to the first other character.\<close>

definition is_digit :: "char \<Rightarrow> bool" where
  "is_digit c \<longleftrightarrow> 48 \<le> (of_char c :: nat) \<and> (of_char c :: nat) \<le> 57"

fun digits_value :: "int \<Rightarrow> string \<Rightarrow> int" where
  "digits_value a [] = a"
| "digits_value a (c # s) =
    (if is_digit c then digits_value (10 * a + (of_char c - 48)) s else a)"

definition parse_unsigned :: "string \<Rightarrow> int option" where
  "parse_unsigned s = (case s of c # _ \<Rightarrow> if is_digit c then Some (digits_value 0 s) else None | [] \<Rightarrow> None)"

definition js_parseInt :: "string \<Rightarrow> int option" where
  "js_parseInt s =
    (case dropWhile is_ws s of
       [] \<Rightarrow> None
     | c # t \<Rightarrow> if c = CHR ''-'' then map_option uminus (parse_unsigned t)
               else if c = CHR ''+'' then parse_unsigned t
               else parse_unsigned (c # t))"

text \<open>\<open>s.split(/\s+/)\<close> on a trimmed string.\<close>

fun split_ws :: "string \<Rightarrow> string list" where
  "split_ws [] = [[]]"
| "split_ws (c # cs) =
    (if is_ws c then (case cs of d # _ \<Rightarrow> if is_ws d then split_ws cs else [] # split_ws cs
                               | [] \<Rightarrow> [[], []])
     else (case split_ws cs of w # ws \<Rightarrow> (c # w) # ws | [] \<Rightarrow> [[c]]))"

lemma is_digit_char: "n < 10 \<Longrightarrow> is_digit (char_of (48 + n)) \<and> (of_char (char_of (48 + n)) :: int) = 48 + int n"
proof -
  assume n: "n < 10"
  then have c: "(of_char (char_of (48 + n)) :: nat) = 48 + n" by simp
  have "(of_char (char_of (48 + n)) :: int) = int (of_char (char_of (48 + n)))"
    by (simp only: of_nat_of_char)
  with c n show ?thesis by (simp add: is_digit_def)
qed

lemma digits_value_app:
  "list_all is_digit s \<Longrightarrow> digits_value a (s @ t) = digits_value (digits_value a s) t"
  by (induction s arbitrary: a) auto

lemma js_digits_spec:
  "list_all is_digit (js_digits n) \<and> js_digits n \<noteq> [] \<and> digits_value 0 (js_digits n) = int n"
proof (induction n rule: js_digits.induct)
  case (1 n)
  show ?case
  proof (cases "n < 10")
    case True
    then show ?thesis using is_digit_char [of n] by (simp add: js_digits.simps [of n])
  next
    case False
    have d: "is_digit (char_of (48 + n mod 10))" "(of_char (char_of (48 + n mod 10)) :: int) = 48 + int (n mod 10)"
      using is_digit_char [of "n mod 10"] by simp_all
    have "int n = 10 * int (n div 10) + int (n mod 10)" by (metis mult_div_mod_eq of_nat_add of_nat_mult of_nat_numeral)
    with 1 [OF False] d show ?thesis
      by (simp add: js_digits.simps [of n] False digits_value_app)
  qed
qed

lemma digit_not_ws: "is_digit c \<Longrightarrow> \<not> is_ws c \<and> c \<noteq> CHR ''-'' \<and> c \<noteq> CHR ''+''"
  by (auto simp: is_digit_def is_ws_def)

lemma parseInt_digits: "js_parseInt (js_digits n) = Some (int n)"
proof -
  obtain c t where s: "js_digits n = c # t" using js_digits_spec [of n] by (cases "js_digits n") auto
  then have "is_digit c" using js_digits_spec [of n] by auto
  with s js_digits_spec [of n] digit_not_ws [of c] show ?thesis
    by (auto simp: js_parseInt_def parse_unsigned_def)
qed

lemma split_ws_word:
  "list_all (\<lambda>c. \<not> is_ws c) w \<Longrightarrow> w \<noteq> [] \<Longrightarrow> split_ws w = [w]"
proof (induction w)
  case (Cons c w)
  then show ?case by (cases "w = []") auto
qed simp

lemma split_ws_app:
  "list_all (\<lambda>c. \<not> is_ws c) w \<Longrightarrow> \<not> is_ws (hd t) \<Longrightarrow> t \<noteq> [] \<Longrightarrow>
    split_ws (w @ CHR '' '' # t) = w # split_ws t"
proof (induction w)
  case Nil
  then show ?case by (cases t) (simp_all add: is_ws_def)
next
  case (Cons c w)
  then show ?case by simp
qed
lemma js_trim_newline:
  assumes "s \<noteq> []" and "\<not> is_ws (hd s)" and "\<not> is_ws (last s)" and "is_ws c"
  shows "js_trim (s @ [c]) = s"
  using assms by (simp add: js_trim_def dropWhile_idem_hd hd_rev)

lemma digits_word: "list_all (\<lambda>c. \<not> is_ws c) (js_digits n) \<and> js_digits n \<noteq> [] \<and> \<not> is_ws (hd (js_digits n))"
proof -
  have "list_all is_digit (js_digits n) \<and> js_digits n \<noteq> []" using js_digits_spec by blast
  then show ?thesis by (auto simp: list_all_iff digit_not_ws)
qed

lemma no_newline: "list_all (\<lambda>c. \<not> is_ws c) w \<Longrightarrow> CHR 0x0A \<notin> set w"
  by (auto simp: list_all_iff is_ws_def)

end
