(* ===== verification/PgState.thy ===== *)
theory PgState
  imports CrawlState StoreBackends Numbers
begin

text \<open>
  Class \<open>PgCrawlState\<close> of src/db-pg.ts. Its fields and most of its methods are those of
  \<open>CrawlState\<close>; but node-pg delivers a \<open>COUNT\<close> as a decimal text, which \<open>refresh\<close> and
  \<open>fullRefresh\<close> parse, except in \<open>domainPop\<close>, whose rows keep it. The component
  \<open>pg_numbers\<close> holds the fields of \<open>CrawlState\<close>, its \<open>domainPop\<close> unused.
\<close>

record pg_crawl_state =
  pg_numbers :: crawl_state
  pg_domainPop :: "(domain \<times> string) list"

definition new_PgCrawlState :: pg_crawl_state where
  "new_PgCrawlState = \<lparr>pg_numbers = new_CrawlState, pg_domainPop = []\<rparr>"

text \<open>What the driver delivers for a count, and \<open>parseInt(c) || 0\<close>.\<close>

definition count_text :: "int \<Rightarrow> string" where
  "count_text n = js_digits (nat n)"

definition parse_count :: "string \<Rightarrow> int" where
  "parse_count t = or_num (js_parseInt t) 0"

definition pg_refresh ::
  "(nat \<Rightarrow> bool) \<Rightarrow> ((domain \<times> int) list \<Rightarrow> (domain \<times> int) list) \<Rightarrow> 's Statements \<Rightarrow> 's \<Rightarrow>
   pg_crawl_state \<Rightarrow> pg_crawl_state" where
  "pg_refresh fault ord st db p =
    (if fault 0 then p else
     let p = p\<lparr>pg_numbers := (pg_numbers p)\<lparr>cs_nodeCount := parse_count (count_text (get_nodeCount st db))\<rparr>\<rparr> in
     if fault 1 then p else
     let p = p\<lparr>pg_numbers := (pg_numbers p)\<lparr>cs_frontierCount := parse_count (count_text (get_frontierCount st db))\<rparr>\<rparr> in
     if fault 2 then p
     else p\<lparr>pg_domainPop := map (\<lambda>(d, c). (d, count_text c)) (all_domainPop st ord db)\<rparr>)"

definition pg_fullRefresh ::
  "(nat \<Rightarrow> bool) \<Rightarrow> ((domain \<times> int) list \<Rightarrow> (domain \<times> int) list) \<Rightarrow> 's Statements \<Rightarrow> 's \<Rightarrow>
   pg_crawl_state \<Rightarrow> pg_crawl_state" where
  "pg_fullRefresh fault ord st db p =
    (let p = pg_refresh fault ord st db p in
     if fault 3 then p
     else p\<lparr>pg_numbers := (pg_numbers p)\<lparr>domainNodeCount :=
       fold (\<lambda>(d, t) m. m(d \<mapsto> parse_count t)) (map (\<lambda>(d, c). (d, count_text c)) (all_domainCount st db)) Map.empty\<rparr>\<rparr>)"

text \<open>The other methods act on the numbers as in \<open>CrawlState\<close>.\<close>

definition pg_update :: "(crawl_state \<Rightarrow> crawl_state) \<Rightarrow> pg_crawl_state \<Rightarrow> pg_crawl_state" where
  "pg_update f p = p\<lparr>pg_numbers := f (pg_numbers p)\<rparr>"

definition pg_recordDomainSuccess :: "domain \<Rightarrow> pg_crawl_state \<Rightarrow> pg_crawl_state" where
  "pg_recordDomainSuccess d = pg_update (recordDomainSuccess d)"

definition pg_recordDomainFail :: "domain \<Rightarrow> pg_crawl_state \<Rightarrow> pg_crawl_state" where
  "pg_recordDomainFail d = pg_update (recordDomainFail d)"

definition pg_incrementDomainCount :: "domain \<Rightarrow> pg_crawl_state \<Rightarrow> pg_crawl_state" where
  "pg_incrementDomainCount d = pg_update (incrementDomainCount d)"

definition pg_setInflight :: "domain \<Rightarrow> int \<Rightarrow> pg_crawl_state \<Rightarrow> pg_crawl_state" where
  "pg_setInflight d v = pg_update (setInflight d v)"

text \<open>
  The popularity that src/queue.ts computes from this state: \<open>(row.c || 0) + 1\<close> where \<open>row.c\<close> is
  a text, hence a concatenation, which the integer column then reads as a number.
\<close>

definition pg_popularity :: "domain \<Rightarrow> pg_crawl_state \<Rightarrow> int" where
  "pg_popularity d p =
    (case map_of (pg_domainPop p) d of
       None \<Rightarrow> 0 + 1
     | Some t \<Rightarrow> if t = [] then 0 + 1 else parse_count (t @ js_digits 1))"

section \<open>Refinement\<close>

definition pg_abs :: "pg_crawl_state \<Rightarrow> crawl_state" where
  "pg_abs p = (pg_numbers p)\<lparr>domainPop := map (\<lambda>(d, t). (d, parse_count t)) (pg_domainPop p)\<rparr>"

lemma pg_statements_select:
  "get_nodeCount pg_statements = nodeCount" "get_frontierCount pg_statements = frontierCount"
  "all_domainPop pg_statements = domainPopStmt" "all_domainCount pg_statements = domainCountStmt"
  by (simp_all add: pg_statements_def)

lemma pg_abs_counts:
  "pg_abs (p\<lparr>pg_numbers := (pg_numbers p)\<lparr>domainNodeCount := m\<rparr>\<rparr>) = (pg_abs p)\<lparr>domainNodeCount := m\<rparr>"
  by (simp add: pg_abs_def)

lemma parse_count_text: "0 \<le> n \<Longrightarrow> parse_count (count_text n) = n"
  by (simp add: parse_count_def count_text_def parseInt_digits or_num_def)

lemma domainCount_pos: "(d, c) \<in> set (domainCountStmt s) \<Longrightarrow> 0 < c"
  by (auto simp: domainCountStmt_def filter_empty_conv)

lemma domainPop_pos:
  assumes "\<And>xs. set (ord xs) \<subseteq> set xs" and "(d, c) \<in> set (domainPopStmt ord s)"
  shows "0 < c"
  using assms domainCount_pos unfolding domainPopStmt_def
  by (metis in_set_takeD set_sort subsetD)

lemma texts_parse:
  "\<forall>(d, c) \<in> set xs. 0 \<le> c \<Longrightarrow> map ((\<lambda>(d, t). (d, parse_count t)) \<circ> (\<lambda>(d, c). (d, count_text c))) xs = xs"
  by (induction xs) (auto simp: parse_count_text)

lemma fold_texts:
  "\<forall>(d, c) \<in> set xs. 0 \<le> c \<Longrightarrow>
    fold (\<lambda>(d, t) m. m(d \<mapsto> parse_count t)) (map (\<lambda>(d, c). (d, count_text c)) xs) m =
    fold (\<lambda>(d, c) m. m(d \<mapsto> c)) xs m"
  by (induction xs arbitrary: m) (auto simp: parse_count_text)



text \<open>Popularity is not: for a domain with \<open>c\<close> stored pages that is among the twenty largest, a new
  page gets popularity \<open>10 * c + 1\<close> on PostgreSQL.\<close>

theorem pg_popularity_concatenates:
  assumes "\<And>xs. set (ord xs) \<subseteq> set xs"
    and "map_of (domainPopStmt ord db) d = Some c"
  shows "pg_popularity d (pg_refresh (\<lambda>_. False) ord pg_statements db p) = 10 * c + 1"
proof -
  have "0 < c" using domainPop_pos [OF assms(1) map_of_SomeD [OF assms(2)]] .
  then obtain n where n: "c = int n" "0 < n" by (metis nonneg_int_cases of_nat_0_less_iff less_imp_le)
  have "map_of (map (\<lambda>(d, c). (d, count_text c)) xs) d = map_option count_text (map_of xs d)" for xs
    by (induction xs) auto
  then have "map_of (pg_domainPop (pg_refresh (\<lambda>_. False) ord pg_statements db p)) d = Some (js_digits n)"
    using assms(2) n by (simp add: pg_refresh_def pg_statements_select Let_def count_text_def)
  moreover have "Suc (10 * n) div 10 = n" by presburger
  then have "js_digits (10 * n + 1) = js_digits n @ js_digits 1"
    by (subst js_digits.simps) (use n in \<open>simp add: js_digits.simps [of "Suc 0"]\<close>)
  then have "parse_count (js_digits n @ js_digits 1) = 10 * int n + 1"
    using parseInt_digits [of "10 * n + 1"] by (simp add: parse_count_def or_num_def)
  moreover have "js_digits n \<noteq> []" using digits_word [of n] by blast
  ultimately show ?thesis using n by (simp add: pg_popularity_def)
qed

lemma pg_popularity_concatenates_witness:
  "pg_popularity ''a.org'' (pg_refresh (\<lambda>_. False) id pg_statements
     \<lparr>nodes = [node_of_page (demo_page ''http://a.org/'' ''http://a.org/'')], visited = {}, frontier = [], seq = 0\<rparr>
     new_PgCrawlState) = 11"
  using pg_popularity_concatenates [of id
      "\<lparr>nodes = [node_of_page (demo_page ''http://a.org/'' ''http://a.org/'')], visited = {}, frontier = [], seq = 0\<rparr>"
      "''a.org''" 1]
  by (simp add: domainPopStmt_def domainCountStmt_def node_of_page_def demo_page_def)

end
