(* ===== verification/Regex.thy ===== *)
theory Regex
  imports Prelude
begin

text \<open>
  JavaScript regular expressions of the shape the crawler uses: a sequence of single
  characters and greedy repetitions of a character class, with one capture group. The
  matcher backtracks as ECMAScript does: a repetition takes as many characters as it can
  and gives them back one at a time until the rest of the pattern matches.
\<close>

datatype rx =
  One "char \<Rightarrow> bool"
| Many nat "nat option" "char \<Rightarrow> bool"
| CapBegin
| CapEnd

text \<open>\<open>backtrack f lo n\<close> is the first success of \<open>f n, f (n - 1), \<dots>, f lo\<close>.\<close>

fun backtrack :: "(nat \<Rightarrow> 'a option) \<Rightarrow> nat \<Rightarrow> nat \<Rightarrow> 'a option" where
  "backtrack f lo 0 = (if lo = 0 then f 0 else None)"
| "backtrack f lo (Suc n) =
    (if Suc n < lo then None
     else case f (Suc n) of Some x \<Rightarrow> Some x | None \<Rightarrow> backtrack f lo n)"

definition greedy_len :: "nat option \<Rightarrow> (char \<Rightarrow> bool) \<Rightarrow> string \<Rightarrow> nat" where
  "greedy_len hi p s =
    (let n = length (takeWhile p s) in case hi of None \<Rightarrow> n | Some h \<Rightarrow> min n h)"

text \<open>Match at the start of \<open>s\<close>: the captured text and what is left of the subject.\<close>

primrec rx_match :: "rx list \<Rightarrow> bool \<Rightarrow> string \<Rightarrow> string \<Rightarrow> (string \<times> string) option" where
  "rx_match [] = (\<lambda>op cap s. Some (cap, s))"
| "rx_match (r # rs) = (\<lambda>op cap s.
    (case r of
       One p \<Rightarrow>
         (case s of [] \<Rightarrow> None
          | c # s' \<Rightarrow> if p c then rx_match rs op (if op then cap @ [c] else cap) s' else None)
     | Many lo hi p \<Rightarrow>
         backtrack (\<lambda>k. rx_match rs op (if op then cap @ take k s else cap) (drop k s)) lo
           (greedy_len hi p s)
     | CapBegin \<Rightarrow> rx_match rs True [] s
     | CapEnd \<Rightarrow> rx_match rs False cap s))"

text \<open>The leftmost match.\<close>

fun rx_search :: "rx list \<Rightarrow> string \<Rightarrow> (string \<times> string) option" where
  "rx_search r [] = rx_match r False [] []"
| "rx_search r (c # s) =
    (case rx_match r False [] (c # s) of Some m \<Rightarrow> Some m | None \<Rightarrow> rx_search r s)"

text \<open>
  The \<open>exec\<close> loop of a global expression: all captures, each search starting where the
  match before it ended. The patterns used never match the empty string.
\<close>

function rx_all :: "rx list \<Rightarrow> string \<Rightarrow> string list" where
  "rx_all r s =
    (case rx_search r s of
       None \<Rightarrow> []
     | Some (cap, rest) \<Rightarrow> if length rest < length s then cap # rx_all r rest else [cap])"
  by pat_completeness auto
termination
  by (relation "measure (\<lambda>(r, s). length s)") auto

declare rx_all.simps [simp del]

text \<open>Case-insensitive literals, and the classes of the patterns.\<close>

definition lit :: "string \<Rightarrow> rx list" where
  "lit s = map (\<lambda>c. One (\<lambda>x. char_lower x = char_lower c)) s"

definition quote_char :: "char \<Rightarrow> bool" where
  "quote_char c \<longleftrightarrow> c = CHR 0x22 \<or> c = CHR 0x27"

definition letter :: "char \<Rightarrow> bool" where
  "letter c \<longleftrightarrow> (let n = of_char (char_lower c) :: nat in 97 \<le> n \<and> n \<le> 122)"

definition any_but :: "string \<Rightarrow> rx" where
  "any_but cs = Many 0 None (\<lambda>c. c \<notin> set cs)"

section \<open>What a match guarantees\<close>

lemma backtrack_Some:
  "backtrack f lo n = Some x \<Longrightarrow> \<exists>k. lo \<le> k \<and> k \<le> n \<and> f k = Some x"
proof (induction f lo n rule: backtrack.induct)
  case (2 f lo n)
  show ?case
  proof (cases "f (Suc n)")
    case None
    with 2 obtain k where "lo \<le> k" "k \<le> n" "f k = Some x" by (auto split: if_splits)
    then show ?thesis by (intro exI [of _ k]) simp
  next
    case (Some y)
    with 2 show ?thesis by (intro exI [of _ "Suc n"]) (auto split: if_splits)
  qed
qed (auto split: if_splits)

lemma greedy_len_all:
  assumes "k \<le> greedy_len hi p s"
  shows "(\<forall>c \<in> set (take k s). p c) \<and> k \<le> length s \<and> (\<forall>h. hi = Some h \<longrightarrow> k \<le> h)"
proof -
  have k: "k \<le> length (takeWhile p s)" and h: "\<forall>h. hi = Some h \<longrightarrow> k \<le> h"
    using assms by (auto simp: greedy_len_def Let_def split: option.splits)
  have "take k s = take k (takeWhile p s)"
    using k by (metis append_eq_conv_conj takeWhile_dropWhile_id take_append take_take min.absorb1 append_Nil2 diff_is_0_eq take_0)
  then have "\<forall>c \<in> set (take k s). p c" by (metis in_set_takeD set_takeWhileD)
  moreover have "k \<le> length s" using k length_takeWhile_le [of p s] by simp
  ultimately show ?thesis using h by blast
qed

text \<open>
  A pattern whose group is one repetition: the capture consists of characters of its class
  and has a length within its bounds.
\<close>

lemma rx_match_closed: "rx_match rs False cap s = Some (cap', rest) \<Longrightarrow> CapBegin \<notin> set rs \<Longrightarrow> cap' = cap"
proof (induction rs arbitrary: s)
  case (Cons r rs)
  then show ?case
    by (cases r) (auto split: list.splits if_splits dest!: backtrack_Some)
qed simp

lemma rx_match_group:
  assumes "rx_match (pre @ [CapBegin, Many lo hi p, CapEnd] @ post) op cap0 s = Some (cap, rest)"
    and "CapBegin \<notin> set post"
  shows "(\<forall>c \<in> set cap. p c) \<and> lo \<le> length cap \<and> (\<forall>h. hi = Some h \<longrightarrow> length cap \<le> h)"
  using assms(1)
proof (induction pre arbitrary: op cap0 s)
  case Nil
  then obtain k where k: "lo \<le> k" "k \<le> greedy_len hi p s"
    and m: "rx_match post False (take k s) (drop k s) = Some (cap, rest)"
    by (auto dest!: backtrack_Some)
  have "cap = take k s" using rx_match_closed [OF m assms(2)] .
  with k greedy_len_all [OF k(2)] show ?case by auto
next
  case (Cons r pre)
  show ?case
  proof (cases r)
    case (Many lo' hi' p')
    with Cons.prems obtain cap1 s1 where
      "rx_match (pre @ [CapBegin, Many lo hi p, CapEnd] @ post) op cap1 s1 = Some (cap, rest)"
      by (auto dest!: backtrack_Some)
    then show ?thesis by (rule Cons.IH)
  qed (use Cons in \<open>auto split: list.splits if_splits\<close>)
qed

lemma rx_search_match:
  "rx_search r s = Some m \<Longrightarrow> \<exists>s'. suffix s' s \<and> rx_match r False [] s' = Some m"
proof (induction r s rule: rx_search.induct)
  case (2 r c s)
  show ?case
  proof (cases "rx_match r False [] (c # s)")
    case None
    with 2 obtain s' where "suffix s' s" "rx_match r False [] s' = Some m" by auto
    then show ?thesis by (blast intro: suffix_ConsI)
  qed (use 2 in auto)
qed auto

lemma rx_search_group:
  assumes "rx_search (pre @ [CapBegin, Many lo hi p, CapEnd] @ post) s = Some (cap, rest)"
    and "CapBegin \<notin> set post"
  shows "(\<forall>c \<in> set cap. p c) \<and> lo \<le> length cap \<and> (\<forall>h. hi = Some h \<longrightarrow> length cap \<le> h)"
  using rx_search_match [OF assms(1)] rx_match_group [OF _ assms(2)] by blast

lemma rx_match_suffix: "rx_match rs op cap s = Some (cap', rest) \<Longrightarrow> suffix rest s"
proof (induction rs arbitrary: op cap s)
  case (Cons r rs)
  show ?case
  proof (cases r)
    case (One p)
    with Cons show ?thesis by (fastforce split: list.splits if_splits intro: suffix_ConsI)
  next
    case (Many lo hi p)
    with Cons.prems obtain k cap1 where "rx_match rs op cap1 (drop k s) = Some (cap', rest)"
      by (auto dest!: backtrack_Some)
    from Cons.IH [OF this] suffix_drop [of k s] show ?thesis using suffix_order.trans by blast
  qed (use Cons in auto)
qed simp

lemma rx_search_suffix: "rx_search r s = Some (cap, rest) \<Longrightarrow> suffix rest s"
  using rx_search_match rx_match_suffix suffix_order.trans by blast

lemma rx_all_searched:
  "cap \<in> set (rx_all r s) \<Longrightarrow> \<exists>s' rest. suffix s' s \<and> rx_search r s' = Some (cap, rest)"
proof (induction r s rule: rx_all.induct)
  case (1 r s)
  show ?case
  proof (cases "rx_search r s")
    case None
    then show ?thesis using 1 by (simp add: rx_all.simps [of r s])
  next
    case (Some m)
    obtain cap' rest where m: "m = (cap', rest)" by fastforce
    show ?thesis
    proof (cases "cap = cap'")
      case True
      then show ?thesis using Some m by blast
    next
      case False
      then have "length rest < length s" "cap \<in> set (rx_all r rest)"
        using 1(2) Some m by (auto simp: rx_all.simps [of r s] split: if_splits)
      then obtain s' rest' where "suffix s' rest" "rx_search r s' = Some (cap, rest')"
        using 1(1) Some m by blast
      moreover have "suffix rest s" using rx_search_suffix Some m by blast
      ultimately show ?thesis using suffix_order.trans by blast
    qed
  qed
qed

text \<open>The captures of a global expression, likewise; and there are no more of them than
  characters when every match is non-empty.\<close>

lemma rx_all_group:
  assumes "cap \<in> set (rx_all (pre @ [CapBegin, Many lo hi p, CapEnd] @ post) s)"
    and "CapBegin \<notin> set post"
  shows "(\<forall>c \<in> set cap. p c) \<and> lo \<le> length cap"
  using rx_all_searched [OF assms(1)] rx_search_group [OF _ assms(2)] by blast

lemma rx_all_length: "length (rx_all r s) \<le> Suc (length s)"
proof (induction r s rule: rx_all.induct)
  case (1 r s)
  show ?case
  proof (cases "rx_search r s")
    case None
    then show ?thesis by (simp add: rx_all.simps [of r s])
  next
    case (Some m)
    obtain cap rest where m: "m = (cap, rest)" by fastforce
    show ?thesis
    proof (cases "length rest < length s")
      case True
      then have "length (rx_all r rest) \<le> Suc (length rest)" using 1 Some m by blast
      with True Some m show ?thesis by (simp add: rx_all.simps [of r s])
    qed (use Some m in \<open>simp add: rx_all.simps [of r s]\<close>)
  qed
qed

lemma CapBegin_lit [simp]: "CapBegin \<notin> set (lit s)"
  by (auto simp: lit_def)

lemma CapBegin_any_but [simp]: "CapBegin \<noteq> any_but cs"
  by (simp add: any_but_def)

end
