(* ===== verification/Fetcher.thy ===== *)
theory Fetcher
  imports Regex Config Circuit
begin

text \<open>
  src/fetcher.ts: host names and the static blacklist, the DNS and robots caches, redirect
  following and body collection, and page parsing. URL parsing is Node's \<open>URL\<close> class, which
  implements the WHATWG standard outside this repository: it is the argument \<open>U\<close> (parse, or
  \<open>None\<close> where the constructor throws) and \<open>R\<close> (resolve a reference against a base, and
  serialise). The network is an argument too.
\<close>

section \<open>Hosts and the static blacklist\<close>

record url_parts =
  u_hostname :: string
  u_origin :: string
  u_pathname :: string

type_synonym url_parser = "url \<Rightarrow> url_parts option"
type_synonym url_resolver = "string \<Rightarrow> url \<Rightarrow> url option"

definition getDomain :: "url_parser \<Rightarrow> url \<Rightarrow> domain" where
  "getDomain U u = (case U u of None \<Rightarrow> [] | Some p \<Rightarrow> js_replace (u_hostname p) ''www.'' [])"

definition isBlacklisted :: "url_parser \<Rightarrow> url \<Rightarrow> bool" where
  "isBlacklisted U u =
    (case U u of
       None \<Rightarrow> True
     | Some p \<Rightarrow>
         (let h = js_replace (u_hostname p) ''www.'' []
          in list_ex (\<lambda>d. h = d \<or> js_endsWith h (''.'' @ d)) BLACKLIST))"

section \<open>The DNS cache\<close>

type_synonym dns_cache = "(string \<times> string) list"

definition evictDnsCache :: "nat \<Rightarrow> dns_cache \<Rightarrow> nat \<times> dns_cache" where
  "evictDnsCache maxSize m =
    (if length m \<le> maxSize then (0, m)
     else (let del = length m div 2 in (del, delete_oldest del m)))"

text \<open>
  \<open>resolveDns\<close>: the cached address, else the first A record, else the system lookup;
  \<open>None\<close> is an error of the resolver, and \<open>timely\<close> says that \<open>resolve4\<close>
  called back before the timer (a late answer still fills the cache, but the promise is
  already rejected).
\<close>

definition resolveDns ::
  "string list option \<Rightarrow> string option \<Rightarrow> bool \<Rightarrow> string \<Rightarrow> dns_cache \<Rightarrow> string option \<times> dns_cache" where
  "resolveDns resolve4 lookup timely host m =
    (case map_of m host of
       Some a \<Rightarrow> (Some a, m)
     | None \<Rightarrow>
       (case resolve4 of
          Some (a # _) \<Rightarrow> (if timely then Some a else None, AList.update host a m)
        | _ \<Rightarrow> (case lookup of
                 None \<Rightarrow> (None, m)
               | Some a \<Rightarrow> (if timely then Some a else None, AList.update host a m))))"

section \<open>robots.txt\<close>

definition match_user_agent :: "string \<Rightarrow> bool" where
  "match_user_agent s \<longleftrightarrow> js_startsWith (js_lower s) ''user-agent:''"

definition match_user_agent_star :: "string \<Rightarrow> bool" where
  "match_user_agent_star s \<longleftrightarrow>
    match_user_agent s \<and> js_startsWith (dropWhile is_ws (drop 11 s)) ''*''"

text \<open>
  On a trimmed line \<open>/^disallow:\s*(.+)/i\<close> matches when something is left after the colon:
  the last character of the line is not white space, so \<open>.+\<close> has a character to take.
\<close>

definition match_disallow :: "string \<Rightarrow> bool" where
  "match_disallow s \<longleftrightarrow> js_startsWith (js_lower s) ''disallow:'' \<and> drop 9 s \<noteq> []"

fun parse_robots_lines :: "string list \<Rightarrow> bool \<Rightarrow> string list \<Rightarrow> string list" where
  "parse_robots_lines [] inOurAgent blocked = blocked"
| "parse_robots_lines (l # ls) inOurAgent blocked =
    (let trimmed = js_trim l in
     if match_user_agent_star trimmed then parse_robots_lines ls True blocked
     else if match_user_agent trimmed then parse_robots_lines ls False blocked
     else if inOurAgent \<and> match_disallow trimmed then
       (let path = js_trim (dropWhile is_ws (drop 9 trimmed))
        in parse_robots_lines ls inOurAgent (if path \<noteq> [] then blocked @ [path] else blocked))
     else parse_robots_lines ls inOurAgent blocked)"

definition parseRobotsTxt :: "string \<Rightarrow> string list" where
  "parseRobotsTxt body = parse_robots_lines (js_split (CHR 0x0A) body) False []"

definition ROBOTS_CACHE_MAX :: nat where "ROBOTS_CACHE_MAX = 10000"

type_synonym robots_cache = "(string \<times> string list option) list"

definition path_blocked :: "string \<Rightarrow> string list \<Rightarrow> bool" where
  "path_blocked pathname blocked \<longleftrightarrow> list_ex (\<lambda>p. js_startsWith pathname p) blocked"

text \<open>
  \<open>checkRobotsTxt\<close>: \<open>fetch\<close> is what \<open>fetchHtml\<close> gives for a URL (\<open>None\<close> when it rejects). The
  handler of a failure stores \<open>null\<close> under the page's URL.
\<close>

definition checkRobotsTxt ::
  "url_parser \<Rightarrow> (url \<Rightarrow> string option) \<Rightarrow> url \<Rightarrow> robots_cache \<Rightarrow> bool \<times> robots_cache" where
  "checkRobotsTxt U fetch u m =
    (case U u of
       None \<Rightarrow> (True, AList.update u None m)
     | Some parsed \<Rightarrow>
       (case map_of m (u_origin parsed) of
          Some None \<Rightarrow> (True, m)
        | Some (Some cached) \<Rightarrow> (\<not> path_blocked (u_pathname parsed) cached, m)
        | None \<Rightarrow>
          (case fetch (u_origin parsed @ ''/robots.txt'') of
             None \<Rightarrow> (True, AList.update u None m)
           | Some html \<Rightarrow>
             (let blocked = parseRobotsTxt html;
                  m = AList.update (u_origin parsed) (if blocked \<noteq> [] then Some blocked else None) m;
                  m = (if length m > ROBOTS_CACHE_MAX then delete_oldest (ROBOTS_CACHE_MAX div 2) m else m)
              in (\<not> path_blocked (u_pathname parsed) blocked, m)))))"

section \<open>Fetching\<close>

text \<open>One HTTP exchange: no response in time, a transport error, or a response.\<close>

record response_head =
  statusCode :: int
  location :: "string option"
  content_type :: "string option"

datatype exchange = TimedOut | TransportError string | Response response_head "string list"

datatype fetch_error = Redirects | Timeout | NetError string | HttpStatus int | NotHtml

text \<open>
  The body: chunks are kept while the running size is below 512 KB; the response is
  destroyed when a chunk arrives and the size before it was exactly 512 KB.
\<close>

definition MAX_BODY :: nat where "MAX_BODY = 512 * 1024"

fun collect_body :: "string list \<Rightarrow> nat \<Rightarrow> string list \<Rightarrow> string list \<times> bool" where
  "collect_body [] sz kept = (kept, False)"
| "collect_body (c # cs) sz kept =
    (let sz' = sz + length c in
     if sz' < MAX_BODY then collect_body cs sz' (kept @ [c])
     else if sz' = length c + MAX_BODY then (kept, True)
     else collect_body cs sz' kept)"

text \<open>
  Text decoding is Node's \<open>TextDecoder\<close>: \<open>decode enc bytes\<close>, \<open>None\<close> where it throws on an
  unknown label; \<open>utf8\<close> is \<open>buf.toString("utf-8")\<close>, which never throws.
\<close>

definition charset_in_type :: "rx list" where
  "charset_in_type =
    map (\<lambda>c. One (\<lambda>x. x = c)) ''charset='' @ [CapBegin, Many 1 None (\<lambda>c. \<not> is_ws c \<and> c \<noteq> CHR '';''), CapEnd]"

definition meta_charset :: "rx list" where
  "meta_charset =
    lit ''<meta'' @ [Many 1 None (\<lambda>c. c \<noteq> CHR ''>'')] @ lit ''charset='' @ [Many 0 (Some 1) quote_char] @
    [CapBegin, Many 1 None (\<lambda>c. \<not> quote_char c \<and> \<not> is_ws c \<and> c \<noteq> CHR '';'' \<and> c \<noteq> CHR ''>''), CapEnd]"

definition decode_body ::
  "(string \<Rightarrow> string \<Rightarrow> string option) \<Rightarrow> (string \<Rightarrow> string) \<Rightarrow> string \<Rightarrow> string \<Rightarrow> string" where
  "decode_body decode utf8 ct buf =
    (let enc = (case rx_search charset_in_type ct of
                  None \<Rightarrow> ''utf-8'' | Some (cap, _) \<Rightarrow> filter (\<lambda>c. \<not> quote_char c) cap);
         html = (if enc = ''utf-8'' \<or> enc = ''utf8'' then utf8 buf
                 else (case decode enc buf of Some h \<Rightarrow> h | None \<Rightarrow> utf8 buf))
     in case rx_search meta_charset html of
          Some (cs, _) \<Rightarrow> if cs \<noteq> enc then (case decode cs buf of Some h \<Rightarrow> h | None \<Rightarrow> html) else html
        | None \<Rightarrow> html)"

text \<open>
  The result of \<open>fetchHtmlRaw\<close>. \<open>Uncaught\<close>: resolving a \<open>Location\<close> header throws inside the
  response callback, outside the promise, which ends the process.
\<close>

datatype fetch_result = Fetched string url | Rejected fetch_error | Uncaught

record web =
  resolve_ref :: url_resolver
  http_get :: "url \<Rightarrow> exchange"
  text_decode :: "string \<Rightarrow> string \<Rightarrow> string option"
  utf8_decode :: "string \<Rightarrow> string"

definition is_redirect :: "response_head \<Rightarrow> bool" where
  "is_redirect r \<longleftrightarrow> statusCode r \<ge> 300 \<and> statusCode r < 400 \<and> or_str (location r) [] \<noteq> []"

function fetchHtmlRaw :: "web \<Rightarrow> url \<Rightarrow> nat \<Rightarrow> fetch_result" where
  "fetchHtmlRaw W u depth =
    (if depth > 5 then Rejected Redirects else
     case http_get W u of
       TimedOut \<Rightarrow> Rejected Timeout
     | TransportError e \<Rightarrow> Rejected (NetError e)
     | Response r chunks \<Rightarrow>
       (if is_redirect r then
          (let loc = or_str (location r) [] in
           if js_startsWith loc ''http'' then fetchHtmlRaw W loc (depth + 1)
           else (case resolve_ref W loc u of
                   None \<Rightarrow> Uncaught
                 | Some v \<Rightarrow> fetchHtmlRaw W v (depth + 1)))
        else if statusCode r \<ge> 500 then Rejected (HttpStatus (statusCode r))
        else
          (let ct = js_lower (or_str (content_type r) []) in
           if \<not> js_includes ct ''text/html'' \<and> \<not> js_includes ct ''xhtml'' then Rejected NotHtml
           else (case collect_body chunks 0 [] of
                   (_, True) \<Rightarrow> Rejected Timeout
                 | (kept, False) \<Rightarrow>
                     Fetched (decode_body (text_decode W) (utf8_decode W) ct (concat kept)) u))))"
  by pat_completeness auto
termination
  by (relation "measure (\<lambda>(W, u, depth). 6 - depth)") auto

declare fetchHtmlRaw.simps [simp del]

section \<open>Parsing a page\<close>

fun collapse_ws :: "bool \<Rightarrow> string \<Rightarrow> string" where
  "collapse_ws inws [] = []"
| "collapse_ws inws (c # s) =
    (if is_ws c then (if inws then collapse_ws True s else CHR '' '' # collapse_ws True s)
     else c # collapse_ws False s)"

definition rx_quote :: rx where "rx_quote = One quote_char"

definition rx_quoted_text :: "rx list" where
  "rx_quoted_text = [rx_quote, CapBegin, Many 0 None (\<lambda>c. \<not> quote_char c), CapEnd, rx_quote]"

definition rx_title :: "rx list" where
  "rx_title = lit ''<title'' @ [any_but ''>''] @ lit ''>'' @
    [CapBegin, Many 0 None (\<lambda>c. c \<noteq> CHR ''<''), CapEnd] @ lit ''</title>''"

definition rx_meta :: "string \<Rightarrow> string \<Rightarrow> rx list" where
  "rx_meta attr name =
    lit ''<meta'' @ [Many 1 None is_ws, any_but ''>''] @ lit attr @ lit ''='' @ [rx_quote] @ lit name @
    [rx_quote, any_but ''>''] @ lit ''content='' @ rx_quoted_text"

definition rx_meta_rev :: "string \<Rightarrow> string \<Rightarrow> rx list" where
  "rx_meta_rev attr name =
    lit ''<meta'' @ [Many 1 None is_ws, any_but ''>''] @ lit ''content='' @ rx_quoted_text @
    [any_but ''>''] @ lit attr @ lit ''='' @ [rx_quote] @ lit name @ [rx_quote]"

definition rx_lang :: "rx list" where
  "rx_lang = lit ''<html'' @ [any_but ''>'', One is_ws] @ lit ''lang='' @
    [rx_quote, CapBegin, Many 2 (Some 3) letter, CapEnd, rx_quote]"

definition rx_href :: "rx list" where
  "rx_href = lit ''href='' @
    [rx_quote, CapBegin, Many 1 None (\<lambda>c. \<not> quote_char c \<and> c \<noteq> CHR ''#''), CapEnd]"

record ParsedPage =
  p_title :: string
  p_metaDescription :: string
  p_ogTitle :: string
  p_ogDescription :: string
  p_lang :: string
  p_links :: "url list"
  p_contentLength :: nat

definition capture :: "(string \<times> string) option \<Rightarrow> string" where
  "capture m = (case m of None \<Rightarrow> [] | Some (cap, _) \<Rightarrow> cap)"

definition page_links :: "url_resolver \<Rightarrow> url \<Rightarrow> string list \<Rightarrow> url list" where
  "page_links R u hrefs =
    filter (\<lambda>a. js_startsWith a ''http'') (List.map_filter (\<lambda>h. R h u) hrefs)"

definition parsePage :: "url_resolver \<Rightarrow> string \<Rightarrow> url \<Rightarrow> ParsedPage" where
  "parsePage R html u =
    \<lparr> p_title = js_trim (collapse_ws False (capture (rx_search rx_title html))),
      p_metaDescription = take 1000 (capture
        (case rx_search (rx_meta ''name'' ''description'') html of
           Some m \<Rightarrow> Some m | None \<Rightarrow> rx_search (rx_meta_rev ''name'' ''description'') html)),
      p_ogTitle = capture (rx_search (rx_meta ''property'' ''og:title'') html),
      p_ogDescription = take 1000 (capture (rx_search (rx_meta ''property'' ''og:description'') html)),
      p_lang = capture (rx_search rx_lang html),
      p_links = page_links R u (rx_all rx_href html),
      p_contentLength = length html \<rparr>"

section \<open>Properties of parsed pages\<close>

lemma capture_group:
  assumes "rx = pre @ [CapBegin, Many lo hi p, CapEnd] @ post" and "CapBegin \<notin> set post"
  shows "(\<forall>c \<in> set (capture (rx_search rx s)). p c) \<and>
    (capture (rx_search rx s) = [] \<or>
      lo \<le> length (capture (rx_search rx s)) \<and> (\<forall>h. hi = Some h \<longrightarrow> length (capture (rx_search rx s)) \<le> h))"
  using rx_search_group [of pre lo hi p post s] assms
  by (cases "rx_search rx s") (auto simp: capture_def)

text \<open>Every pattern of the parser has its group in the shape of \<open>capture_group\<close>.\<close>

lemma title_capture: "\<forall>c \<in> set (capture (rx_search rx_title s)). c \<noteq> CHR ''<''"
  using capture_group [of rx_title "lit ''<title'' @ [any_but ''>''] @ lit ''>''" 0 None _ "lit ''</title>''" s]
  by (simp add: rx_title_def)

lemma meta_capture: "\<forall>c \<in> set (capture (rx_search (rx_meta attr name) s)). \<not> quote_char c"
  using capture_group [of "rx_meta attr name" "lit ''<meta'' @ [Many 1 None is_ws, any_but ''>''] @ lit attr @
      lit ''='' @ [rx_quote] @ lit name @ [rx_quote, any_but ''>''] @ lit ''content='' @ [rx_quote]"
      0 None "\<lambda>c. \<not> quote_char c" "[rx_quote]" s]
  by (simp add: rx_meta_def rx_quoted_text_def rx_quote_def)

lemma meta_rev_capture: "\<forall>c \<in> set (capture (rx_search (rx_meta_rev attr name) s)). \<not> quote_char c"
  using capture_group [of "rx_meta_rev attr name" "lit ''<meta'' @ [Many 1 None is_ws, any_but ''>''] @
      lit ''content='' @ [rx_quote]" 0 None "\<lambda>c. \<not> quote_char c"
      "[rx_quote, any_but ''>''] @ lit attr @ lit ''='' @ [rx_quote] @ lit name @ [rx_quote]" s]
  by (auto simp: rx_meta_rev_def rx_quoted_text_def rx_quote_def any_but_def)

lemma lang_capture:
  "(\<forall>c \<in> set (capture (rx_search rx_lang s)). letter c) \<and>
   (capture (rx_search rx_lang s) = [] \<or>
    2 \<le> length (capture (rx_search rx_lang s)) \<and> length (capture (rx_search rx_lang s)) \<le> 3)"
  using capture_group [of rx_lang "lit ''<html'' @ [any_but ''>'', One is_ws] @ lit ''lang='' @ [rx_quote]"
      2 "Some 3" letter "[rx_quote]" s]
  by (simp add: rx_lang_def rx_quote_def)

text \<open>Runs of white space become one space.\<close>

definition single_spaced :: "string \<Rightarrow> bool" where
  "single_spaced s \<longleftrightarrow> (\<forall>c \<in> set s. is_ws c \<longrightarrow> c = CHR '' '') \<and>
     successively (\<lambda>a b. \<not> (is_ws a \<and> is_ws b)) s"

lemma collapse_props:
  "(\<forall>c \<in> set (collapse_ws w s). is_ws c \<longrightarrow> c = CHR '' '') \<and>
   successively (\<lambda>a b. \<not> (is_ws a \<and> is_ws b)) (collapse_ws w s) \<and>
   (w \<longrightarrow> collapse_ws w s = [] \<or> \<not> is_ws (hd (collapse_ws w s)))"
  by (induction w s rule: collapse_ws.induct) (auto simp: successively_Cons)

lemma collapse_single_spaced: "single_spaced (collapse_ws False s)"
  using collapse_props [of False s] by (simp add: single_spaced_def)

lemma single_spaced_sublist:
  assumes "single_spaced (a @ b @ c)" shows "single_spaced b"
  using assms by (auto simp: single_spaced_def successively_append_iff)

lemma js_trim_sublist: "\<exists>a c. s = a @ js_trim s @ c"
proof -
  have "s = takeWhile is_ws s @ dropWhile is_ws s" by simp
  moreover have "dropWhile is_ws s = js_trim s @ rev (takeWhile is_ws (rev (dropWhile is_ws s)))"
    unfolding js_trim_def by (metis rev_append rev_rev_ident takeWhile_dropWhile_id)
  ultimately show ?thesis by metis
qed

lemma single_spaced_trim: "single_spaced s \<Longrightarrow> single_spaced (js_trim s)"
  using js_trim_sublist [of s] single_spaced_sublist by metis

lemma set_collapse_ws: "c \<in> set (collapse_ws w s) \<Longrightarrow> c \<in> set s \<or> c = CHR '' ''"
  by (induction w s rule: collapse_ws.induct) (auto split: if_splits)


section \<open>Properties of fetching\<close>

lemma collect_body_prefix:
  "collect_body cs sz kept = (kept', d) \<Longrightarrow> sz = length (concat kept) \<Longrightarrow> sz < MAX_BODY \<Longrightarrow>
    \<exists>n. kept' = kept @ take n cs \<and> length (concat kept') < MAX_BODY"
proof -
  have over: "sz \<ge> MAX_BODY \<Longrightarrow> collect_body cs sz kept = (kept', d) \<Longrightarrow> kept' = kept" for cs sz kept
  proof (induction cs arbitrary: sz)
    case (Cons c cs)
    then show ?case using Cons.IH [of "sz + length c"] by (auto simp: Let_def split: if_splits)
  qed simp
  show "collect_body cs sz kept = (kept', d) \<Longrightarrow> sz = length (concat kept) \<Longrightarrow> sz < MAX_BODY \<Longrightarrow> ?thesis"
  proof (induction cs arbitrary: sz kept)
    case Nil
    then show ?case by auto
  next
    case (Cons c cs)
    show ?case
    proof (cases "sz + length c < MAX_BODY")
      case True
      with Cons.prems Cons.IH [of "sz + length c" "kept @ [c]"] obtain n
        where "kept' = (kept @ [c]) @ take n cs" "length (concat kept') < MAX_BODY"
        by (auto simp: Let_def)
      then show ?thesis by (intro exI [of _ "Suc n"]) simp
    next
      case False
      with Cons.prems over [of "sz + length c" cs kept] have "kept' = kept"
        by (auto simp: Let_def split: if_splits)
      with Cons.prems show ?thesis by (intro exI [of _ 0]) simp
    qed
  qed
qed

text \<open>Body limit: what \<open>fetchHtmlRaw\<close> decodes is always a prefix of the chunks received and
  stays below 512 KB. The download itself is cut short only if some prefix of the chunks adds up
  to exactly 512 KB; otherwise every chunk of an oversized page is still read.\<close>

theorem body_limit:
  assumes "collect_body cs 0 [] = (kept, destroyed)"
  shows "(\<exists>n. kept = take n cs) \<and> length (concat kept) < MAX_BODY \<and>
    (destroyed \<longrightarrow> (\<exists>n. length (concat (take n cs)) = MAX_BODY))"
proof -
  have cut: "\<exists>n. sz + length (concat (take n cs)) = MAX_BODY"
    if "destroyed" and "collect_body cs sz k = (kept, destroyed)" for sz k cs
    using that
  proof (induction cs arbitrary: sz k)
    case (Cons c cs)
    show ?case
    proof (cases "sz = MAX_BODY")
      case True
      then show ?thesis by (intro exI [of _ 0]) simp
    next
      case False
      with Cons.prems obtain k' where "collect_body cs (sz + length c) k' = (kept, destroyed)"
        by (auto simp: Let_def split: if_splits)
      from Cons.IH [OF Cons.prems(1) this] obtain n
        where "sz + length c + length (concat (take n cs)) = MAX_BODY" by blast
      then show ?thesis by (intro exI [of _ "Suc n"]) simp
    qed
  qed simp
  show ?thesis
    using cut [OF _ assms] collect_body_prefix [OF assms] by (auto simp: MAX_BODY_def)
qed

lemma body_limit_witness:
  "\<exists>n. length (concat (take n [replicate MAX_BODY CHR ''a'', ''b''])) = MAX_BODY"
proof -
  have "collect_body [replicate MAX_BODY CHR ''a'', ''b''] 0 [] = ([], True)"
    by (simp add: MAX_BODY_def Let_def)
  from body_limit [OF this] show ?thesis by blast
qed

text \<open>One redirect: the response of \<open>u\<close> sends the client to \<open>v\<close>.\<close>

definition hop :: "web \<Rightarrow> url \<Rightarrow> url \<Rightarrow> bool" where
  "hop W u v \<longleftrightarrow> (\<exists>r cs. http_get W u = Response r cs \<and> is_redirect r \<and>
     (if js_startsWith (the (location r)) ''http'' then v = the (location r)
      else resolve_ref W (the (location r)) u = Some v))"

definition serves_html :: "web \<Rightarrow> url \<Rightarrow> bool" where
  "serves_html W u \<longleftrightarrow> (\<exists>r cs ct. http_get W u = Response r cs \<and> \<not> is_redirect r \<and> statusCode r < 500 \<and>
     content_type r = Some ct \<and>
     (js_includes (js_lower ct) ''text/html'' \<or> js_includes (js_lower ct) ''xhtml''))"

lemma or_str_nonempty: "or_str x [] \<noteq> [] \<Longrightarrow> x = Some (or_str x [])"
  by (auto simp: or_str_def split: option.splits if_splits)

lemma html_type_given:
  assumes "js_includes (js_lower (or_str x [])) ''text/html'' \<or> js_includes (js_lower (or_str x [])) ''xhtml''"
  shows "x = Some (or_str x [])"
proof -
  have "or_str x [] \<noteq> []" using assms by (auto simp: js_lower_def)
  then show ?thesis by (rule or_str_nonempty)
qed

lemma fetch_redirect:
  assumes "depth \<le> 5" and "http_get W u = Response r cs" and "is_redirect r"
  shows "fetchHtmlRaw W u depth =
    (case (if js_startsWith (the (location r)) ''http'' then Some (the (location r))
           else resolve_ref W (the (location r)) u) of
       None \<Rightarrow> Uncaught | Some v \<Rightarrow> fetchHtmlRaw W v (depth + 1))"
proof -
  have l: "or_str (location r) [] = the (location r)"
    using assms(3) or_str_nonempty [of "location r"] by (metis is_redirect_def option.sel)
  show ?thesis
    using assms(1) by (simp add: fetchHtmlRaw.simps [of W u depth] assms(2,3) l Let_def)
qed

lemma fetched_chain:
  "fetchHtmlRaw W u depth = Fetched h v \<Longrightarrow>
    \<exists>n. depth + n \<le> 5 \<and> (hop W ^^ n) u v \<and> serves_html W v"
proof (induction W u depth rule: fetchHtmlRaw.induct)
  case (1 W u depth)
  have d: "depth \<le> 5" using "1.prems" by (auto simp: fetchHtmlRaw.simps [of W u depth] split: if_splits)
  from "1.prems" d obtain r cs where resp: "http_get W u = Response r cs"
    by (cases "http_get W u") (auto simp: fetchHtmlRaw.simps [of W u depth])
  show ?case
  proof (cases "is_redirect r")
    case True
    let ?t = "if js_startsWith (the (location r)) ''http'' then Some (the (location r))
           else resolve_ref W (the (location r)) u"
    from "1.prems" fetch_redirect [OF d resp True] obtain w where w: "?t = Some w"
      and f: "fetchHtmlRaw W w (depth + 1) = Fetched h v" by (auto split: option.splits)
    have hopw: "hop W u w" using resp True w by (auto simp: hop_def split: if_splits)
    have l: "or_str (location r) [] = the (location r)"
      using True or_str_nonempty [of "location r"] by (metis is_redirect_def option.sel)
    have "\<exists>n. depth + 1 + n \<le> 5 \<and> (hop W ^^ n) w v \<and> serves_html W v"
    proof (cases "js_startsWith (the (location r)) ''http''")
      case http: True
      then show ?thesis using 1(1) [of r cs] d resp True f w l by simp
    next
      case http: False
      then show ?thesis using 1(2) [of r cs _ w] d resp True f w l by simp
    qed
    then obtain n where n: "depth + 1 + n \<le> 5" "(hop W ^^ n) w v" "serves_html W v" by blast
    from relpowp_Suc_I2 [of "hop W", OF hopw n(2)] n(1,3) show ?thesis
      by (intro exI [of _ "Suc n"]) simp
  next
    case False
    have uv: "u = v" and "serves_html W u"
      using "1.prems" d resp False html_type_given [of "content_type r"]
      by (auto simp: fetchHtmlRaw.simps [of W u depth] serves_html_def Let_def
          split: if_splits prod.splits bool.splits)
    then show ?thesis using d by (intro exI [of _ 0]) (simp flip: uv)
  qed
qed

text \<open>C28. A fetched page is one the web served: if \<open>fetchHtmlRaw\<close> returns a document with final URL
  \<open>v\<close>, then \<open>v\<close> is reached from the requested URL by at most five redirects, and \<open>v\<close> itself
  answered without a redirect, with a status below 500 and an HTML content type.\<close>

theorem fetched_pages_are_served:
  assumes "fetchHtmlRaw W u 0 = Fetched h v"
  shows "\<exists>n \<le> 5. (hop W ^^ n) u v \<and> serves_html W v"
  using fetched_chain [OF assms] by auto

definition demo_web :: web where
  "demo_web = \<lparr> resolve_ref = (\<lambda>r b. if r = ''//['' then None else Some (''http://h'' @ r)),
     http_get = (\<lambda>u. if u = ''http://h/a'' then Response \<lparr>statusCode = 301, location = Some ''/b'', content_type = None\<rparr> []
       else if u = ''http://h/bad'' then Response \<lparr>statusCode = 302, location = Some ''//['', content_type = None\<rparr> []
       else if u = ''http://h/b'' then Response \<lparr>statusCode = 200, location = None, content_type = Some ''text/html''\<rparr> [''x'']
       else TransportError ''refused''),
     text_decode = (\<lambda>_ _. None), utf8_decode = id \<rparr>"

lemma demo_fetch: "fetchHtmlRaw demo_web ''http://h/a'' 0 = Fetched ''x'' ''http://h/b''"
proof -
  have "fetchHtmlRaw demo_web ''http://h/b'' 1 = Fetched ''x'' ''http://h/b''"
    by (subst fetchHtmlRaw.simps)
      (simp add: demo_web_def is_redirect_def or_str_def js_lower_def char_lower_def decode_body_def
        charset_in_type_def meta_charset_def lit_def Let_def MAX_BODY_def)
  then show ?thesis
    by (subst fetchHtmlRaw.simps) (simp add: demo_web_def is_redirect_def or_str_def Let_def)
qed

lemma fetched_pages_are_served_witness:
  "\<exists>n \<le> 5. (hop demo_web ^^ n) ''http://h/a'' ''http://h/b'' \<and> serves_html demo_web ''http://h/b''"
  by (rule fetched_pages_are_served [OF demo_fetch])

text \<open>A hostile redirect kills the crawler: when a page answers with a redirect whose
  \<open>Location\<close> does not start with \<open>http\<close> and is not a valid reference, the exception escapes the
  promise, at any point of a redirect chain of at most five steps.\<close>

theorem malformed_location_escapes:
  assumes "(hop W ^^ n) u v" and "n \<le> 5"
    and "http_get W v = Response r cs" and "is_redirect r"
    and "\<not> js_startsWith (the (location r)) ''http''" and "resolve_ref W (the (location r)) v = None"
  shows "fetchHtmlRaw W u 0 = Uncaught"
proof -
  have "(hop W ^^ n) u v \<Longrightarrow> depth + n \<le> 5 \<Longrightarrow> fetchHtmlRaw W u depth = Uncaught" for depth
  proof (induction n arbitrary: u depth)
    case 0
    then have "u = v" by simp
    then show ?case using 0 assms(3-6) fetch_redirect [of depth W u r cs] by simp
  next
    case (Suc n)
    from Suc.prems(1) obtain w where w: "hop W u w" "(hop W ^^ n) w v" by (metis relpowp_Suc_D2)
    from w(1) obtain r' cs' where r': "http_get W u = Response r' cs'" "is_redirect r'"
      "(if js_startsWith (the (location r')) ''http'' then Some (the (location r'))
           else resolve_ref W (the (location r')) u) = Some w"
      by (auto simp: hop_def split: if_splits)
    have "fetchHtmlRaw W w (depth + 1) = Uncaught" using Suc.IH [OF w(2), of "depth + 1"] Suc.prems(2) by simp
    then show ?case using fetch_redirect [of depth W u r' cs'] r' Suc.prems(2) by simp
  qed
  from this [OF assms(1), of 0] assms(2) show ?thesis by simp
qed

lemma malformed_location_escapes_witness: "fetchHtmlRaw demo_web ''http://h/bad'' 0 = Uncaught"
  by (rule malformed_location_escapes [where n = 0 and v = "''http://h/bad''"
      and r = "\<lparr>statusCode = 302, location = Some ''//['', content_type = None\<rparr>" and cs = "[]"])
    (simp_all add: demo_web_def is_redirect_def or_str_def)


section \<open>Robots\<close>

text \<open>
  \<open>fetchHtml\<close>: the raw fetch behind the breaker named http-fetch, whose fallback rethrows.
  \<open>None\<close> is a fetch that never settles because its callback threw.
\<close>

definition fetchHtml :: "time_ms \<Rightarrow> time_ms \<Rightarrow> web \<Rightarrow> url \<Rightarrow> CircuitBreaker \<Rightarrow>
    (fetch_error option + string \<times> url) option \<times> CircuitBreaker" where
  "fetchHtml t0 t1 W u b =
    (case cb_admit t0 b of
       (Admit, b') \<Rightarrow>
         (case fetchHtmlRaw W u 0 of
            Fetched html v \<Rightarrow> (Some (Inr (html, v)), cb_onSuccess t1 b')
          | Rejected e \<Rightarrow> (Some (Inl (Some e)), cb_onFailure t1 b')
          | Uncaught \<Rightarrow> (None, b'))
     | (_, b') \<Rightarrow> (Some (Inl None), b'))"

definition fetched_text :: "time_ms \<Rightarrow> time_ms \<Rightarrow> web \<Rightarrow> CircuitBreaker \<Rightarrow> url \<Rightarrow> string option" where
  "fetched_text t0 t1 W b u =
    (case fst (fetchHtml t0 t1 W u b) of Some (Inr (html, v)) \<Rightarrow> Some html | _ \<Rightarrow> None)"

lemma fetched_text_raw:
  "fetched_text t0 t1 W b u = Some h \<Longrightarrow> \<exists>v. fetchHtmlRaw W u 0 = Fetched h v"
  by (auto simp: fetched_text_def fetchHtml_def split: prod.splits admission.splits fetch_result.splits)

text \<open>A series of robots checks, each with the fetches of its own moment.\<close>

fun robots_checks ::
  "url_parser \<Rightarrow> (url \<times> (url \<Rightarrow> string option)) list \<Rightarrow> robots_cache \<Rightarrow> bool list" where
  "robots_checks U [] m = []"
| "robots_checks U ((u, f) # es) m =
    (case checkRobotsTxt U f u m of (ok, m') \<Rightarrow> ok # robots_checks U es m')"

lemma plain_text_rejected:
  assumes "http_get W u = Response r cs" and "\<not> is_redirect r"
    and "content_type r = Some ct" and "\<not> js_includes (js_lower ct) ''text/html''"
    and "\<not> js_includes (js_lower ct) ''xhtml''"
  shows "fetched_text t0 t1 W b u = None"
proof (rule ccontr)
  assume "fetched_text t0 t1 W b u \<noteq> None"
  then obtain h v where "fetchHtmlRaw W u 0 = Fetched h v" using fetched_text_raw by blast
  with assms show False
    by (cases "ct = []") (auto simp: fetchHtmlRaw.simps [of W u 0] or_str_def Let_def js_lower_def
        split: if_splits)
qed

lemma failed_check_allows:
  assumes "\<And>p. U u = Some p \<Longrightarrow> fetch (u_origin p @ ''/robots.txt'') = None"
    and "\<forall>e \<in> set m. snd e = None"
  shows "fst (checkRobotsTxt U fetch u m) \<and> (\<forall>e \<in> set (snd (checkRobotsTxt U fetch u m)). snd e = None)"
proof -
  have upd: "\<forall>e \<in> set (AList.update u None m). snd e = None"
    using assms(2) by (induction m) auto
  have "map_of m k \<noteq> Some (Some c)" for k c
    using assms(2) by (metis map_of_SomeD option.distinct(1) snd_conv)
  with upd show ?thesis
    using assms by (auto simp: checkRobotsTxt_def split: option.splits)
qed

text \<open>A robots file served as plain text is never obeyed: when the origins of all checked URLs
  serve \<open>/robots.txt\<close> directly with a content type that is neither \<open>text/html\<close> nor \<open>xhtml\<close>
  (as RFC 9309 asks: \<open>text/plain\<close>), every check of every URL is allowed, whatever the files
  say, at any time and in any state of the breaker.\<close>

theorem robots_plain_text_ignored:
  assumes "\<forall>(u, f) \<in> set es. \<exists>t0 t1 b. f = fetched_text t0 t1 W b"
    and "\<forall>(u, f) \<in> set es. \<forall>p. U u = Some p \<longrightarrow>
      (\<exists>r cs ct. http_get W (u_origin p @ ''/robots.txt'') = Response r cs \<and> \<not> is_redirect r \<and>
         content_type r = Some ct \<and> \<not> js_includes (js_lower ct) ''text/html'' \<and>
         \<not> js_includes (js_lower ct) ''xhtml'')"
  shows "list_all id (robots_checks U es [])"
proof -
  have "\<forall>e \<in> set m. snd e = None \<Longrightarrow> list_all id (robots_checks U es m)" for m
    using assms
  proof (induction es arbitrary: m)
    case (Cons e es)
    obtain u f where e: "e = (u, f)" by (cases e)
    have none: "f (u_origin p @ ''/robots.txt'') = None" if "U u = Some p" for p
      using Cons.prems(2,3) that plain_text_rejected unfolding e by fastforce
    from failed_check_allows [of U u f m, OF none Cons.prems(1)]
    have step: "fst (checkRobotsTxt U f u m)" "\<forall>e \<in> set (snd (checkRobotsTxt U f u m)). snd e = None"
      by auto
    from Cons.IH [OF step(2)] Cons.prems(2,3) step(1) show ?case
      by (simp add: e split_beta)
  qed simp
  then show ?thesis by simp
qed

definition demo_robots :: web where
  "demo_robots = demo_web\<lparr> http_get := (\<lambda>u.
     Response \<lparr>statusCode = 200, location = None, content_type = Some ''text/plain''\<rparr>
       [''User-agent: *'' @ CHR 0x0A # ''Disallow: /'']) \<rparr>"

definition demo_parser :: url_parser where
  "demo_parser u = Some \<lparr> u_hostname = ''h'', u_origin = ''http://h'', u_pathname = drop 8 u \<rparr>"

lemma robots_plain_text_ignored_witness:
  "list_all id (robots_checks demo_parser
     [(''http://h/a'', fetched_text 0 0 demo_robots (new_CircuitBreaker \<lparr>o_name = None,
        o_failureThreshold = None, o_resetTimeout = None, o_halfOpenMax = None, o_monitorInterval = None\<rparr> 0))] [])"
  by (rule robots_plain_text_ignored [where W = demo_robots])
    (auto simp: demo_robots_def demo_parser_def is_redirect_def or_str_def js_lower_def char_lower_def)

text \<open>A robots file as sites write it, and what the parser makes of it.\<close>

definition robots_file :: "string list \<Rightarrow> string" where
  "robots_file ps = ''User-agent: *'' @ concat (map (\<lambda>p. CHR 0x0A # ''Disallow: '' @ p) ps)"

lemma split_robots:
  assumes "CHR 0x0A \<notin> set h" and "\<forall>p \<in> set ps. CHR 0x0A \<notin> set p"
  shows "js_split (CHR 0x0A) (h @ concat (map (\<lambda>p. CHR 0x0A # ''Disallow: '' @ p) ps))
    = h # map (\<lambda>p. ''Disallow: '' @ p) ps"
  using assms
proof (induction ps arbitrary: h)
  case Nil
  then show ?case by (simp add: js_split_no_sep)
next
  case (Cons p ps)
  from Cons.IH [of "''Disallow: '' @ p"] Cons.prems show ?case
    using js_split_app [OF Cons.prems(1)] by simp
qed

lemma js_trim_disallow:
  assumes "js_trim p = p" and "p \<noteq> []"
  shows "js_trim (''Disallow: '' @ p) = ''Disallow: '' @ p"
  using js_trim_ends [of p] assms by (intro js_trim_fixed) (auto simp: is_ws_def)

lemma parse_disallows:
  assumes "\<forall>p \<in> set ps. js_trim p = p \<and> p \<noteq> []"
  shows "parse_robots_lines (map (\<lambda>p. ''Disallow: '' @ p) ps) True blocked = blocked @ ps"
  using assms
proof (induction ps arbitrary: blocked)
  case (Cons p ps)
  then have p: "js_trim p = p" "p \<noteq> []" by auto
  have hd: "dropWhile is_ws p = p"
    using p js_trim_starts [of p] by (intro dropWhile_idem_hd) auto
  have parts: "js_lower (''Disallow: '' @ p) = ''disallow: '' @ js_lower p"
    "dropWhile is_ws ('' '' @ p) = p"
  proof -
    have "js_lower ''Disallow: '' = ''disallow: ''" by code_simp
    then show "js_lower (''Disallow: '' @ p) = ''disallow: '' @ js_lower p" by (simp add: js_lower_def)
    show "dropWhile is_ws ('' '' @ p) = p" using hd by (simp add: is_ws_def)
  qed
  then show ?case
    using Cons.IH [of "blocked @ [p]"] Cons.prems p hd js_trim_disallow [OF p]
    by (simp add: match_user_agent_star_def match_user_agent_def match_disallow_def Let_def)
qed simp

text \<open>C30. Robots round trip: the paths of a file of one \<open>User-agent: *\<close> group come back from the
  parser in order, for all paths without line breaks, outer white space or empty ones.\<close>

theorem robots_roundtrip:
  assumes "\<forall>p \<in> set ps. js_trim p = p \<and> p \<noteq> [] \<and> CHR 0x0A \<notin> set p"
  shows "parseRobotsTxt (robots_file ps) = ps"
proof -
  have "js_split (CHR 0x0A) (robots_file ps) = ''User-agent: *'' # map (\<lambda>p. ''Disallow: '' @ p) ps"
    unfolding robots_file_def by (rule split_robots) (use assms in auto)
  moreover have "match_user_agent_star (js_trim ''User-agent: *'')"
    by code_simp
  ultimately show ?thesis
    using parse_disallows [of ps "[]"] assms by (simp add: parseRobotsTxt_def Let_def)
qed

lemma robots_roundtrip_witness:
  "parseRobotsTxt (robots_file [''/private'', ''/a b'']) = [''/private'', ''/a b'']"
  by (rule robots_roundtrip) (simp add: js_trim_def is_ws_def)
end
