(* ===== verification/Seeds.thy ===== *)
theory Seeds
  imports StoreBackends Fetcher "HOL-Library.Multiset"
begin

text \<open>
  src/seeds.ts: the random choice of seed URLs and their insertion into the frontier. The
  random numbers are arguments. \<open>addSeedBatch\<close> awaits a statement per step, and other
  tasks of the crawler run in between: \<open>seed_step\<close> is one such segment, \<open>addSeedBatch\<close> the
  whole call when it runs alone.
\<close>

section \<open>Choosing seeds\<close>

definition getRandomSeeds ::
  "(url list \<Rightarrow> url list) \<Rightarrow> (string list \<Rightarrow> string list) \<Rightarrow> (nat \<Rightarrow> nat) \<Rightarrow> (nat \<Rightarrow> nat) \<Rightarrow> (nat \<Rightarrow> nat) \<Rightarrow>
   nat \<Rightarrow> url list" where
  "getRandomSeeds shuffleS shuffleW rlang rtopic rpage n =
    (let shuffledExtra = shuffleS SEEDS; shuffledWiki = shuffleW WIKI_TOPICS in
     take (min n (length shuffledExtra)) shuffledExtra @
     map (\<lambda>t. ''https://en.wikipedia.org/wiki/'' @ t) (take (min n (length shuffledWiki)) shuffledWiki) @
     map (\<lambda>i. ''https://'' @ WIKI_LANGS ! rlang i @ ''.wikipedia.org/wiki/'' @ WIKI_TOPICS ! rtopic i)
       [0..<min n 80] @
     map (\<lambda>i. ''https://en.wikipedia.org/w/index.php?special=recentchanges&limit=50&offset='' @
         js_digits ((rpage i + 1) * 50))
       [0..<min n 30])"

text \<open>Every URL the seeder draws starts with \<open>https://\<close>, and a draw of \<open>n\<close> gives at most
  \<open>n\<close> of each of the four kinds: for the batch of 500, exactly the whole seed list, every
  topic, 80 random articles and 30 listings, however the random choices fall.\<close>

theorem random_seeds_shape:
  assumes "\<And>xs. mset (shuffleS xs) = mset xs" and "\<And>xs. mset (shuffleW xs) = mset xs"
  shows "list_all (\<lambda>u. js_startsWith u ''https://'') (getRandomSeeds shuffleS shuffleW l t p n) \<and>
    length (getRandomSeeds shuffleS shuffleW l t p n) =
      min n (length SEEDS) + min n (length WIKI_TOPICS) + min n 80 + min n 30 \<and>
    (n = SEED_BATCH \<longrightarrow> set SEEDS \<subseteq> set (getRandomSeeds shuffleS shuffleW l t p n) \<and>
      length (getRandomSeeds shuffleS shuffleW l t p n) = 429)"
proof -
  have len: "length (shuffleS SEEDS) = length SEEDS" "length (shuffleW WIKI_TOPICS) = length WIKI_TOPICS"
    using assms by (metis size_mset)+
  have sub: "set (take n (shuffleS SEEDS)) \<subseteq> set SEEDS" for n
    using assms(1) set_take_subset by (metis mset_eq_setD)
  have https: "list_all (\<lambda>u. js_startsWith u ''https://'') SEEDS" by code_simp
  have total: "length SEEDS = 213 \<and> length WIKI_TOPICS = 106" by code_simp
  have all: "set (shuffleS SEEDS) = set SEEDS" using assms(1) by (metis mset_eq_setD)
  show ?thesis
    using https sub len total all
    by (auto simp: getRandomSeeds_def list_all_iff Let_def js_startsWith_prefix SEED_BATCH_def min_def)
qed

lemma random_seeds_shape_witness:
  "list_all (\<lambda>u. js_startsWith u ''https://'') (getRandomSeeds rev id (\<lambda>_. 0) (\<lambda>_. 1) id 2) \<and>
    length (getRandomSeeds rev id (\<lambda>_. 0) (\<lambda>_. 1) id 2) =
      min 2 (length SEEDS) + min 2 (length WIKI_TOPICS) + min 2 80 + min 2 30 \<and>
    ((2 :: nat) = SEED_BATCH \<longrightarrow> set SEEDS \<subseteq> set (getRandomSeeds rev id (\<lambda>_. 0) (\<lambda>_. 1) id 2) \<and>
      length (getRandomSeeds rev id (\<lambda>_. 0) (\<lambda>_. 1) id 2) = 429)"
  by (rule random_seeds_shape) simp_all

section \<open>Adding seeds\<close>

datatype seed_pc = S_Next bool "url list" | S_Checked bool bool url "url list" | S_Counted

datatype seed_out = Threw | Finished | Go seed_pc

text \<open>
  One segment of \<open>addSeedBatch\<close>; \<open>f\<close> says that the statement it runs throws. \<open>S_Next added us\<close>
  is the loop head, \<open>S_Checked v added u us\<close> the moment the answer \<open>v\<close> of \<open>isVisited\<close> is there.
\<close>

fun seed_step :: "'s Statements \<Rightarrow> bool \<Rightarrow> seed_pc \<Rightarrow> 's \<Rightarrow> seed_out \<times> 's" where
  "seed_step st f (S_Next added []) s =
     (if \<not> added then (Finished, s) else if f then (Threw, s) else (Go S_Counted, s))"
| "seed_step st f (S_Next added (u # us)) s =
     (if f then (Threw, s) else (Go (S_Checked (get_isVisited st u s) added u us), s))"
| "seed_step st f (S_Checked v added u us) s =
     (if v then (Go (S_Next added us), s)
      else if f then (Go (S_Next added us), s)
      else (Go (S_Next True us), run_insertFrontier st u 0 None s))"
| "seed_step st f S_Counted s = (Finished, s)"

fun seed_size :: "seed_pc \<Rightarrow> nat" where
  "seed_size (S_Next a us) = 2 * length us + 2"
| "seed_size (S_Checked v a u us) = 2 * length us + 3"
| "seed_size S_Counted = 0"

lemma seed_step_size: "seed_step st f pc s = (Go pc', s') \<Longrightarrow> seed_size pc' < seed_size pc"
  by (cases "(st, f, pc, s)" rule: seed_step.cases) (auto split: if_splits)

text \<open>The call run alone; the result says whether it returned normally.\<close>

function seed_run :: "'s Statements \<Rightarrow> (nat \<Rightarrow> bool) \<Rightarrow> nat \<Rightarrow> seed_pc \<Rightarrow> 's \<Rightarrow> bool \<times> 's" where
  "seed_run st fault i pc s =
    (case seed_step st (fault i) pc s of
       (Threw, s') \<Rightarrow> (False, s')
     | (Finished, s') \<Rightarrow> (True, s')
     | (Go pc', s') \<Rightarrow> seed_run st fault (Suc i) pc' s')"
  by pat_completeness auto
termination
  by (relation "measure (\<lambda>(st, fault, i, pc, s). seed_size pc)") (auto dest: seed_step_size [OF sym])

declare seed_run.simps [simp del]

definition addSeedBatch :: "'s Statements \<Rightarrow> (nat \<Rightarrow> bool) \<Rightarrow> url list \<Rightarrow> 's \<Rightarrow> bool \<times> 's" where
  "addSeedBatch st fault seeds s = seed_run st fault 0 (S_Next False seeds) s"

text \<open>\<open>seedInitialUrls\<close> swallows a failing insert.\<close>

fun seedInitialUrls :: "'s Statements \<Rightarrow> (nat \<Rightarrow> bool) \<Rightarrow> url list \<Rightarrow> 's \<Rightarrow> 's" where
  "seedInitialUrls st fault [] s = s"
| "seedInitialUrls st fault (u # us) s =
     seedInitialUrls st (\<lambda>i. fault (Suc i)) us
       (if fault 0 then s else run_insertFrontier st u 0 None s)"

context crawl_store
begin

lemma seed_step_store:
  "seed_step st f pc s = (out, s') \<Longrightarrow> ok s \<Longrightarrow> ok s' \<and> vis s' = vis s"
  by (cases "(st, f, pc, s)" rule: seed_step.cases)
    (auto split: if_splits simp: ok_insert insert_vis)

lemma seed_run_frame:
  "seed_run st fault i pc s = (r, s') \<Longrightarrow> ok s \<Longrightarrow> ok s' \<and> vis s' = vis s"
proof (induction "seed_size pc" arbitrary: i pc s rule: less_induct)
  case less
  obtain out t where step: "seed_step st (fault i) pc s = (out, t)" by fastforce
  from seed_step_store [OF step less.prems(2)] have t: "ok t \<and> vis t = vis s" .
  show ?case
  proof (cases out)
    case (Go pc')
    with less.prems(1) step have "seed_run st fault (Suc i) pc' t = (r, s')"
      by (simp add: seed_run.simps [of st fault i pc s])
    moreover have "seed_size pc' < seed_size pc" using step Go seed_step_size by metis
    ultimately show ?thesis using less.hyps t by metis
  qed (use less.prems(1) step t in \<open>auto simp: seed_run.simps [of st fault i pc s]\<close>)
qed

lemma seed_run_urls:
  "seed_run st (\<lambda>_. False) i (S_Next added us) s = (r, s') \<Longrightarrow>
    r \<and> f_url ` set (pend s') = f_url ` set (pend s) \<union> (set us - vis s) \<and> vis s' = vis s"
proof (induction us arbitrary: i added s)
  case Nil
  then show ?case by (cases added) (simp_all add: seed_run.simps)
next
  case (Cons u us)
  show ?case
  proof (cases "u \<in> vis s")
    case True
    with Cons.prems have "seed_run st (\<lambda>_. False) (Suc (Suc i)) (S_Next added us) s = (r, s')"
      by (subst (asm) seed_run.simps, simp add: visited_iff, subst (asm) seed_run.simps, simp)
    from Cons.IH [OF this] True show ?thesis by auto
  next
    case False
    let ?s = "run_insertFrontier st u 0 None s"
    from False Cons.prems have "seed_run st (\<lambda>_. False) (Suc (Suc i)) (S_Next True us) ?s = (r, s')"
      by (subst (asm) seed_run.simps, simp add: visited_iff, subst (asm) seed_run.simps, simp)
    from Cons.IH [OF this] False show ?thesis by (auto simp: insert_urls insert_vis)
  qed
qed

lemma seedInitial_urls:
  "vis (seedInitialUrls st (\<lambda>_. False) us s) = vis s \<and>
   f_url ` set (pend (seedInitialUrls st (\<lambda>_. False) us s)) = f_url ` set (pend s) \<union> set us"
  by (induction us arbitrary: s) (auto simp: insert_urls insert_vis)

end

text \<open>The seeder tops the frontier up: without database errors \<open>addSeedBatch\<close> returns, and the
  pending URLs are then those from before and the seeds not visited yet; the visited set is
  unchanged, and so is the shape of the tables.\<close>

theorem seed_batch_tops_up:
  assumes "store_ok s" and "addSeedBatch sqlite_statements (\<lambda>_. False) seeds s = (returned, s')"
  shows "returned \<and> store_ok s' \<and> visited s' = visited s \<and>
    f_url ` set (frontier s') = f_url ` set (frontier s) \<union> (set seeds - visited s)"
  using assms sqlite.seed_run_urls [of 0 False seeds s returned s'] sqlite.seed_run_frame [of "\<lambda>_. False" 0]
  unfolding addSeedBatch_def by blast

lemma seed_batch_tops_up_witness:
  "fst (addSeedBatch sqlite_statements (\<lambda>_. False) [''https://a'', ''https://b''] (markVisited ''https://a'' empty_sqlite)) \<and>
   f_url ` set (frontier (snd (addSeedBatch sqlite_statements (\<lambda>_. False) [''https://a'', ''https://b'']
     (markVisited ''https://a'' empty_sqlite)))) = {''https://b''}"
proof -
  let ?r = "addSeedBatch sqlite_statements (\<lambda>_. False) [''https://a'', ''https://b''] (markVisited ''https://a'' empty_sqlite)"
  have "store_ok (markVisited ''https://a'' empty_sqlite)" by (intro preserves)
  from seed_batch_tops_up [OF this, of "[''https://a'', ''https://b'']" "fst ?r" "snd ?r"] show ?thesis
    by (simp add: markVisited_def empty_sqlite_def)
qed

text \<open>The seeds are not checked against the blacklist: for a URL parser that reads their host
  right, the reddit seeds are blacklisted, and the seeding at start puts every seed into the
  frontier all the same.\<close>

theorem seeds_bypass_blacklist:
  assumes "U ''https://old.reddit.com/r/programming'' = Some p" and "u_hostname p = ''old.reddit.com''"
  shows "isBlacklisted U ''https://old.reddit.com/r/programming'' \<and>
    ''https://old.reddit.com/r/programming'' \<in>
      f_url ` set (frontier (seedInitialUrls sqlite_statements (\<lambda>_. False) SEEDS s))"
proof -
  have "list_ex (\<lambda>d. js_replace ''old.reddit.com'' ''www.'' [] = d \<or>
      js_endsWith (js_replace ''old.reddit.com'' ''www.'' []) (''.'' @ d)) BLACKLIST" by code_simp
  then have "isBlacklisted U ''https://old.reddit.com/r/programming''"
    using assms by (simp add: isBlacklisted_def Let_def)
  moreover have "list_ex (\<lambda>u. u = ''https://old.reddit.com/r/programming'') SEEDS" by code_simp
  then have "''https://old.reddit.com/r/programming'' \<in> set SEEDS" by (auto simp: list_ex_iff)
  ultimately show ?thesis using sqlite.seedInitial_urls [of SEEDS s] by auto
qed

lemma seeds_bypass_blacklist_witness:
  "isBlacklisted (\<lambda>u. Some \<lparr>u_hostname = ''old.reddit.com'', u_origin = [], u_pathname = []\<rparr>)
     ''https://old.reddit.com/r/programming''"
  using seeds_bypass_blacklist [of "\<lambda>u. Some \<lparr>u_hostname = ''old.reddit.com'', u_origin = [], u_pathname = []\<rparr>"]
  by simp

end
