(* ===== verification/CrawlLoop.thy ===== *)
theory CrawlLoop
  imports Seeds CrawlState
begin

text \<open>
  \<open>startCrawlLoop\<close> of src/queue.ts as a state machine. The crawler is one JavaScript thread:
  the code between two \<open>await\<close>s runs without interruption, and at an \<open>await\<close> any other
  pending task may run. A task is a pending continuation: a \<open>processNext\<close> call
  (\<open>Chain\<close>), a fetch started by one (\<open>Fetch\<close>, until its \<open>finally\<close> block has run), or the
  seeding of the statistics timer (\<open>Ticker\<close>). \<open>resume\<close> is one uninterrupted segment of a
  task; \<open>loop_step\<close> runs any task or any timer. A statement takes effect when it is
  called and its answer is used when the task resumes, as in the SQLite backend.
\<close>

section \<open>State\<close>

datatype chain_pc =
    P_Start
  | P_Yielded
  | P_Batch "frontier_row list"
  | P_Recrawl "url list"
  | P_Seeds seed_pc
  | P_Visited bool bool frontier_row "frontier_row list"
  | P_Skip bool "frontier_row list"
  | P_Robots bool frontier_row "frontier_row list" domain int
  | P_Blocked bool frontier_row "frontier_row list"

datatype fetch_pc =
    F_Flying
  | F_Saved bool ParsedPage url
  | F_Marked bool
  | F_Deleted bool
  | F_Ending

datatype task = Chain chain_pc | Fetch frontier_row domain fetch_pc | Ticker seed_pc

record 's loop =
  lp_db :: 's
  lp_cs :: crawl_state
  active :: int
  frontierCursor :: int
  cursorAnswer :: "int option"
  domainsChecked :: "string set"
  robotsCache :: robots_cache
  fullRefreshCount :: nat
  totalFetchTime :: int
  tasks :: "task list"
  crashed :: bool
  stopped :: bool

text \<open>
  What the outside contributes to one segment: does its statement throw, the clock, the time
  a fetch took, the answer of the network, the order the database gives, the seeds drawn. A fetch ends with a
  page, an error, or an exception outside every promise.
\<close>

record choices =
  ch_fault :: bool
  ch_txn_fault :: "nat \<Rightarrow> bool"
  ch_now :: int
  ch_robots :: "url \<Rightarrow> string option"
  ch_fetched :: fetch_result
  ch_pick :: "url list \<Rightarrow> url list"
  ch_pop :: "(domain \<times> int) list \<Rightarrow> (domain \<times> int) list"
  ch_ord :: "frontier_row list \<Rightarrow> frontier_row list"
  ch_seeds :: "url list"
  ch_refresh_fault :: "nat \<Rightarrow> bool"
  ch_elapsed :: int

definition spawn :: "task \<Rightarrow> 's loop \<Rightarrow> 's loop" where
  "spawn t s = s\<lparr>tasks := tasks s @ [t]\<rparr>"

definition crash :: "'s loop \<Rightarrow> 's loop" where
  "crash s = s\<lparr>crashed := True\<rparr>"

text \<open>A statement inside \<open>try \<dots> catch(e) {}\<close>: when it throws, nothing happens.\<close>

definition try_db :: "bool \<Rightarrow> ('s \<Rightarrow> 's) \<Rightarrow> 's loop \<Rightarrow> 's loop" where
  "try_db f g s = (if f then s else s\<lparr>lp_db := g (lp_db s)\<rparr>)"

section \<open>The loop over a batch\<close>

text \<open>One turn of the loop waits, goes on with the next row, or throws.\<close>

datatype turn = Await chain_pc | Continue bool | Throws

definition start_fetch :: "frontier_row \<Rightarrow> domain \<Rightarrow> int \<Rightarrow> 's loop \<Rightarrow> 's loop" where
  "start_fetch item domain inflight s =
    spawn (Fetch item domain F_Flying)
      (s\<lparr>active := active s + 1, lp_cs := setInflight domain (inflight + 1) (lp_cs s)\<rparr>)"

text \<open>From the robots cache to the start of the fetch.\<close>

definition robots_gate ::
  "'s Statements \<Rightarrow> url_parser \<Rightarrow> bool \<Rightarrow> bool \<Rightarrow> frontier_row \<Rightarrow> frontier_row list \<Rightarrow> domain \<Rightarrow> int \<Rightarrow>
   's loop \<Rightarrow> turn \<times> 's loop" where
  "robots_gate st U f started item rest domain inflight s =
    (case U (f_url item) of
       None \<Rightarrow> (Throws, s)
     | Some p \<Rightarrow>
       (case map_of (robotsCache s) (u_origin p) of
          Some (Some blocked) \<Rightarrow>
            if path_blocked (u_pathname p) blocked then
              (if f then (Throws, s)
               else (Await (P_Blocked started item rest),
                     s\<lparr>lp_db := run_markVisited st (f_url item) (lp_db s)\<rparr>))
            else (Continue True, start_fetch item domain inflight s)
        | _ \<Rightarrow> (Continue True, start_fetch item domain inflight s)))"

text \<open>From the answer of \<open>isVisited\<close> on.\<close>

definition consider_item ::
  "'s Statements \<Rightarrow> url_parser \<Rightarrow> bool \<Rightarrow> bool \<Rightarrow> frontier_row \<Rightarrow> frontier_row list \<Rightarrow> 's loop \<Rightarrow> turn \<times> 's loop" where
  "consider_item st U f started item rest s =
    (let domain = getDomain U (f_url item) in
     if domain = [] \<or> isDomainBlacklisted domain (lp_cs s) then
       (Await (P_Skip started rest), try_db f (run_deleteFromFrontier st (f_url item)) s)
     else
       (let inflight = getInflight domain (lp_cs s) in
        if inflight \<ge> DOMAIN_LIMIT then (Continue started, s)
        else if f_depth item = -1 then (Continue True, start_fetch item domain inflight s)
        else
          (case U (f_url item) of
             None \<Rightarrow> (Throws, s)
           | Some p \<Rightarrow>
               if u_origin p \<notin> domainsChecked s then
                 (Await (P_Robots started item rest domain inflight),
                  s\<lparr>domainsChecked := insert (u_origin p) (domainsChecked s)\<rparr>)
               else robots_gate st U f started item rest domain inflight s)))"

text \<open>The loop: \<open>item_turn\<close> on each row until one waits; \<open>batch_end\<close> is the code after it.\<close>

definition item_turn ::
  "'s Statements \<Rightarrow> url_parser \<Rightarrow> bool \<Rightarrow> bool \<Rightarrow> frontier_row \<Rightarrow> frontier_row list \<Rightarrow> 's loop \<Rightarrow> turn \<times> 's loop" where
  "item_turn st U f started item rest s =
    (if f_depth item = -1 then consider_item st U f started item rest s
     else if f then (Throws, s)
     else (Await (P_Visited (get_isVisited st (f_url item) (lp_db s)) started item rest), s))"

definition batch_end :: "bool \<Rightarrow> 's loop \<Rightarrow> 's loop" where
  "batch_end started s = (if \<not> started \<and> active s = 0 then spawn (Chain P_Start) s else s)"

fun items_loop ::
  "'s Statements \<Rightarrow> url_parser \<Rightarrow> bool \<Rightarrow> bool \<Rightarrow> frontier_row list \<Rightarrow> 's loop \<Rightarrow> 's loop" where
  "items_loop st U f started [] s = batch_end started s"
| "items_loop st U f started (item # rest) s =
    (if active s \<ge> CONCURRENCY then batch_end started s
     else (case item_turn st U f started item rest s of
             (Await pc, s') \<Rightarrow> spawn (Chain pc) s'
           | (Continue started', s') \<Rightarrow> items_loop st U f started' rest s'
           | (Throws, s') \<Rightarrow> crash s'))"

definition continue_items ::
  "'s Statements \<Rightarrow> url_parser \<Rightarrow> bool \<Rightarrow> frontier_row list \<Rightarrow> turn \<times> 's loop \<Rightarrow> 's loop" where
  "continue_items st U f rest r =
    (case r of
       (Await pc, s) \<Rightarrow> spawn (Chain pc) s
     | (Continue started, s) \<Rightarrow> items_loop st U f started rest s
     | (Throws, s) \<Rightarrow> crash s)"

section \<open>Segments of processNext\<close>

definition after_batch ::
  "'s Statements \<Rightarrow> url_parser \<Rightarrow> choices \<Rightarrow> frontier_row list \<Rightarrow> 's loop \<Rightarrow> 's loop" where
  "after_batch st U ch batch s0 =
    (let s = s0\<lparr>frontierCursor := (if batch = [] then 0 else f_id (last batch))\<rparr> in
     if batch = [] \<and> active s = 0 then
       (if cs_frontierCount (lp_cs s) < QUEUE_LOW_WATER then
          (if cs_nodeCount (lp_cs s) > 0 \<and> \<not> recrawlAttempted (lp_cs s) then
             (let s = s\<lparr>lp_cs := (lp_cs s)\<lparr>recrawlAttempted := True\<rparr>\<rparr> in
              if ch_fault ch then crash s
              else spawn (Chain (P_Recrawl
                (all_recrawlTargets st (ch_pick ch) (nat (min (cs_nodeCount (lp_cs s)) 15)) (lp_db s)))) s)
           else
             spawn (Chain (P_Seeds (S_Next False (ch_seeds ch))))
               (s\<lparr>lp_cs := (lp_cs s)\<lparr>recrawlAttempted := False\<rparr>\<rparr>))
        else spawn (Chain P_Start) s)
     else items_loop st U (ch_fault ch) False batch s)"

fun resume_chain ::
  "'s Statements \<Rightarrow> url_parser \<Rightarrow> choices \<Rightarrow> chain_pc \<Rightarrow> 's loop \<Rightarrow> 's loop" where
  "resume_chain st U ch P_Start s =
     (if cs_nodeCount (lp_cs s) \<ge> MAX_NODES then s\<lparr>stopped := True\<rparr>
      else spawn (Chain P_Yielded) s)"
| "resume_chain st U ch P_Yielded s =
     (if active s \<ge> CONCURRENCY then s
      else if ch_fault ch then crash s
      else spawn (Chain (P_Batch (all_getBatch st (frontierCursor s) 50 (lp_db s)))) s)"
| "resume_chain st U ch (P_Batch batch) s = after_batch st U ch batch s"
| "resume_chain st U ch (P_Recrawl []) s = spawn (Chain P_Start) s"
| "resume_chain st U ch (P_Recrawl (u # us)) s =
     spawn (Chain (P_Recrawl us)) (try_db (ch_fault ch) (run_insertFrontier st u (-1) None) s)"
| "resume_chain st U ch (P_Seeds pc) s =
     (case seed_step st (ch_fault ch) pc (lp_db s) of
        (Threw, db) \<Rightarrow> crash (s\<lparr>lp_db := db\<rparr>)
      | (Finished, db) \<Rightarrow> spawn (Chain P_Start) (s\<lparr>lp_db := db\<rparr>)
      | (Go pc', db) \<Rightarrow> spawn (Chain (P_Seeds pc')) (s\<lparr>lp_db := db\<rparr>))"
| "resume_chain st U ch (P_Visited v started item rest) s =
     (if v then spawn (Chain (P_Skip started rest))
        (try_db (ch_fault ch) (run_deleteFromFrontier st (f_url item)) s)
      else continue_items st U (ch_fault ch) rest
        (consider_item st U (ch_fault ch) started item rest s))"
| "resume_chain st U ch (P_Skip started rest) s = items_loop st U (ch_fault ch) started rest s"
| "resume_chain st U ch (P_Robots started item rest domain inflight) s =
     continue_items st U (ch_fault ch) rest
       (robots_gate st U (ch_fault ch) started item rest domain inflight
         (s\<lparr>robotsCache := snd (checkRobotsTxt U (ch_robots ch) (f_url item) (robotsCache s))\<rparr>))"
| "resume_chain st U ch (P_Blocked started item rest) s =
     (if ch_fault ch then crash s
      else spawn (Chain (P_Skip started rest))
        (s\<lparr>lp_db := run_deleteFromFrontier st (f_url item) (lp_db s)\<rparr>))"

section \<open>Segments of a fetch\<close>

definition page_record ::
  "url_parser \<Rightarrow> choices \<Rightarrow> frontier_row \<Rightarrow> ParsedPage \<Rightarrow> url \<Rightarrow> crawl_state \<Rightarrow> PageData" where
  "page_record U ch item parsed finalUrl cs =
    (let dom = getDomain U finalUrl;
         pop = (case map_of (domainPop cs) dom of None \<Rightarrow> 0 | Some c \<Rightarrow> c) + 1 in
     \<lparr> d_url = finalUrl, d_title = p_title parsed,
       d_desc = (if p_metaDescription parsed \<noteq> [] then p_metaDescription parsed else p_ogDescription parsed),
       d_dom = dom, d_depth = f_depth item, d_parent = f_parent item, d_pop = pop,
       d_lang = p_lang parsed, d_https = (if js_startsWith finalUrl ''https'' then 1 else 0),
       d_meta = p_metaDescription parsed, d_ogt = p_ogTitle parsed, d_ogd = p_ogDescription parsed,
       d_clen = int (p_contentLength parsed), d_ts = ch_now ch, d_origUrl = f_url item \<rparr>)"

text \<open>The links of a page that are worth a frontier row.\<close>

fun page_batch ::
  "url_parser \<Rightarrow> crawl_state \<Rightarrow> int \<Rightarrow> url \<Rightarrow> url list \<Rightarrow> FrontierItem list" where
  "page_batch U cs depth finalUrl [] = []"
| "page_batch U cs depth finalUrl (link # links) =
    (if isBlacklisted U link then page_batch U cs depth finalUrl links
     else if depth + 1 > MAX_DEPTH then page_batch U cs depth finalUrl links
     else if cs_nodeCount cs \<ge> MAX_NODES then []
     else if cs_frontierCount cs \<ge> MAX_FRONTIER then []
     else if diskPaused cs then []
     else
       (let ld = getDomain U link in
        if ld \<noteq> [] \<and> (getDomainCount ld cs \<ge> DOMAIN_MAX \<or> isDomainBlacklisted ld cs)
        then page_batch U cs depth finalUrl links
        else \<lparr>f_url = link, f_depth = depth + 1, f_parent = Some finalUrl\<rparr>
             # page_batch U cs depth finalUrl links))"

definition after_save ::
  "'s Statements \<Rightarrow> url_parser \<Rightarrow> choices \<Rightarrow> frontier_row \<Rightarrow> domain \<Rightarrow> ParsedPage \<Rightarrow> url \<Rightarrow> 's loop \<Rightarrow> 's loop" where
  "after_save st U ch item domain parsed finalUrl s =
    (let cs = recordDomainSuccess domain (incrementDomainCount (getDomain U finalUrl) (lp_cs s));
         cs = cs\<lparr>cs_success := cs_success cs + 1\<rparr>;
         batch2 = page_batch U cs (f_depth item) finalUrl (p_links parsed);
         db = (if batch2 = [] then lp_db s
               else committed (lp_db s) (txn_insertManyFrontier st (ch_txn_fault ch) batch2 (lp_db s)))
     in spawn (Fetch item domain F_Ending) (s\<lparr>lp_cs := cs, lp_db := db\<rparr>))"

definition fetch_failed :: "domain \<Rightarrow> crawl_state \<Rightarrow> crawl_state" where
  "fetch_failed domain cs = recordDomainFail domain (cs\<lparr>cs_fail := cs_fail cs + 1\<rparr>)"

definition mark_fetched ::
  "'s Statements \<Rightarrow> choices \<Rightarrow> frontier_row \<Rightarrow> domain \<Rightarrow> bool \<Rightarrow> 's loop \<Rightarrow> 's loop" where
  "mark_fetched st ch item domain ok s =
    (if ch_fault ch then spawn (Fetch item domain (F_Deleted ok)) s
     else spawn (Fetch item domain (F_Marked ok))
       (s\<lparr>lp_db := run_markVisited st (f_url item) (lp_db s)\<rparr>))"

fun resume_fetch ::
  "'s Statements \<Rightarrow> url_parser \<Rightarrow> url_resolver \<Rightarrow> choices \<Rightarrow> frontier_row \<Rightarrow> domain \<Rightarrow> fetch_pc \<Rightarrow>
   's loop \<Rightarrow> 's loop" where
  "resume_fetch st U R ch item domain F_Flying s =
     (case ch_fetched ch of
        Uncaught \<Rightarrow> crash s
      | Rejected e \<Rightarrow>
          mark_fetched st ch item domain False
            (s\<lparr>totalFetchTime := totalFetchTime s + ch_elapsed ch, lp_cs := fetch_failed domain (lp_cs s)\<rparr>)
      | Fetched html finalUrl \<Rightarrow>
          (let parsed = parsePage R html finalUrl;
               s = s\<lparr>totalFetchTime := totalFetchTime s + ch_elapsed ch\<rparr> in
           if f_depth item = -1 then mark_fetched st ch item domain True s
           else
             (case txn_saveNode st (ch_txn_fault ch) (\<not> ch_fault ch)
                     (page_record U ch item parsed finalUrl (lp_cs s)) (lp_db s) of
                Inl _ \<Rightarrow> spawn (Fetch item domain (F_Saved False parsed finalUrl)) s
              | Inr db \<Rightarrow>
                  spawn (Fetch item domain (F_Saved True parsed finalUrl)) (s\<lparr>lp_db := db\<rparr>))))"
| "resume_fetch st U R ch item domain (F_Saved saved parsed finalUrl) s =
     (if saved then after_save st U ch item domain parsed finalUrl s
      else spawn (Fetch item domain F_Ending) (s\<lparr>lp_cs := fetch_failed domain (lp_cs s)\<rparr>))"
| "resume_fetch st U R ch item domain (F_Marked ok) s =
     spawn (Fetch item domain (F_Deleted ok))
       (try_db (ch_fault ch) (run_deleteFromFrontier st (f_url item)) s)"
| "resume_fetch st U R ch item domain (F_Deleted ok) s =
     spawn (Fetch item domain F_Ending)
       (if ok then s\<lparr>lp_cs := (lp_cs s)\<lparr>cs_success := cs_success (lp_cs s) + 1\<rparr>\<rparr> else s)"
| "resume_fetch st U R ch item domain F_Ending s =
     spawn (Chain P_Start)
       (s\<lparr>active := active s - 1,
          lp_cs := setInflight domain (getInflight domain (lp_cs s) - 1) (lp_cs s)\<rparr>)"

section \<open>Timers and the whole machine\<close>

text \<open>
  The statistics timer: refresh, then top the frontier up; its seeding runs inside
  \<open>try\<close>, so an exception there ends the tick only.
\<close>

definition stats_tick :: "'s Statements \<Rightarrow> choices \<Rightarrow> 's loop \<Rightarrow> 's loop" where
  "stats_tick st ch s =
    (let n = fullRefreshCount s + 1;
         cs = (if n mod 6 = 0 then fullRefresh else refresh)
                (ch_refresh_fault ch) (ch_pop ch) st (lp_db s) (lp_cs s);
         s = s\<lparr>fullRefreshCount := n, lp_cs := cs\<rparr>
     in if cs_frontierCount cs < QUEUE_LOW_WATER \<and> cs_nodeCount cs < MAX_NODES \<and> \<not> diskPaused cs
        then spawn (Ticker (S_Next False (ch_seeds ch))) s
        else if cs_frontierCount cs > 0 then s\<lparr>lp_cs := cs\<lparr>recrawlAttempted := False\<rparr>\<rparr> else s)"

definition resume_ticker :: "'s Statements \<Rightarrow> choices \<Rightarrow> seed_pc \<Rightarrow> 's loop \<Rightarrow> 's loop" where
  "resume_ticker st ch pc s =
    (case seed_step st (ch_fault ch) pc (lp_db s) of
       (Threw, db) \<Rightarrow> s\<lparr>lp_db := db\<rparr>
     | (Go pc', db) \<Rightarrow> spawn (Ticker pc') (s\<lparr>lp_db := db\<rparr>)
     | (Finished, db) \<Rightarrow>
         (if cs_frontierCount (lp_cs s) > 0
          then s\<lparr>lp_db := db, lp_cs := (lp_cs s)\<lparr>recrawlAttempted := False\<rparr>\<rparr>
          else s\<lparr>lp_db := db\<rparr>))"

definition clear_tick :: "'s Statements \<Rightarrow> choices \<Rightarrow> 's loop \<Rightarrow> 's loop" where
  "clear_tick st ch s = try_db (ch_fault ch) (run_clearProcessed st (ch_ord ch)) s"

definition disk_tick :: "int \<Rightarrow> int \<Rightarrow> 's loop \<Rightarrow> 's loop" where
  "disk_tick avail usagePct s =
    s\<lparr>lp_cs := (lp_cs s)\<lparr>diskPaused := (avail < MIN_DISK_MB \<or> usagePct \<ge> DISK_MAX_USAGE_PCT)\<rparr>\<rparr>"

fun resume ::
  "'s Statements \<Rightarrow> url_parser \<Rightarrow> url_resolver \<Rightarrow> choices \<Rightarrow> task \<Rightarrow> 's loop \<Rightarrow> 's loop" where
  "resume st U R ch (Chain pc) s = resume_chain st U ch pc s"
| "resume st U R ch (Fetch item domain pc) s = resume_fetch st U R ch item domain pc s"
| "resume st U R ch (Ticker pc) s = resume_ticker st ch pc s"

definition take_task :: "nat \<Rightarrow> 's loop \<Rightarrow> 's loop" where
  "take_task i s = s\<lparr>tasks := take i (tasks s) @ drop (Suc i) (tasks s)\<rparr>"

text \<open>The answer of \<open>getMinId\<close>, asked at the start, arrives at some time, if ever.\<close>

definition cursor_read :: "'s loop \<Rightarrow> 's loop" where
  "cursor_read s = (case cursorAnswer s of None \<Rightarrow> s | Some c \<Rightarrow> s\<lparr>frontierCursor := c, cursorAnswer := None\<rparr>)"

datatype loop_event = Run nat choices | StatsTick choices | ClearTick choices | DiskTick int int | CursorRead

fun loop_apply ::
  "'s Statements \<Rightarrow> url_parser \<Rightarrow> url_resolver \<Rightarrow> loop_event \<Rightarrow> 's loop \<Rightarrow> 's loop" where
  "loop_apply st U R (Run i ch) s =
     (if i < length (tasks s) then resume st U R ch (tasks s ! i) (take_task i s) else s)"
| "loop_apply st U R (StatsTick ch) s = stats_tick st ch s"
| "loop_apply st U R (ClearTick ch) s = clear_tick st ch s"
| "loop_apply st U R (DiskTick avail pct) s = disk_tick avail pct s"
| "loop_apply st U R CursorRead s = cursor_read s"

text \<open>A crashed process takes no step.\<close>

inductive loop_step ::
  "'s Statements \<Rightarrow> url_parser \<Rightarrow> url_resolver \<Rightarrow> 's loop \<Rightarrow> 's loop \<Rightarrow> bool" for st U R where
  loop_stepI: "\<not> crashed s \<Longrightarrow> loop_step st U R s (loop_apply st U R e s)"

inductive_cases loop_stepE: "loop_step st U R s t"

fun loop_run ::
  "'s Statements \<Rightarrow> url_parser \<Rightarrow> url_resolver \<Rightarrow> loop_event list \<Rightarrow> 's loop \<Rightarrow> 's loop" where
  "loop_run st U R [] s = s"
| "loop_run st U R (e # es) s =
    (if crashed s then s else loop_run st U R es (loop_apply st U R e s))"

text \<open>
  The loop starts with one \<open>processNext\<close>; the cursor moves to just before the oldest row when
  the answer arrives, unless there is no row or its id is 0.
\<close>

definition startCrawlLoop :: "'s Statements \<Rightarrow> 's \<Rightarrow> crawl_state \<Rightarrow> 's loop" where
  "startCrawlLoop st db cs =
    \<lparr> lp_db = db, lp_cs = cs, active = 0,
      frontierCursor = 0,
      cursorAnswer = (case get_getMinId st db of None \<Rightarrow> None | Some m \<Rightarrow> if m = 0 then None else Some (m - 1)),
      domainsChecked = {}, robotsCache = [], fullRefreshCount = 0, totalFetchTime = 0,
      tasks = [Chain P_Start], crashed = False, stopped = False \<rparr>"

end
