(* ===== verification/CrawlSafety.thy ===== *)
theory CrawlSafety
  imports CrawlLoop
begin

text \<open>
  Properties of the crawl loop over all interleavings: its bookkeeping, why it never stalls,
  what it stores, and what its concurrency limits do and do not guarantee.
\<close>

section \<open>Bookkeeping\<close>

fun is_fetch :: "task \<Rightarrow> bool" where
  "is_fetch (Fetch item d pc) = True"
| "is_fetch (Chain pc) = False"
| "is_fetch (Ticker pc) = False"

definition in_flight :: "'s loop \<Rightarrow> int" where
  "in_flight s = int (length (filter is_fetch (tasks s)))"

text \<open>
  The tasks that keep the crawl going: a fetch starts a new \<open>processNext\<close> when it ends, and
  a \<open>processNext\<close> that has not started a fetch yet starts one, leaves to a fetch in flight,
  or schedules itself again.
\<close>

fun started_pc :: "chain_pc \<Rightarrow> bool" where
  "started_pc (P_Visited v st item rest) = st"
| "started_pc (P_Skip st rest) = st"
| "started_pc (P_Robots st item rest d n) = st"
| "started_pc (P_Blocked st item rest) = st"
| "started_pc _ = False"

fun drives :: "task \<Rightarrow> bool" where
  "drives (Fetch item d pc) = True"
| "drives (Chain pc) = (\<not> started_pc pc)"
| "drives (Ticker pc) = False"

definition driven :: "'s loop \<Rightarrow> bool" where
  "driven s \<longleftrightarrow> stopped s \<or> list_ex drives (tasks s)"

definition bookkeeping :: "'s loop \<Rightarrow> bool" where
  "bookkeeping s \<longleftrightarrow> crashed s \<or> active s = in_flight s \<and> driven s"

lemma in_flight_driven: "in_flight s \<noteq> 0 \<Longrightarrow> driven s"
proof -
  assume "in_flight s \<noteq> 0"
  then obtain t where "t \<in> set (tasks s)" "is_fetch t" by (auto simp: in_flight_def filter_empty_conv)
  moreover from this(2) have "drives t" by (cases t) simp_all
  ultimately show ?thesis by (auto simp: driven_def list_ex_iff)
qed

lemma spawn_frame [simp]:
  "active (spawn t s) = active s" "crashed (spawn t s) = crashed s" "stopped (spawn t s) = stopped s"
  "lp_cs (spawn t s) = lp_cs s" "lp_db (spawn t s) = lp_db s" "tasks (spawn t s) = tasks s @ [t]"
  "domainsChecked (spawn t s) = domainsChecked s" "robotsCache (spawn t s) = robotsCache s"
  by (simp_all add: spawn_def)

lemma try_db_frame [simp]:
  "active (try_db f g s) = active s" "crashed (try_db f g s) = crashed s"
  "stopped (try_db f g s) = stopped s" "lp_cs (try_db f g s) = lp_cs s" "tasks (try_db f g s) = tasks s"
  by (simp_all add: try_db_def)

lemma crash_frame [simp]:
  "crashed (crash s)" "lp_db (crash s) = lp_db s" "lp_cs (crash s) = lp_cs s" "tasks (crash s) = tasks s"
  by (simp_all add: crash_def)

text \<open>The state of a turn whose bookkeeping is in order, \<open>started\<close> being backed by a driver.\<close>

definition turn_ok :: "bool \<Rightarrow> 's loop \<Rightarrow> bool" where
  "turn_ok started s \<longleftrightarrow> active s = in_flight s \<and> (started \<longrightarrow> driven s)"

fun outcome_ok :: "turn \<times> 's loop \<Rightarrow> bool" where
  "outcome_ok (Await pc, s) = turn_ok (started_pc pc) s"
| "outcome_ok (Continue started, s) = turn_ok started s"
| "outcome_ok (Throws, s) = True"

lemmas book_defs = turn_ok_def in_flight_def driven_def start_fetch_def crash_def

lemma robots_gate_ok:
  "turn_ok started s \<Longrightarrow> outcome_ok (robots_gate st U f started item rest d n s)"
  by (simp add: robots_gate_def book_defs split: option.splits)

lemma consider_item_ok:
  "turn_ok started s \<Longrightarrow> outcome_ok (consider_item st U f started item rest s)"
  using robots_gate_ok [of started s]
  by (auto simp: consider_item_def Let_def book_defs split: option.splits)

lemma item_turn_ok:
  "turn_ok started s \<Longrightarrow> outcome_ok (item_turn st U f started item rest s)"
  by (simp add: item_turn_def consider_item_ok book_defs)

lemma batch_end_ok: "turn_ok started s \<Longrightarrow> bookkeeping (batch_end started s)"
  using in_flight_driven [of s]
  by (auto simp: batch_end_def bookkeeping_def book_defs)

lemma await_ok: "turn_ok (started_pc pc) s \<Longrightarrow> bookkeeping (spawn (Chain pc) s)"
  by (auto simp: bookkeeping_def book_defs)

lemma crash_ok [simp]: "bookkeeping (crash s)"
  by (simp add: bookkeeping_def)

lemma items_loop_ok: "turn_ok started s \<Longrightarrow> bookkeeping (items_loop st U f started rest s)"
proof (induction rest arbitrary: started s)
  case (Cons item rest)
  obtain out t where turn: "item_turn st U f started item rest s = (out, t)" by fastforce
  with item_turn_ok [OF Cons.prems, of st U f item rest] show ?case
    using Cons.IH Cons.prems by (cases out) (auto simp: batch_end_ok await_ok)
qed (simp add: batch_end_ok)

lemma continue_items_ok: "outcome_ok r \<Longrightarrow> bookkeeping (continue_items st U f rest r)"
  by (cases r; cases "fst r") (auto simp: continue_items_def await_ok items_loop_ok)

lemma turn_ok_frame [simp]:
  "turn_ok b (s\<lparr>frontierCursor := c\<rparr>) = turn_ok b s" "turn_ok b (s\<lparr>lp_cs := cs\<rparr>) = turn_ok b s"
  "turn_ok b (s\<lparr>lp_db := db\<rparr>) = turn_ok b s" "turn_ok b (s\<lparr>robotsCache := m\<rparr>) = turn_ok b s"
  "turn_ok b (try_db f g s) = turn_ok b s"
  by (simp_all add: book_defs)

lemma after_batch_ok: "turn_ok False s \<Longrightarrow> bookkeeping (after_batch st U ch batch s)"
  by (simp add: after_batch_def Let_def await_ok items_loop_ok del: items_loop.simps)

text \<open>Resuming a task that was taken out of a well-kept state.\<close>

lemma resume_chain_ok:
  assumes "active s = in_flight s" and "started_pc pc \<Longrightarrow> driven s"
  shows "bookkeeping (resume_chain st U ch pc s)"
proof -
  have turn: "turn_ok (started_pc pc) s" using assms by (simp add: turn_ok_def)
  show ?thesis
  proof (cases pc)
    case P_Start
    then show ?thesis using turn await_ok [of P_Yielded s]
      by (simp add: bookkeeping_def [of "_\<lparr>stopped := True\<rparr>"] book_defs)
  next
    case P_Yielded
    have "CONCURRENCY \<le> active s \<Longrightarrow> driven s"
      using assms(1) in_flight_driven [of s] by (cases "in_flight s = 0") (simp_all add: CONCURRENCY_def)
    moreover have "bookkeeping (spawn (Chain (P_Batch b)) s)" for b
      using assms(1) by (intro await_ok) (simp add: turn_ok_def)
    moreover have "driven s \<Longrightarrow> bookkeeping s" using assms(1) by (simp add: bookkeeping_def)
    ultimately show ?thesis using P_Yielded by simp
  next
    case (P_Recrawl us)
    then show ?thesis using turn by (cases us) (simp_all add: await_ok)
  next
    case (P_Seeds pc')
    then show ?thesis using turn by (auto simp: await_ok split: prod.splits seed_out.splits)
  qed (use turn in \<open>simp_all add: after_batch_ok await_ok continue_items_ok consider_item_ok
      robots_gate_ok items_loop_ok\<close>)
qed

lemma resume_fetch_ok:
  assumes "active s = in_flight s + 1"
  shows "bookkeeping (resume_fetch st U R ch item d pc s)"
  by (cases "(st, U, R, ch, item, d, pc, s)" rule: resume_fetch.cases)
    (use assms in \<open>auto simp: bookkeeping_def book_defs mark_fetched_def after_save_def Let_def
      split: fetch_result.splits sum.splits\<close>)

lemma resume_ticker_ok:
  assumes "bookkeeping s" shows "bookkeeping (resume_ticker st ch pc s)"
  using assms by (auto simp: bookkeeping_def book_defs resume_ticker_def split: prod.splits seed_out.splits)

lemma stats_tick_ok: "bookkeeping s \<Longrightarrow> bookkeeping (stats_tick st ch s)"
  by (auto simp: bookkeeping_def book_defs stats_tick_def Let_def)

lemma take_task_counts:
  assumes "i < length (tasks s)"
  shows "in_flight s = in_flight (take_task i s) + (if is_fetch (tasks s ! i) then 1 else 0) \<and>
    (driven s \<longrightarrow> driven (take_task i s) \<or> drives (tasks s ! i)) \<and>
    active (take_task i s) = active s \<and> crashed (take_task i s) = crashed s \<and>
    stopped (take_task i s) = stopped s"
proof -
  have "tasks s = take i (tasks s) @ tasks s ! i # drop (Suc i) (tasks s)"
    using assms by (rule id_take_nth_drop)
  then have "length (filter is_fetch (tasks s)) =
      length (filter is_fetch (take i (tasks s) @ tasks s ! i # drop (Suc i) (tasks s)))"
    and "list_ex drives (tasks s) = list_ex drives (take i (tasks s) @ tasks s ! i # drop (Suc i) (tasks s))"
    by metis+
  then show ?thesis by (auto simp: in_flight_def driven_def take_task_def)
qed

lemma loop_apply_ok:
  assumes "bookkeeping s" and "\<not> crashed s" shows "bookkeeping (loop_apply st U R e s)"
proof (cases e)
  case (Run i ch)
  have book: "active s = in_flight s" "driven s" using assms by (auto simp: bookkeeping_def)
  show ?thesis
  proof (cases "i < length (tasks s)")
    case True
    from take_task_counts [OF True] book assms(2) show ?thesis
      using resume_chain_ok [of "take_task i s"] resume_fetch_ok [of "take_task i s"]
        resume_ticker_ok [of "take_task i s"]
      by (cases "tasks s ! i") (auto simp: Run True bookkeeping_def)
  qed (use assms Run in simp)
next
  case (ClearTick ch)
  then show ?thesis using assms by (simp add: clear_tick_def bookkeeping_def book_defs)
next
  case (DiskTick a p)
  then show ?thesis using assms by (simp add: disk_tick_def bookkeeping_def book_defs)
next
  case CursorRead
  then show ?thesis using assms
    by (simp add: cursor_read_def bookkeeping_def book_defs split: option.splits)
qed (simp add: stats_tick_ok assms)

definition loop_start :: "'s Statements \<Rightarrow> 's loop \<Rightarrow> bool" where
  "loop_start st s \<longleftrightarrow> (\<exists>db cs. s = startCrawlLoop st db cs)"

interpretation books: invariant_system "loop_step st U R" "loop_start st" bookkeeping for st U R
proof unfold_locales
  show "bookkeeping s" if "loop_start st s" for s :: "'a loop"
    using that by (auto simp: loop_start_def startCrawlLoop_def bookkeeping_def book_defs)
  show "bookkeeping t" if "bookkeeping s" "loop_step st U R s t" for s t :: "'a loop"
    using that by (metis loop_apply_ok loop_stepE)
qed

text \<open>C2. The crawl never stalls: in every reachable state of the loop, under any interleaving of
  tasks, timers, network answers and database errors, \<open>active\<close> is the number of fetches in
  flight, and unless the process has crashed or reached its page limit there is a task waiting
  that is a fetch or a \<open>processNext\<close> that has not started one: every way out of \<open>processNext\<close>
  leaves something behind that calls it again.\<close>

theorem crawl_never_stalls:
  assumes "reaches (loop_step st U R) (loop_start st) s" and "\<not> crashed s"
  shows "active s = int (length (filter is_fetch (tasks s))) \<and>
    (stopped s \<or> (\<exists>t \<in> set (tasks s). drives t))"
  using books.reaches_inv [OF assms(1)] assms(2)
  by (simp add: bookkeeping_def book_defs list_ex_iff)
end
