(* ===== verification/CrawlStore.thy ===== *)
theory CrawlStore
  imports CrawlSafety
begin

text \<open>
  What the crawl loop writes: on any database that keeps the laws of \<open>crawl_store\<close>, under
  any interleaving, the frontier holds only rows the crawler is allowed to follow.
\<close>

section \<open>No crash without an error\<close>

text \<open>
  An event without database errors in which no fetch throws outside its promise; the tasks
  that wait for a robots file have a URL that parses.
\<close>

fun calm_event :: "loop_event \<Rightarrow> bool" where
  "calm_event (Run i ch) = (\<not> ch_fault ch \<and> ch_fetched ch \<noteq> Uncaught)"
| "calm_event _ = True"

fun parsed_task :: "url_parser \<Rightarrow> task \<Rightarrow> bool" where
  "parsed_task U (Chain (P_Robots st item rest d n)) = (U (f_url item) \<noteq> None)"
| "parsed_task U _ = True"

definition calm :: "url_parser \<Rightarrow> 's loop \<Rightarrow> bool" where
  "calm U s \<longleftrightarrow> \<not> crashed s \<and> list_all (parsed_task U) (tasks s)"

lemma calm_spawn [simp]: "calm U (spawn t s) \<longleftrightarrow> calm U s \<and> parsed_task U t"
  by (auto simp: calm_def)

lemma calm_frame [simp]:
  "calm U (s\<lparr>frontierCursor := c\<rparr>) = calm U s" "calm U (s\<lparr>lp_cs := cs\<rparr>) = calm U s"
  "calm U (s\<lparr>lp_db := db\<rparr>) = calm U s" "calm U (s\<lparr>robotsCache := m\<rparr>) = calm U s"
  "calm U (s\<lparr>domainsChecked := ds\<rparr>) = calm U s" "calm U (s\<lparr>active := n\<rparr>) = calm U s"
  "calm U (s\<lparr>stopped := b\<rparr>) = calm U s" "calm U (s\<lparr>fullRefreshCount := k\<rparr>) = calm U s"
  "calm U (s\<lparr>totalFetchTime := z\<rparr>) = calm U s" "calm U (s\<lparr>cursorAnswer := ca\<rparr>) = calm U s"
  "calm U (try_db f g s) = calm U s"
  by (simp_all add: calm_def try_db_def)

fun calm_outcome :: "url_parser \<Rightarrow> turn \<times> 's loop \<Rightarrow> bool" where
  "calm_outcome U (Await pc, s) = (calm U s \<and> parsed_task U (Chain pc))"
| "calm_outcome U (Continue started, s) = calm U s"
| "calm_outcome U (Throws, s) = False"

lemma robots_gate_calm:
  "calm U s \<Longrightarrow> U (f_url item) \<noteq> None \<Longrightarrow>
    calm_outcome U (robots_gate st U False started item rest d n s)"
  by (auto simp: robots_gate_def start_fetch_def split: option.splits)

lemma getDomain_parses: "getDomain U u \<noteq> [] \<Longrightarrow> U u \<noteq> None"
  by (auto simp: getDomain_def split: option.splits)

lemma consider_item_calm:
  "calm U s \<Longrightarrow> calm_outcome U (consider_item st U False started item rest s)"
  using getDomain_parses [of U "f_url item"]
  by (cases "U (f_url item)")
    (auto simp: consider_item_def Let_def start_fetch_def robots_gate_calm getDomain_def)

lemma item_turn_calm:
  "calm U s \<Longrightarrow> calm_outcome U (item_turn st U False started item rest s)"
  by (simp add: item_turn_def consider_item_calm)

lemma items_loop_calm: "calm U s \<Longrightarrow> calm U (items_loop st U False started rest s)"
proof (induction rest arbitrary: started s)
  case (Cons item rest)
  obtain out t where turn: "item_turn st U False started item rest s = (out, t)" by fastforce
  with item_turn_calm [OF Cons.prems, of st started item rest] show ?case
    using Cons.IH Cons.prems by (cases out) (auto simp: batch_end_def)
qed (simp add: batch_end_def)

lemma continue_items_calm: "calm_outcome U r \<Longrightarrow> calm U (continue_items st U False rest r)"
  by (cases r; cases "fst r") (auto simp: continue_items_def items_loop_calm)

lemma seed_step_calm: "seed_step st False pc s \<noteq> (Threw, s')"
  by (cases pc; cases "case pc of S_Next a us \<Rightarrow> us | _ \<Rightarrow> []") (auto split: seed_pc.splits)

lemma resume_calm:
  assumes "calm U s" and "parsed_task U t" and "\<not> ch_fault ch" and "ch_fetched ch \<noteq> Uncaught"
  shows "calm U (resume st U R ch t s)"
proof (cases t)
  case (Chain pc)
  show ?thesis
  proof (cases pc)
    case (P_Recrawl us)
    then show ?thesis using assms Chain by (cases us) auto
  next
    case (P_Seeds pc')
    then show ?thesis using assms Chain seed_step_calm [of st pc' "lp_db s"]
      by (auto split: prod.splits seed_out.splits)
  next
    case (P_Batch batch)
    then show ?thesis using assms Chain
      by (simp add: after_batch_def Let_def items_loop_calm del: items_loop.simps)
  qed (use assms Chain in \<open>simp_all add: continue_items_calm consider_item_calm robots_gate_calm items_loop_calm\<close>)
next
  case (Fetch item d pc)
  then show ?thesis using assms
    by (cases pc) (auto simp: mark_fetched_def after_save_def Let_def split: fetch_result.splits sum.splits)
next
  case (Ticker pc)
  then show ?thesis using assms by (auto simp: resume_ticker_def split: prod.splits seed_out.splits)
qed

lemma loop_apply_calm: "calm U s \<Longrightarrow> calm_event e \<Longrightarrow> calm U (loop_apply st U R e s)"
proof (cases e)
  case (Run i ch)
  assume calm: "calm U s" "calm_event e"
  show ?thesis
  proof (cases "i < length (tasks s)")
    case True
    have "calm U (take_task i s)" "parsed_task U (tasks s ! i)"
      using calm True by (auto simp: calm_def take_task_def list_all_iff dest: in_set_takeD in_set_dropD)
    with calm Run True show ?thesis by (simp add: resume_calm)
  qed (use calm Run in simp)
qed (auto simp: stats_tick_def clear_tick_def disk_tick_def cursor_read_def Let_def split: option.splits)

text \<open>C3. The crawler survives every web: as long as no database statement fails and no fetch
  throws outside its promise, no run of the loop crashes the process, whatever pages, links,
  robots files, errors and timings it meets, and it never stalls before its page limit.\<close>

theorem no_crash_without_errors:
  assumes "list_all calm_event es"
  shows "\<not> crashed (loop_run st U R es (startCrawlLoop st db cs)) \<and>
    (stopped (loop_run st U R es (startCrawlLoop st db cs)) \<or>
     (\<exists>t \<in> set (tasks (loop_run st U R es (startCrawlLoop st db cs))). drives t))"
proof -
  have run: "calm U s \<and> bookkeeping s \<Longrightarrow> calm U (loop_run st U R es s) \<and> bookkeeping (loop_run st U R es s)" for s
    using assms
  proof (induction es arbitrary: s)
    case (Cons e es)
    then show ?case using loop_apply_calm [of U s e st R] loop_apply_ok [of s st U R e]
      by (auto simp: calm_def)
  qed simp
  have "calm U (startCrawlLoop st db cs) \<and> bookkeeping (startCrawlLoop st db cs)"
    by (simp add: calm_def startCrawlLoop_def bookkeeping_def book_defs)
  from run [OF this] show ?thesis
    by (auto simp: calm_def bookkeeping_def book_defs list_ex_iff)
qed

lemma no_crash_without_errors_witness:
  "\<not> crashed (loop_run sqlite_statements (\<lambda>_. None) (\<lambda>_ _. None) [DiskTick 100 90]
     (startCrawlLoop sqlite_statements demo_store new_CrawlState))"
  using no_crash_without_errors [of "[DiskTick 100 90]" sqlite_statements "\<lambda>_. None" "\<lambda>_ _. None" demo_store new_CrawlState]
  by simp

section \<open>What the frontier may hold\<close>

text \<open>
  A row comes from a recrawl (depth -1), from the seeds (0) or from a link (1 and more); a
  link is not on the static blacklist and at most \<open>MAX_DEPTH\<close> clicks away from a seed.
\<close>

definition row_allowed :: "url_parser \<Rightarrow> 'a FrontierItem_scheme \<Rightarrow> bool" where
  "row_allowed U r \<longleftrightarrow> -1 \<le> f_depth r \<and> f_depth r \<le> MAX_DEPTH \<and>
     (f_depth r > 0 \<longrightarrow> \<not> isBlacklisted U (f_url r))"

fun pc_rows :: "chain_pc \<Rightarrow> frontier_row list" where
  "pc_rows (P_Batch rows) = rows"
| "pc_rows (P_Visited v st item rest) = item # rest"
| "pc_rows (P_Skip st rest) = rest"
| "pc_rows (P_Robots st item rest d n) = item # rest"
| "pc_rows (P_Blocked st item rest) = item # rest"
| "pc_rows _ = []"

fun task_rows :: "task \<Rightarrow> frontier_row list" where
  "task_rows (Chain pc) = pc_rows pc"
| "task_rows (Fetch item d pc) = [item]"
| "task_rows (Ticker pc) = []"

definition db_allowed :: "('s \<Rightarrow> bool) \<Rightarrow> ('s \<Rightarrow> frontier_row list) \<Rightarrow> url_parser \<Rightarrow> 's \<Rightarrow> bool" where
  "db_allowed ok pend U db \<longleftrightarrow> ok db \<and> list_all (row_allowed U) (pend db)"

definition loop_allowed :: "('s \<Rightarrow> bool) \<Rightarrow> ('s \<Rightarrow> frontier_row list) \<Rightarrow> url_parser \<Rightarrow> 's loop \<Rightarrow> bool" where
  "loop_allowed ok pend U s \<longleftrightarrow> db_allowed ok pend U (lp_db s) \<and>
     list_all (\<lambda>t. list_all (row_allowed U) (task_rows t)) (tasks s)"

lemma loop_allowed_spawn [simp]:
  "loop_allowed ok pend U (spawn t s) \<longleftrightarrow> loop_allowed ok pend U s \<and> list_all (row_allowed U) (task_rows t)"
  by (auto simp: loop_allowed_def)

lemma loop_allowed_frame [simp]:
  "loop_allowed ok pend U (s\<lparr>frontierCursor := c\<rparr>) = loop_allowed ok pend U s"
  "loop_allowed ok pend U (s\<lparr>lp_cs := cs\<rparr>) = loop_allowed ok pend U s"
  "loop_allowed ok pend U (s\<lparr>robotsCache := m\<rparr>) = loop_allowed ok pend U s"
  "loop_allowed ok pend U (s\<lparr>domainsChecked := ds\<rparr>) = loop_allowed ok pend U s"
  "loop_allowed ok pend U (s\<lparr>active := n\<rparr>) = loop_allowed ok pend U s"
  "loop_allowed ok pend U (s\<lparr>stopped := b\<rparr>) = loop_allowed ok pend U s"
  "loop_allowed ok pend U (s\<lparr>fullRefreshCount := k\<rparr>) = loop_allowed ok pend U s"
  "loop_allowed ok pend U (s\<lparr>totalFetchTime := z\<rparr>) = loop_allowed ok pend U s"
  "loop_allowed ok pend U (s\<lparr>cursorAnswer := ca\<rparr>) = loop_allowed ok pend U s"
  "loop_allowed ok pend U (crash s) = loop_allowed ok pend U s"
  by (simp_all add: loop_allowed_def crash_def)

lemma loop_allowed_db:
  "loop_allowed ok pend U s \<Longrightarrow> db_allowed ok pend U db \<Longrightarrow> loop_allowed ok pend U (s\<lparr>lp_db := db\<rparr>)"
  "loop_allowed ok pend U s \<Longrightarrow> db_allowed ok pend U (lp_db s)"
  by (simp_all add: loop_allowed_def)

lemma loop_allowed_try:
  "loop_allowed ok pend U s \<Longrightarrow> (\<And>db. db_allowed ok pend U db \<Longrightarrow> db_allowed ok pend U (g db)) \<Longrightarrow>
    loop_allowed ok pend U (try_db f g s)"
  by (simp add: try_db_def loop_allowed_def)

lemma page_batch_allowed:
  "-1 \<le> depth \<Longrightarrow> list_all (row_allowed U) (page_batch U cs depth v links)"
  by (induction links) (auto simp: row_allowed_def Let_def)

context crawl_store
begin

lemma allowed_insert:
  "db_allowed ok pend U db \<Longrightarrow> row_allowed U \<lparr>f_url = u, f_depth = d, f_parent = p\<rparr> \<Longrightarrow>
    db_allowed ok pend U (run_insertFrontier st u d p db)"
  by (cases rule: insert_cases [of u db d p])
    (auto simp: db_allowed_def ok_insert as_row_def row_allowed_def)

lemma allowed_origin [simp]:
  "row_allowed U \<lparr>f_url = u, f_depth = -1, f_parent = p\<rparr>" "row_allowed U \<lparr>f_url = u, f_depth = 0, f_parent = p\<rparr>"
  by (simp_all add: row_allowed_def MAX_DEPTH_def)

lemma allowed_delete: "db_allowed ok pend U db \<Longrightarrow> db_allowed ok pend U (run_deleteFromFrontier st u db)"
  by (auto simp: db_allowed_def ok_delete delete_pend list_all_iff)

lemma allowed_mark: "db_allowed ok pend U db \<Longrightarrow> db_allowed ok pend U (run_markVisited st u db)"
  by (simp add: db_allowed_def ok_mark mark_pend)

lemma allowed_clear: "db_allowed ok pend U db \<Longrightarrow> db_allowed ok pend U (run_clearProcessed st ord db)"
  using clear_pend by (auto simp: db_allowed_def ok_clear list_all_iff)

lemma allowed_save:
  "db_allowed ok pend U db \<Longrightarrow> txn_saveNode st f b page db = Inr db' \<Longrightarrow> db_allowed ok pend U db'"
  by (auto simp: db_allowed_def ok_save save_pend list_all_iff)

lemma allowed_many:
  assumes "db_allowed ok pend U db" and "list_all (row_allowed U) items"
  shows "db_allowed ok pend U (committed db (txn_insertManyFrontier st f items db))"
proof (cases "txn_insertManyFrontier st f items db")
  case (Inr db')
  have "db_allowed ok pend U (fold (\<lambda>i. run_insertFrontier st (f_url i) (f_depth i) (f_parent i)) items db)"
    using assms by (induction items arbitrary: db) (simp_all add: allowed_insert row_allowed_def)
  with Inr many_fold show ?thesis by (simp add: committed_def)
qed (simp add: committed_def assms)

lemma allowed_seed:
  "db_allowed ok pend U db \<Longrightarrow> seed_step st f pc db = (out, db') \<Longrightarrow> db_allowed ok pend U db'"
  by (cases "(st, f, pc, db)" rule: seed_step.cases) (auto simp: allowed_insert split: if_splits)

lemmas allowed_ops = allowed_insert allowed_delete allowed_mark allowed_clear allowed_save allowed_many

text \<open>The segments, each on a state whose rows and task rows are allowed.\<close>

lemma start_fetch_allowed:
  "loop_allowed ok pend U s \<Longrightarrow> row_allowed U item \<Longrightarrow> loop_allowed ok pend U (start_fetch item d n s)"
  by (simp add: start_fetch_def)

fun allowed_outcome :: "url_parser \<Rightarrow> turn \<times> 's loop \<Rightarrow> bool" where
  "allowed_outcome U (Await pc, s) = (loop_allowed ok pend U s \<and> list_all (row_allowed U) (pc_rows pc))"
| "allowed_outcome U (_, s) = loop_allowed ok pend U s"

lemma robots_gate_allowed:
  "loop_allowed ok pend U s \<Longrightarrow> list_all (row_allowed U) (item # rest) \<Longrightarrow>
    allowed_outcome U (robots_gate st U f started item rest d n s)"
  by (auto simp: robots_gate_def start_fetch_allowed loop_allowed_db allowed_mark split: option.splits)

lemma consider_item_allowed:
  "loop_allowed ok pend U s \<Longrightarrow> list_all (row_allowed U) (item # rest) \<Longrightarrow>
    allowed_outcome U (consider_item st U f started item rest s)"
  by (auto simp: consider_item_def Let_def start_fetch_allowed robots_gate_allowed
      intro!: loop_allowed_try allowed_delete split: option.splits)

lemma item_turn_allowed:
  "loop_allowed ok pend U s \<Longrightarrow> list_all (row_allowed U) (item # rest) \<Longrightarrow>
    allowed_outcome U (item_turn st U f started item rest s)"
  by (simp add: item_turn_def consider_item_allowed)

lemma items_loop_allowed:
  "loop_allowed ok pend U s \<Longrightarrow> list_all (row_allowed U) rest \<Longrightarrow>
    loop_allowed ok pend U (items_loop st U f started rest s)"
proof (induction rest arbitrary: started s)
  case (Cons item rest)
  obtain out t where turn: "item_turn st U f started item rest s = (out, t)" by fastforce
  with item_turn_allowed [OF Cons.prems, of f started] show ?case
    using Cons.IH Cons.prems by (cases out) (auto simp: batch_end_def)
qed (simp add: batch_end_def)

lemma continue_items_allowed:
  "allowed_outcome U r \<Longrightarrow> list_all (row_allowed U) rest \<Longrightarrow>
    loop_allowed ok pend U (continue_items st U f rest r)"
  by (cases r; cases "fst r") (auto simp: continue_items_def items_loop_allowed)

lemma batch_allowed: "loop_allowed ok pend U s \<Longrightarrow> list_all (row_allowed U) (all_getBatch st c n (lp_db s))"
  by (auto simp: loop_allowed_def db_allowed_def batch_eq list_all_iff dest: in_set_takeD)

lemma resume_chain_allowed:
  assumes "loop_allowed ok pend U s" and "list_all (row_allowed U) (pc_rows pc)"
  shows "loop_allowed ok pend U (resume_chain st U ch pc s)"
proof (cases pc)
  case (P_Batch batch)
  then show ?thesis using assms
    by (simp add: after_batch_def Let_def items_loop_allowed del: items_loop.simps)
next
  case (P_Recrawl us)
  then show ?thesis using assms by (cases us) (auto intro!: loop_allowed_try allowed_insert)
next
  case (P_Seeds pc')
  then show ?thesis using assms loop_allowed_db(1) [OF assms(1) allowed_seed [OF loop_allowed_db(2) [OF assms(1)]]]
    by (auto split: prod.splits seed_out.splits)
qed (use assms in \<open>auto simp: batch_allowed allowed_delete loop_allowed_db
    intro!: loop_allowed_try continue_items_allowed consider_item_allowed robots_gate_allowed items_loop_allowed\<close>)

lemma resume_fetch_allowed:
  assumes "loop_allowed ok pend U s" and "row_allowed U item"
  shows "loop_allowed ok pend U (resume_fetch st U R ch item d pc s)"
proof (cases pc)
  case (F_Saved saved parsed v)
  have rows: "list_all (row_allowed U) (page_batch U cs (f_depth item) v links)" for cs links
    using assms(2) by (intro page_batch_allowed) (simp add: row_allowed_def)
  have "db_allowed ok pend U (lp_db s)" using assms(1) by (rule loop_allowed_db)
  then show ?thesis using assms rows F_Saved
    by (simp add: after_save_def Let_def loop_allowed_def allowed_many)
next
  case F_Flying
  then show ?thesis using assms loop_allowed_db(1) [OF assms(1) allowed_save [OF loop_allowed_db(2) [OF assms(1)]]]
      loop_allowed_db(1) [OF assms(1) allowed_mark [OF loop_allowed_db(2) [OF assms(1)]]]
    by (auto simp: mark_fetched_def Let_def loop_allowed_def allowed_mark split: fetch_result.splits sum.splits)
qed (use assms in \<open>auto intro!: loop_allowed_try allowed_delete\<close>)

lemma loop_apply_allowed:
  assumes "loop_allowed ok pend U s" shows "loop_allowed ok pend U (loop_apply st U R e s)"
proof (cases e)
  case (Run i ch)
  show ?thesis
  proof (cases "i < length (tasks s)")
    case True
    have "loop_allowed ok pend U (take_task i s)" and rows: "list_all (row_allowed U) (task_rows (tasks s ! i))"
      using assms True
      by (auto simp: loop_allowed_def take_task_def list_all_iff dest: in_set_takeD in_set_dropD)
    then show ?thesis
      using Run True resume_chain_allowed resume_fetch_allowed
        loop_allowed_db(1) [OF _ allowed_seed [OF loop_allowed_db(2)]]
      by (cases "tasks s ! i") (auto simp: resume_ticker_def split: prod.splits seed_out.splits)
  qed (use assms Run in simp)
qed (use assms in \<open>auto simp: stats_tick_def clear_tick_def disk_tick_def cursor_read_def Let_def split: option.splits
    intro!: loop_allowed_try allowed_clear\<close>)

lemma loop_reaches_allowed:
  assumes "reaches (loop_step st U R) (\<lambda>s. \<exists>db cs. s = startCrawlLoop st db cs \<and> db_allowed ok pend U db) s"
  shows "loop_allowed ok pend U s"
  using assms
proof (induction rule: reaches.induct)
  case (reaches_init s)
  then show ?case by (auto simp: loop_allowed_def startCrawlLoop_def)
next
  case (reaches_step s t)
  then show ?case by (metis loop_apply_allowed loop_stepE)
qed

end

text \<open>The frontier stays clean: on SQLite, whatever the web answers and however the tasks and
  timers interleave, every frontier row that came from a link has a URL off the static
  blacklist, every row has a depth between -1 and \<open>MAX_DEPTH\<close>, and the tables keep their
  shape. The rows that fetches and batches carry obey the same.\<close>

theorem frontier_stays_clean:
  assumes "reaches (loop_step sqlite_statements U R)
      (\<lambda>s. \<exists>db cs. s = startCrawlLoop sqlite_statements db cs \<and> store_ok db \<and>
         list_all (row_allowed U) (frontier db)) s"
  shows "store_ok (lp_db s) \<and> list_all (row_allowed U) (frontier (lp_db s)) \<and>
    list_all (\<lambda>t. list_all (row_allowed U) (task_rows t)) (tasks s)"
  using sqlite.loop_reaches_allowed [of U R s] assms
  by (simp add: loop_allowed_def db_allowed_def)

end
