(* ===== verification/CrawlLimits.thy ===== *)
theory CrawlLimits
  imports CrawlStore
begin

text \<open>
  The per-domain slots and the concurrency limit of the crawl loop. Both are read, and the
  loop may wait for a robots file before it acts on what it read; this theory shows which
  bounds survive that wait and which do not.
\<close>

section \<open>Domain slots\<close>

fun flies :: "domain \<Rightarrow> task \<Rightarrow> bool" where
  "flies d (Fetch item d' pc) = (d' = d)"
| "flies d (Chain pc) = False"
| "flies d (Ticker pc) = False"

definition flying :: "domain \<Rightarrow> 's loop \<Rightarrow> int" where
  "flying d s = int (length (filter (flies d) (tasks s)))"

fun slot_read_ok :: "task \<Rightarrow> bool" where
  "slot_read_ok (Chain (P_Robots st item rest d n)) = (0 \<le> n \<and> n < DOMAIN_LIMIT)"
| "slot_read_ok _ = True"

definition slots_ok :: "'s loop \<Rightarrow> bool" where
  "slots_ok s \<longleftrightarrow>
    (\<forall>d. 0 \<le> getInflight d (lp_cs s) \<and> getInflight d (lp_cs s) \<le> DOMAIN_LIMIT \<and>
       getInflight d (lp_cs s) < flying d s + DOMAIN_LIMIT) \<and>
    list_all slot_read_ok (tasks s)"

lemma inflight_frame [simp]:
  "getInflight d (cs\<lparr>cs_success := n\<rparr>) = getInflight d cs" "getInflight d (cs\<lparr>cs_fail := n\<rparr>) = getInflight d cs"
  "getInflight d (cs\<lparr>recrawlAttempted := b\<rparr>) = getInflight d cs"
  "getInflight d (cs\<lparr>diskPaused := b\<rparr>) = getInflight d cs"
  "getInflight d (recordDomainSuccess e cs) = getInflight d cs"
  "getInflight d (recordDomainFail e cs) = getInflight d cs"
  "getInflight d (incrementDomainCount e cs) = getInflight d cs"
  "getInflight d (fetch_failed e cs) = getInflight d cs"
  "getInflight d (refresh f ord st db cs) = getInflight d cs"
  "getInflight d (fullRefresh f ord st db cs) = getInflight d cs"
  by (simp_all add: getInflight_def recordDomainSuccess_def recordDomainFail_def Let_def
      incrementDomainCount_def fetch_failed_def refresh_def fullRefresh_def)

lemma inflight_set [simp]:
  "getInflight d (setInflight e n cs) = (if d = e then max 0 n else getInflight d cs)"
  by (simp add: getInflight_def setInflight_def)

lemma flying_spawn [simp]:
  "flying d (spawn t s) = flying d s + (if flies d t then 1 else 0)"
  by (simp add: flying_def)

lemma flying_nonneg [simp]: "0 \<le> flying d s"
  by (simp add: flying_def)

lemma flying_frame [simp]:
  "flying d (s\<lparr>frontierCursor := c\<rparr>) = flying d s" "flying d (s\<lparr>lp_cs := cs\<rparr>) = flying d s"
  "flying d (s\<lparr>lp_db := db\<rparr>) = flying d s" "flying d (s\<lparr>robotsCache := m\<rparr>) = flying d s"
  "flying d (s\<lparr>domainsChecked := ds\<rparr>) = flying d s" "flying d (s\<lparr>active := n\<rparr>) = flying d s"
  "flying d (s\<lparr>stopped := b\<rparr>) = flying d s" "flying d (s\<lparr>fullRefreshCount := k\<rparr>) = flying d s"
  "flying d (s\<lparr>totalFetchTime := z\<rparr>) = flying d s" "flying d (s\<lparr>cursorAnswer := ca\<rparr>) = flying d s"
  "flying d (try_db f g s) = flying d s" "flying d (crash s) = flying d s"
  by (simp_all add: flying_def)

lemma slots_frame [simp]:
  "slots_ok (s\<lparr>frontierCursor := c\<rparr>) = slots_ok s" "slots_ok (s\<lparr>lp_db := db\<rparr>) = slots_ok s"
  "slots_ok (s\<lparr>robotsCache := m\<rparr>) = slots_ok s" "slots_ok (s\<lparr>domainsChecked := ds\<rparr>) = slots_ok s"
  "slots_ok (s\<lparr>stopped := b\<rparr>) = slots_ok s" "slots_ok (s\<lparr>fullRefreshCount := k\<rparr>) = slots_ok s"
  "slots_ok (s\<lparr>totalFetchTime := z\<rparr>) = slots_ok s" "slots_ok (s\<lparr>cursorAnswer := ca\<rparr>) = slots_ok s"
  "slots_ok (try_db f g s) = slots_ok s" "slots_ok (crash s) = slots_ok s"
  by (simp_all add: slots_ok_def)

lemma slots_cs:
  "slots_ok s \<Longrightarrow> (\<And>d. getInflight d cs = getInflight d (lp_cs s)) \<Longrightarrow> slots_ok (s\<lparr>lp_cs := cs\<rparr>)"
  by (simp add: slots_ok_def)

lemma slots_spawn [simp]:
  "\<not> is_fetch t \<Longrightarrow> slots_ok (spawn t s) \<longleftrightarrow> slots_ok s \<and> slot_read_ok t"
  by (cases t) (simp_all add: slots_ok_def)

lemma slots_start_fetch:
  assumes "slots_ok s" and "0 \<le> n" and "n < DOMAIN_LIMIT"
  shows "slots_ok (start_fetch item d n s)"
proof -
  have "n < flying d s + DOMAIN_LIMIT" using assms(3) flying_nonneg [of d s] by linarith
  then show ?thesis using assms by (auto simp: start_fetch_def slots_ok_def)
qed

fun slots_outcome :: "turn \<times> 's loop \<Rightarrow> bool" where
  "slots_outcome (Await pc, s) = (slots_ok s \<and> slot_read_ok (Chain pc))"
| "slots_outcome (_, s) = slots_ok s"

lemma robots_gate_slots:
  "slots_ok s \<Longrightarrow> 0 \<le> n \<Longrightarrow> n < DOMAIN_LIMIT \<Longrightarrow>
    slots_outcome (robots_gate st U f started item rest d n s)"
  by (auto simp: robots_gate_def slots_start_fetch split: option.splits)

lemma slots_at:
  "slots_ok s \<Longrightarrow> 0 \<le> getInflight d (lp_cs s) \<and> getInflight d (lp_cs s) \<le> DOMAIN_LIMIT \<and>
    getInflight d (lp_cs s) < flying d s + DOMAIN_LIMIT"
  by (simp add: slots_ok_def)

lemma slots_read: "slots_ok s \<Longrightarrow> 0 \<le> getInflight d (lp_cs s)"
  by (simp add: slots_ok_def)

lemma consider_item_slots:
  "slots_ok s \<Longrightarrow> slots_outcome (consider_item st U f started item rest s)"
  using slots_read [of s "getDomain U (f_url item)"]
  by (auto simp: consider_item_def Let_def slots_start_fetch robots_gate_slots split: option.splits)

lemma item_turn_slots: "slots_ok s \<Longrightarrow> slots_outcome (item_turn st U f started item rest s)"
  by (simp add: item_turn_def consider_item_slots)

lemma items_loop_slots: "slots_ok s \<Longrightarrow> slots_ok (items_loop st U f started rest s)"
proof (induction rest arbitrary: started s)
  case (Cons item rest)
  obtain out t where turn: "item_turn st U f started item rest s = (out, t)" by fastforce
  with item_turn_slots [OF Cons.prems, of st U f started item rest] show ?case
    using Cons.IH Cons.prems by (cases out) (auto simp: batch_end_def)
qed (simp add: batch_end_def)

lemma continue_items_slots: "slots_outcome r \<Longrightarrow> slots_ok (continue_items st U f rest r)"
  by (cases r; cases "fst r") (auto simp: continue_items_def items_loop_slots)

lemma resume_chain_slots:
  assumes "slots_ok s" and "slot_read_ok (Chain pc)"
  shows "slots_ok (resume_chain st U ch pc s)"
proof (cases pc)
  case (P_Batch batch)
  then show ?thesis using assms
    by (simp add: after_batch_def Let_def items_loop_slots slots_cs del: items_loop.simps)
next
  case (P_Recrawl us)
  then show ?thesis using assms by (cases us) auto
next
  case (P_Seeds pc')
  then show ?thesis using assms by (auto split: prod.splits seed_out.splits)
qed (use assms in \<open>simp_all add: continue_items_slots consider_item_slots robots_gate_slots items_loop_slots\<close>)

text \<open>A fetch that is resumed is put back, or gives its slot back.\<close>

lemma resume_fetch_slots:
  assumes "\<And>d'. 0 \<le> getInflight d' (lp_cs s) \<and> getInflight d' (lp_cs s) \<le> DOMAIN_LIMIT \<and>
      getInflight d' (lp_cs s) < flying d' s + (if d' = d then 1 else 0) + DOMAIN_LIMIT"
    and "list_all slot_read_ok (tasks s)"
  shows "crashed (resume_fetch st U R ch item d pc s) \<or> slots_ok (resume_fetch st U R ch item d pc s)"
proof -
  have put_back: "slots_ok (spawn (Fetch item d pc') s')"
    if "lp_cs s' = cs \<and> tasks s' = tasks s" and "\<And>d'. getInflight d' cs = getInflight d' (lp_cs s)" for pc' s' cs
  proof -
    have "0 \<le> getInflight e (lp_cs s') \<and> getInflight e (lp_cs s') \<le> DOMAIN_LIMIT \<and>
        getInflight e (lp_cs s') < flying e (spawn (Fetch item d pc') s') + DOMAIN_LIMIT" for e
    proof -
      have "flying e s' = flying e s" "getInflight e (lp_cs s') = getInflight e (lp_cs s)"
        using that by (auto simp: flying_def)
      then show ?thesis using assms(1) [of e] by auto
    qed
    then show ?thesis using assms(2) that(1) by (auto simp: slots_ok_def)
  qed
  show ?thesis
  proof (cases pc)
    case F_Ending
    let ?s = "s\<lparr>active := active s - 1, lp_cs := setInflight d (getInflight d (lp_cs s) - 1) (lp_cs s)\<rparr>"
    have "0 \<le> getInflight e (lp_cs ?s) \<and> getInflight e (lp_cs ?s) \<le> DOMAIN_LIMIT \<and>
        getInflight e (lp_cs ?s) < flying e ?s + DOMAIN_LIMIT" for e
      using assms(1) [of e] by (auto simp: DOMAIN_LIMIT_def intro: add_nonneg_pos)
    then have "slots_ok ?s" using assms(2) by (auto simp: slots_ok_def)
    then show ?thesis by (simp add: F_Ending)
  qed (auto simp: mark_fetched_def after_save_def Let_def intro!: put_back split: fetch_result.splits sum.splits)
qed

lemma take_task_flying:
  assumes "i < length (tasks s)"
  shows "flying d s = flying d (take_task i s) + (if flies d (tasks s ! i) then 1 else 0)"
proof -
  have "tasks s = take i (tasks s) @ tasks s ! i # drop (Suc i) (tasks s)"
    using assms by (rule id_take_nth_drop)
  then have "length (filter (flies d) (tasks s)) =
      length (filter (flies d) (take i (tasks s) @ tasks s ! i # drop (Suc i) (tasks s)))"
    by metis
  then show ?thesis by (simp add: flying_def take_task_def)
qed

lemma loop_apply_slots:
  assumes "slots_ok s" shows "crashed (loop_apply st U R e s) \<or> slots_ok (loop_apply st U R e s)"
proof (cases e)
  case (Run i ch)
  show ?thesis
  proof (cases "i < length (tasks s)")
    case True
    have reads: "list_all slot_read_ok (tasks (take_task i s))" "slot_read_ok (tasks s ! i)"
      using assms True
      by (auto simp: slots_ok_def take_task_def list_all_iff dest: in_set_takeD in_set_dropD)
    have cs: "lp_cs (take_task i s) = lp_cs s" by (simp add: take_task_def)
    note fly = take_task_flying [OF True]
    show ?thesis
    proof (cases "tasks s ! i")
      case (Chain pc)
      then have "slots_ok (take_task i s)" using assms reads fly cs by (simp add: slots_ok_def)
      then show ?thesis using Chain reads(2) Run True by (auto intro: resume_chain_slots)
    next
      case (Fetch item d pc)
      have "0 \<le> getInflight e (lp_cs s) \<and> getInflight e (lp_cs s) \<le> DOMAIN_LIMIT \<and>
          getInflight e (lp_cs s) < flying e (take_task i s) + (if e = d then 1 else 0) + DOMAIN_LIMIT" for e
        using slots_at [OF assms, of e] fly [of e] Fetch by auto
      then show ?thesis using resume_fetch_slots [of "take_task i s" d] reads(1) cs Fetch Run True by simp
    next
      case (Ticker pc)
      then have "slots_ok (take_task i s)" using assms reads fly cs by (simp add: slots_ok_def)
      then show ?thesis using Ticker Run True
        by (auto simp: resume_ticker_def slots_cs split: prod.splits seed_out.splits)
    qed
  qed (use assms Run in simp)
qed (use assms in \<open>simp_all add: stats_tick_def clear_tick_def disk_tick_def cursor_read_def Let_def slots_cs
    split: option.splits\<close>)

interpretation slots: invariant_system "loop_step st U R"
  "\<lambda>s. \<exists>db cs. s = startCrawlLoop st db cs \<and> domainInflight cs = Map.empty"
  "\<lambda>s. crashed s \<or> slots_ok s" for st U R
proof unfold_locales
  show "crashed s \<or> slots_ok s"
    if "\<exists>db cs. s = startCrawlLoop st db cs \<and> domainInflight cs = Map.empty" for s :: "'a loop"
    using that by (auto simp: startCrawlLoop_def slots_ok_def getInflight_def flying_def DOMAIN_LIMIT_def)
  show "crashed t \<or> slots_ok t" if "crashed s \<or> slots_ok s" "loop_step st U R s t" for s t :: "'a loop"
    using that by (metis loop_apply_slots loop_stepE)
qed

text \<open>C4. No domain starves: in every reachable state of a running crawler the slot counter of a
  domain stays between 0 and \<open>DOMAIN_LIMIT\<close>, and it is below \<open>DOMAIN_LIMIT\<close> whenever no
  fetch of that domain is in flight, so that an idle domain always has a free slot, although
  the counter is written from a value read before the robots file was awaited.\<close>

theorem no_domain_starves:
  assumes "reaches (loop_step st U R)
      (\<lambda>s. \<exists>db cs. s = startCrawlLoop st db cs \<and> domainInflight cs = Map.empty) s"
    and "\<not> crashed s"
  shows "0 \<le> getInflight d (lp_cs s) \<and> getInflight d (lp_cs s) \<le> DOMAIN_LIMIT \<and>
    ((\<forall>item pc. Fetch item d pc \<notin> set (tasks s)) \<longrightarrow> getInflight d (lp_cs s) < DOMAIN_LIMIT)"
proof -
  have "slots_ok s" using slots.reaches_inv [OF assms(1)] assms(2) by simp
  moreover have "(\<forall>item pc. Fetch item d pc \<notin> set (tasks s)) \<Longrightarrow> flying d s = 0"
    unfolding flying_def by (auto simp: filter_empty_conv elim: flies.elims)
  ultimately show ?thesis unfolding slots_ok_def by (metis add_0)
qed

section \<open>What the limits do not guarantee\<close>

text \<open>
  A run of the crawler on 52 pages of one domain under four origins. The first
  \<open>processNext\<close> starts one fetch and waits for the robots file of the second page's origin;
  meanwhile that fetch ends, a second \<open>processNext\<close> takes the next batch, starts a fetch and
  waits for a robots file too; then both answers arrive.
\<close>

definition race_parser :: url_parser where
  "race_parser u =
    (let p = (\<lambda>h og. Some \<lparr>u_hostname = h, u_origin = og, u_pathname = drop (length og) u\<rparr>) in
     if js_startsWith u ''http://www.a.org/'' then p ''www.a.org'' ''http://www.a.org''
     else if js_startsWith u ''https://www.a.org/'' then p ''www.a.org'' ''https://www.a.org''
     else if js_startsWith u ''http://a.org/'' then p ''a.org'' ''http://a.org''
     else if js_startsWith u ''https://a.org/'' then p ''a.org'' ''https://a.org'' else None)"

definition race_rows :: "frontier_row list" where
  "race_rows = map (\<lambda>n. as_row
     (if n = 1 then ''http://a.org/1'' else if n = 2 then ''https://a.org/2''
      else if n = 51 then ''http://www.a.org/51'' else if n = 52 then ''https://www.a.org/52''
      else ''http://b.org/'' @ js_digits n) 0 None (int n)) [1..<53]"

definition race_db :: sqlite_store where
  "race_db = empty_sqlite\<lparr>frontier := race_rows, seq := 52\<rparr>"

definition quiet :: choices where
  "quiet = \<lparr> ch_fault = False, ch_txn_fault = (\<lambda>_. False), ch_now = 0, ch_robots = (\<lambda>_. None),
     ch_fetched = Rejected Timeout, ch_pick = id, ch_pop = id, ch_ord = id, ch_seeds = [],
     ch_refresh_fault = (\<lambda>_. False), ch_elapsed = 1000 \<rparr>"

definition race_run :: "nat list \<Rightarrow> sqlite_store loop" where
  "race_run is = loop_run sqlite_statements race_parser (\<lambda>_ _. None) (map (\<lambda>i. Run i quiet) is)
     (startCrawlLoop sqlite_statements race_db new_CrawlState)"

lemma loop_run_reaches:
  "reaches (loop_step st U R) init s \<Longrightarrow> reaches (loop_step st U R) init (loop_run st U R es s)"
proof (induction es arbitrary: s)
  case (Cons e es)
  show ?case
  proof (cases "crashed s")
    case False
    then have "reaches (loop_step st U R) init (loop_apply st U R e s)"
      using Cons.prems by (blast intro: reaches_step loop_stepI)
    from Cons.IH [OF this] False show ?thesis by simp
  qed (use Cons.prems in simp)
qed simp

lemma race_run_reaches:
  "reaches (loop_step sqlite_statements race_parser (\<lambda>_ _. None)) (loop_start sqlite_statements) (race_run is)"
  unfolding race_run_def
  by (rule loop_run_reaches, rule reaches_init) (auto simp: loop_start_def)

text \<open>The two schedules, and the evaluation of their last states.\<close>

definition over_limit :: "sqlite_store loop" where
  "over_limit = race_run [0, 0, 0, 0, 0, 1, 0, 1, 1, 1, 1, 1, 1, 1, 1, 2, 0, 1]"

definition leaked :: "sqlite_store loop" where
  "leaked = race_run [0, 0, 0, 0, 0, 1, 0, 1, 1, 1, 0, 1, 2, 2, 2]"

definition summary :: "'s loop \<Rightarrow> bool \<times> bool \<times> int \<times> int \<times> int" where
  "summary s = (crashed s, stopped s, active s, flying ''a.org'' s, getInflight ''a.org'' (lp_cs s))"

lemma over_limit_summary: "summary over_limit = (False, False, 3, 3, 2)"
  by code_simp

lemma leaked_summary: "summary leaked = (False, False, 0, 0, 1)"
  by code_simp

text \<open>The limits are not kept: without any error of the database, a run reaches a state with
  more fetches in flight than \<open>CONCURRENCY\<close>, and more for one domain than
  \<open>DOMAIN_LIMIT\<close>, because both limits are tested before the robots file is awaited.\<close>

theorem limits_can_be_exceeded:
  "\<exists>s. reaches (loop_step sqlite_statements race_parser (\<lambda>_ _. None)) (loop_start sqlite_statements) s \<and>
     \<not> crashed s \<and> active s > CONCURRENCY \<and> flying ''a.org'' s > DOMAIN_LIMIT"
  using over_limit_summary race_run_reaches
  by (intro exI [of _ over_limit]) (simp add: summary_def over_limit_def CONCURRENCY_def DOMAIN_LIMIT_def)

text \<open>A slot can leak: a run without database errors reaches a state in which no fetch of a
  domain is in flight and its counter still holds one of its two slots.\<close>

theorem slot_can_leak:
  "\<exists>s. reaches (loop_step sqlite_statements race_parser (\<lambda>_ _. None)) (loop_start sqlite_statements) s \<and>
     \<not> crashed s \<and> flying ''a.org'' s = 0 \<and> getInflight ''a.org'' (lp_cs s) = DOMAIN_LIMIT - 1"
  using leaked_summary race_run_reaches
  by (intro exI [of _ leaked]) (simp add: summary_def leaked_def DOMAIN_LIMIT_def)

section \<open>Runs that apply the properties\<close>

lemma crawl_never_stalls_witness:
  "active over_limit = int (length (filter is_fetch (tasks over_limit))) \<and> tasks over_limit \<noteq> []"
proof -
  have "\<not> crashed over_limit \<and> \<not> stopped over_limit"
    using over_limit_summary by (simp add: summary_def)
  moreover have "reaches (loop_step sqlite_statements race_parser (\<lambda>_ _. None))
      (loop_start sqlite_statements) over_limit"
    unfolding over_limit_def by (rule race_run_reaches)
  ultimately show ?thesis using crawl_never_stalls [of sqlite_statements race_parser "\<lambda>_ _. None" over_limit]
    by auto
qed

lemma race_rows_ok: "distinct (map f_url race_rows) \<and> list_all (row_allowed race_parser) race_rows"
  by code_simp

lemma race_db_ok: "store_ok race_db \<and> list_all (row_allowed race_parser) (frontier race_db)"
proof -
  have ids: "map f_id race_rows = map int [1..<53]" by (simp add: race_rows_def as_row_def comp_def)
  have "sorted_wrt (<) (map f_id race_rows)" unfolding ids by (simp add: sorted_wrt_map)
  moreover have "f_id ` set race_rows = int ` {1..<53}" using arg_cong [OF ids, of set] by simp
  then have "0 < f_id r \<and> f_id r \<le> 52" if "r \<in> set race_rows" for r
    using imageI [OF that, of f_id] by auto
  ultimately show ?thesis using race_rows_ok
    by (simp add: store_ok_def frontier_ok_def nodes_ok_def race_db_def empty_sqlite_def)
qed

lemma frontier_stays_clean_witness:
  "store_ok (lp_db (race_run [0, 0, 0])) \<and>
   list_all (row_allowed race_parser) (frontier (lp_db (race_run [0, 0, 0])))"
  using frontier_stays_clean [of race_parser "\<lambda>_ _. None" "race_run [0, 0, 0]"] race_db_ok
  unfolding race_run_def by (blast intro: loop_run_reaches reaches_init)

lemma no_domain_starves_witness: "getInflight ''a.org'' (lp_cs leaked) \<le> DOMAIN_LIMIT"
proof -
  have "reaches (loop_step sqlite_statements race_parser (\<lambda>_ _. None))
      (\<lambda>s. \<exists>db cs. s = startCrawlLoop sqlite_statements db cs \<and> domainInflight cs = Map.empty) leaked"
    unfolding leaked_def race_run_def
    by (rule loop_run_reaches, rule reaches_init, intro exI conjI, rule refl) (simp add: new_CrawlState_def)
  moreover have "\<not> crashed leaked" using leaked_summary by (simp add: summary_def)
  ultimately show ?thesis using no_domain_starves by blast
qed

section \<open>The life of a failed fetch\<close>

text \<open>A failed fetch is final: when a fetch is rejected and the database works, its four
  segments, with any other tasks waiting, leave the URL visited and out of the frontier, so
  that it is never tried again; they count one failure for the crawl and one for the domain,
  free the fetch's place, and start the next \<open>processNext\<close>.\<close>

theorem failed_fetch_is_final:
  fixes U R
  assumes "tasks s = Fetch item d F_Flying # ts" and "\<not> crashed s" and "ch_fetched ch = Rejected e"
    and "\<not> ch_fault ch"
  defines "s' \<equiv> loop_run sqlite_statements U R
      [Run 0 ch, Run (length ts) ch, Run (length ts) ch, Run (length ts) ch] s"
  shows "tasks s' = ts @ [Chain P_Start] \<and> \<not> crashed s' \<and> active s' = active s - 1 \<and>
    isVisited (f_url item) (lp_db s') \<and> f_url item \<notin> f_url ` set (frontier (lp_db s')) \<and>
    nodes (lp_db s') = nodes (lp_db s) \<and> cs_fail (lp_cs s') = cs_fail (lp_cs s) + 1 \<and>
    get0 (domainFail (lp_cs s')) d = get0 (domainFail (lp_cs s)) d + 1 \<and>
    getInflight d (lp_cs s') = max 0 (getInflight d (lp_cs s) - 1)"
proof -
  have counts: "cs_fail (fetch_failed d cs) = cs_fail cs + 1 \<and>
      get0 (domainFail (fetch_failed d cs)) d = get0 (domainFail cs) d + 1 \<and>
      domainInflight (fetch_failed d cs) = domainInflight cs" for cs
    by (simp add: fetch_failed_def recordDomainFail_def Let_def)
  show ?thesis
    unfolding s'_def using assms(1-4) counts
    by (auto simp: take_task_def spawn_def try_db_def mark_fetched_def sqlite_statements_def
        setInflight_def markVisited_def deleteFromFrontier_def isVisited_def getInflight_def nth_append)
qed

lemma failed_fetch_is_final_witness:
  "\<exists>(s :: sqlite_store loop) (s' :: sqlite_store loop). tasks s = [Fetch (as_row ''http://a.org/1'' 0 None 1) ''a.org'' F_Flying] \<and>
    tasks s' = [Chain P_Start] \<and> isVisited ''http://a.org/1'' (lp_db s') \<and>
    ''http://a.org/1'' \<notin> f_url ` set (frontier (lp_db s'))"
  (is "\<exists>s s'. ?P s s'")
proof -
  let ?s = "(startCrawlLoop sqlite_statements race_db new_CrawlState)\<lparr>
      tasks := [Fetch (as_row ''http://a.org/1'' 0 None 1) ''a.org'' F_Flying]\<rparr>"
  let ?t = "loop_run sqlite_statements race_parser (\<lambda>_ _. None)
      [Run 0 quiet, Run 0 quiet, Run 0 quiet, Run 0 quiet] ?s"
  have "tasks ?s = [Fetch (as_row ''http://a.org/1'' 0 None 1) ''a.org'' F_Flying]" "\<not> crashed ?s"
    "ch_fetched quiet = Rejected Timeout" "\<not> ch_fault quiet"
    by (simp_all add: startCrawlLoop_def quiet_def)
  from failed_fetch_is_final [OF this, of race_parser "\<lambda>_ _. None", unfolded list.size] this(1)
  have "?P ?s ?t" by (auto simp only: append_Nil as_row_def frontier_row.simps FrontierItem.simps simp_thms)
  then show ?thesis by blast
qed
end
