(* ===== verification/Queue.thy ===== *)
theory Queue
  imports Seeds Numbers
begin

text \<open>
  The start-up half of src/queue.ts: \<open>checkDiskSpace\<close>, \<open>cleanupFrontier\<close>,
  \<open>rebuildFtsIfNeeded\<close> and \<open>initializeCrawl\<close>.
\<close>

section \<open>Disk space\<close>

definition field :: "string list \<Rightarrow> nat \<Rightarrow> string option" where
  "field xs i = (if i < length xs then Some (xs ! i) else None)"

record DiskSpace =
  ds_avail :: int
  ds_total :: int
  ds_used :: int
  ds_usagePct :: int

text \<open>
  The output of \<open>df -m\<close>, \<open>None\<close> where the command fails. The percentage is the exact
  quotient rounded half up.
\<close>

definition checkDiskSpace :: "string option \<Rightarrow> DiskSpace" where
  "checkDiskSpace out =
    (let lines = (case out of None \<Rightarrow> [] | Some s \<Rightarrow> js_split (CHR 0x0A) (js_trim s)) in
     if length lines \<ge> 2 then
       (let parts = split_ws (js_trim (lines ! 1));
            num = (\<lambda>i d. or_num (Option.bind (field parts i) js_parseInt) d);
            total = num 1 99999; used = num 2 0; avail = num 3 99999
        in \<lparr> ds_avail = avail, ds_total = total, ds_used = used,
             ds_usagePct = (if total > 0 then (200 * used + total) div (2 * total) else 0) \<rparr>)
     else \<lparr> ds_avail = 9999, ds_total = 9999, ds_used = 0, ds_usagePct = 0 \<rparr>)"

text \<open>The pause rule of the disk timer.\<close>

definition disk_paused :: "DiskSpace \<Rightarrow> bool" where
  "disk_paused d \<longleftrightarrow> ds_avail d < MIN_DISK_MB \<or> ds_usagePct d \<ge> DISK_MAX_USAGE_PCT"

definition df_line :: "string \<Rightarrow> nat \<Rightarrow> nat \<Rightarrow> nat \<Rightarrow> string \<Rightarrow> string" where
  "df_line fs tot used avail mount =
    fs @ CHR '' '' # js_digits tot @ CHR '' '' # js_digits used @ CHR '' '' # js_digits avail @
      CHR '' '' # mount"

lemma split_df_line:
  assumes "list_all (\<lambda>c. \<not> is_ws c) fs" and "list_all (\<lambda>c. \<not> is_ws c) mount" and "mount \<noteq> []"
  shows "split_ws (df_line fs tot used avail mount) = [fs, js_digits tot, js_digits used, js_digits avail, mount]"
proof -
  have "\<not> is_ws (hd mount)" using assms(2,3) by (cases mount) auto
  then show ?thesis
    unfolding df_line_def using assms digits_word
    by (simp add: split_ws_app split_ws_word hd_append)
qed



section \<open>Cleaning the frontier\<close>

text \<open>
  \<open>cleanupFrontier\<close> on SQLite. Above \<open>FRONTIER_MAX\<close> rows the table is dropped and
  created again, which also restarts its id sequence; a failing drop is logged (the two
  create statements after it are taken to succeed). Otherwise one pass deletes up to 50000
  visited rows: \<open>cleanupStmt\<close> is a wrapped statement, its \<open>run\<close> gives a promise without
  \<open>changes\<close>, so the loop condition is false after the first pass. A pass that throws is
  tried once more.
\<close>

definition sqlite_cleanupFrontier ::
  "(nat \<Rightarrow> bool) \<Rightarrow> (frontier_row list \<Rightarrow> frontier_row list) \<Rightarrow> int \<Rightarrow> sqlite_store \<Rightarrow> sqlite_store" where
  "sqlite_cleanupFrontier fault ord fCount s =
    (if fCount > FRONTIER_MAX then (if fault 0 then s else s\<lparr>frontier := [], seq := 0\<rparr>)
     else if \<not> fault 0 then snd (delete_visited ord 50000 s)
     else if \<not> fault 1 then snd (delete_visited ord 50000 s)
     else s)"

text \<open>
  On PostgreSQL the pass is repeated while it deletes rows. Above \<open>FRONTIER_MAX\<close> nothing
  happens: \<open>db.exec\<close> of the PostgreSQL backend (src/db-adapter.ts) does nothing.
\<close>

definition pg_clean_pass ::
  "(nat \<Rightarrow> bool) \<Rightarrow> (frontier_row list \<Rightarrow> frontier_row list) \<Rightarrow> nat \<Rightarrow> store \<Rightarrow> int \<times> nat \<times> store" where
  "pg_clean_pass fault ord i s =
    (if \<not> fault i then (case delete_visited ord 50000 s of (n, s') \<Rightarrow> (n, i + 1, s'))
     else if \<not> fault (i + 1) then (case delete_visited ord 50000 s of (n, s') \<Rightarrow> (n, i + 2, s'))
     else (0, i + 2, s))"

partial_function (option) pg_clean_loop ::
  "(nat \<Rightarrow> bool) \<Rightarrow> (frontier_row list \<Rightarrow> frontier_row list) \<Rightarrow> nat \<Rightarrow> store \<Rightarrow> store option" where
  "pg_clean_loop fault ord i s =
    (case pg_clean_pass fault ord i s of
       (n, j, s') \<Rightarrow> if n > 0 then pg_clean_loop fault ord j s' else Some s')"

definition pg_cleanupFrontier ::
  "(nat \<Rightarrow> bool) \<Rightarrow> (frontier_row list \<Rightarrow> frontier_row list) \<Rightarrow> int \<Rightarrow> store \<Rightarrow> store option" where
  "pg_cleanupFrontier fault ord fCount s =
    (if fCount > FRONTIER_MAX then Some s else pg_clean_loop fault ord 0 s)"

text \<open>What one pass deletes, when the database returns the matching rows in some order.\<close>

definition permutes :: "('a list \<Rightarrow> 'a list) \<Rightarrow> bool" where
  "permutes ord \<longleftrightarrow> (\<forall>xs. mset (ord xs) = mset xs)"

definition unvisited :: "'a store_scheme \<Rightarrow> frontier_row list" where
  "unvisited s = filter (\<lambda>r. f_url r \<notin> visited s) (frontier s)"

lemma delete_visited_facts:
  assumes "store_ok s" and "permutes ord" and "delete_visited ord limit s = (n, s')"
  shows "store_ok s' \<and> visited s' = visited s \<and> nodes s' = nodes s \<and> unvisited s' = unvisited s"
    and "n > 0 \<Longrightarrow> length (frontier s') < length (frontier s)"
    and "n = 0 \<Longrightarrow> 0 < limit \<Longrightarrow> frontier s' = unvisited s"
    and "length (frontier s) \<le> limit \<Longrightarrow> frontier s' = unvisited s"
proof -
  let ?v = "filter (\<lambda>r. f_url r \<in> visited s) (frontier s)"
  let ?del = "take limit (ord ?v)"
  have m: "mset (ord ?v) = mset ?v" using assms(2) by (simp add: permutes_def)
  have n: "n = int (length ?del)"
    and s': "s' = s\<lparr>frontier := filter (\<lambda>r. f_id r \<notin> f_id ` set ?del) (frontier s)\<rparr>"
    using assms(3) by (auto simp: delete_visited_def Let_def)
  have "sorted_wrt (<) (map f_id (frontier s))" using assms(1) by (simp add: store_ok_def frontier_ok_def)
  then have inj: "inj_on f_id (set (frontier s))" by (simp add: strict_sorted_iff distinct_map)
  have sub: "set ?del \<subseteq> set ?v" using mset_eq_setD [OF m] set_take_subset by metis
  have gone: "f_id r \<in> f_id ` set ?del \<longleftrightarrow> r \<in> set ?del" if "r \<in> set (frontier s)" for r
    using that inj sub by (auto simp: inj_on_def)
  have f': "frontier s' = filter (\<lambda>r. r \<notin> set ?del) (frontier s)"
    unfolding s' using gone by (auto intro: filter_cong)
  have "store_ok s'" using store_ok_delete_visited [OF assms(1), of ord limit] assms(3) by simp
  moreover have "unvisited s' = unvisited s"
    unfolding unvisited_def f' filter_filter using sub by (auto simp: s' intro!: filter_cong)
  ultimately show "store_ok s' \<and> visited s' = visited s \<and> nodes s' = nodes s \<and> unvisited s' = unvisited s"
    by (simp add: s')
  show "length (frontier s') < length (frontier s)" if "n > 0"
  proof -
    from that n obtain r where "r \<in> set ?del" by (metis length_greater_0_conv of_nat_0_less_iff last_in_set)
    with sub show ?thesis unfolding f' by (intro length_filter_less) auto
  qed
  have all: "frontier s' = unvisited s" if "set ?del = set ?v"
    unfolding f' that unvisited_def by (auto intro: filter_cong)
  show "frontier s' = unvisited s" if "n = 0" "0 < limit"
  proof (rule all)
    from that n have "ord ?v = []" by (auto simp: min_def split: if_splits)
    then show "set ?del = set ?v" using mset_eq_setD [OF m] by simp
  qed
  show "frontier s' = unvisited s" if "length (frontier s) \<le> limit"
  proof (rule all)
    have "length (ord ?v) \<le> limit"
      using mset_eq_length [OF m] length_filter_le [of _ "frontier s"] that le_trans by metis
    then show "set ?del = set ?v" using mset_eq_setD [OF m] by simp
  qed
qed

lemma pg_clean_returns:
  assumes "permutes ord" and "store_ok s"
  shows "\<exists>s'. pg_clean_loop fault ord i s = Some s' \<and> store_ok s' \<and> visited s' = visited s \<and>
    nodes s' = nodes s \<and> unvisited s' = unvisited s \<and>
    ((\<forall>i. \<not> fault i) \<longrightarrow> frontier s' = unvisited s)"
  using assms(2)
proof (induction "length (frontier s)" arbitrary: i s rule: less_induct)
  case less
  obtain n j t where pass: "pg_clean_pass fault ord i s = (n, j, t)" by (metis prod_cases3)
  then consider (del) "delete_visited ord 50000 s = (n, t)" | (skip) "n = 0" "t = s" "fault i"
    by (auto simp: pg_clean_pass_def split: if_splits prod.splits)
  then show ?case
  proof cases
    case del
    note facts = delete_visited_facts [OF less.prems assms(1) del]
    show ?thesis
    proof (cases "n > 0")
      case True
      with less.hyps [OF facts(2), of j] facts(1) show ?thesis
        by (simp add: pg_clean_loop.simps [of fault ord i s] pass)
    next
      case False
      have "n \<ge> 0" using del by (auto simp: delete_visited_def Let_def)
      with False facts(1,3) show ?thesis
        by (simp add: pg_clean_loop.simps [of fault ord i s] pass)
    qed
  next
    case skip
    then show ?thesis using less.prems by (auto simp: pg_clean_loop.simps [of fault ord i s] pass)
  qed
qed

text \<open>C32. Start-up cleaning: with a working database, both backends leave exactly the unvisited
  rows when the frontier is within \<open>FRONTIER_MAX\<close>, the repeated passes on PostgreSQL
  coming to an end, and SQLite in a single pass. Above it SQLite starts with an empty frontier;
  PostgreSQL keeps every row.\<close>

theorem frontier_cleanup:
  assumes "permutes ord" and "store_ok s" and "store_ok p" and "\<forall>i. \<not> fault i"
  shows "frontier (sqlite_cleanupFrontier fault ord (frontierCount s) s) =
      (if frontierCount s > FRONTIER_MAX then [] else unvisited s) \<and>
    (\<exists>p'. pg_cleanupFrontier fault ord (frontierCount p) p = Some p' \<and>
      frontier p' = (if frontierCount p > FRONTIER_MAX then frontier p else unvisited p))"
proof (rule conjI)
  obtain n s' where del: "delete_visited ord 50000 s = (n, s')" by fastforce
  show "frontier (sqlite_cleanupFrontier fault ord (frontierCount s) s) =
      (if frontierCount s > FRONTIER_MAX then [] else unvisited s)"
    using delete_visited_facts(4) [OF assms(2,1) del] assms(4) del
    by (simp add: sqlite_cleanupFrontier_def frontierCount_def FRONTIER_MAX_def)
  show "\<exists>p'. pg_cleanupFrontier fault ord (frontierCount p) p = Some p' \<and>
      frontier p' = (if frontierCount p > FRONTIER_MAX then frontier p else unvisited p)"
    using pg_clean_returns [OF assms(1,3), of fault 0] assms(4)
    by (auto simp: pg_cleanupFrontier_def)
qed

lemma frontier_cleanup_witness:
  "frontier (sqlite_cleanupFrontier (\<lambda>_. False) rev (frontierCount (markVisited ''a'' demo_store))
     (markVisited ''a'' demo_store)) = unvisited (markVisited ''a'' demo_store)"
proof -
  have ok: "store_ok (markVisited ''a'' demo_store)" by (simp add: demo_store_def preserves)
  have pg: "store_ok \<lparr>nodes = [], visited = {}, frontier = [], seq = 0\<rparr>"
    by (simp add: store_ok_def frontier_ok_def nodes_ok_def)
  have count: "frontierCount (markVisited ''a'' demo_store) \<le> FRONTIER_MAX"
    by (simp add: frontierCount_def FRONTIER_MAX_def demo_store_def insertFrontier_def empty_sqlite_def markVisited_def)
  show ?thesis
    using frontier_cleanup [of rev, OF _ ok pg, of "\<lambda>_. False"] count by (simp add: permutes_def)
qed

section \<open>The full-text index\<close>

text \<open>
  \<open>rebuildFtsIfNeeded\<close>: below 80 percent of the pages the index is emptied and filled again
  (\<open>ftsCount < existing * 0.8\<close> on doubles agrees with the integers for any table size: the
  rounded product of a count below \<open>2 ^ 50\<close> does not cross an integer). A failing refill
  leaves it empty.
\<close>

definition rebuildFtsIfNeeded ::
  "db_backend \<Rightarrow> (nat \<Rightarrow> bool) \<Rightarrow> int \<Rightarrow> int \<Rightarrow> sqlite_store \<Rightarrow> sqlite_store" where
  "rebuildFtsIfNeeded backend fault existing fts s =
    (if backend = Pg then s
     else if 5 * fts < 4 * existing then
       (if fault 0 then s
        else if fault 1 then s\<lparr>nodes_fts := []\<rparr>
        else rebuildFts (s\<lparr>nodes_fts := []\<rparr>))
     else s)"

text \<open>
  \<open>initializeCrawl\<close> on SQLite: count, clean, repair the index, seed. The faults of each part
  are its own; resolving the seed hosts only warms the DNS cache, and the Kafka consumer is
  started in \<open>Kafka\<close>.
\<close>

definition sqlite_initializeCrawl ::
  "(nat \<Rightarrow> bool) \<Rightarrow> (nat \<Rightarrow> bool) \<Rightarrow> (nat \<Rightarrow> bool) \<Rightarrow> (frontier_row list \<Rightarrow> frontier_row list) \<Rightarrow>
   sqlite_store \<Rightarrow> sqlite_store" where
  "sqlite_initializeCrawl clean_fault fts_fault seed_fault ord s =
    (let existing = nodeCount s;
         fc = frontierCount s;
         s = sqlite_cleanupFrontier clean_fault ord fc s;
         s = rebuildFtsIfNeeded Sqlite fts_fault existing (ftsCount s) s
     in seedInitialUrls sqlite_statements seed_fault SEEDS s)"

lemma rebuildFts_frame:
  "nodes (rebuildFtsIfNeeded b f e c s) = nodes s \<and> frontier (rebuildFtsIfNeeded b f e c s) = frontier s \<and>
   visited (rebuildFtsIfNeeded b f e c s) = visited s"
  by (simp add: rebuildFtsIfNeeded_def rebuildFts_def)

lemma rebuildFts_enough:
  "5 * ftsCount (rebuildFtsIfNeeded Sqlite (\<lambda>_. False) (nodeCount s) (ftsCount s) s) \<ge> 4 * nodeCount s"
  by (simp add: rebuildFtsIfNeeded_def rebuildFts_def ftsCount_def nodeCount_def)

lemma seed_nodes:
  "nodes (seedInitialUrls sqlite_statements f us s) = nodes s \<and>
   nodes_fts (seedInitialUrls sqlite_statements f us s) = nodes_fts s"
  by (induction us arbitrary: f s) (auto simp: sqlite_statements_def insertFrontier_def)



end
