(* ===== verification/Kafka.thy ===== *)
theory Kafka
  imports Store Fetcher "HOL-Library.Word"
begin

text \<open>
  src/kafka.ts: the client, the URL queue over Kafka with its local fallback, and the handler
  of consumed messages. The broker is outside the repository: \<open>kq_sent\<close>, \<open>kq_dlq\<close> and
  \<open>kq_processed\<close> list the messages that its three topics have accepted, and arguments say
  which calls fail.
\<close>

section \<open>The client\<close>

text \<open>
  The two module variables; a client that is created stays in its variable, connected or not.
  \<open>NotCreated\<close>: the constructor throws; \<open>NotConnected\<close>: \<open>connect\<close> rejects.
\<close>

record kafka_client =
  producer :: bool
  consumer :: bool

datatype connect_outcome = NotCreated | NotConnected | Connected

definition connectProducer :: "connect_outcome \<Rightarrow> kafka_client \<Rightarrow> bool \<times> kafka_client" where
  "connectProducer out c =
    (case out of
       NotCreated \<Rightarrow> (False, c)
     | NotConnected \<Rightarrow> (False, c\<lparr>producer := True\<rparr>)
     | Connected \<Rightarrow> (True, c\<lparr>producer := True\<rparr>))"

definition connectConsumer :: "connect_outcome \<Rightarrow> kafka_client \<Rightarrow> bool \<times> kafka_client" where
  "connectConsumer out c =
    (case out of
       NotCreated \<Rightarrow> (False, c)
     | NotConnected \<Rightarrow> (False, c\<lparr>consumer := True\<rparr>)
     | Connected \<Rightarrow> (True, c\<lparr>consumer := True\<rparr>))"

definition kafka_isConnected :: "kafka_client \<Rightarrow> bool" where
  "kafka_isConnected c = producer c"

section \<open>The queue\<close>

record kafka_message =
  m_key :: url
  m_depth :: int
  m_parent :: "url option"
  m_partition :: nat

record dlq_message =
  dlq_url :: url
  dlq_error :: "string option"
  dlq_timestamp :: time_ms

record KafkaUrlQueue =
  kq_enabled :: bool
  localQueue :: "FrontierItem list"
  seen :: "url list"
  seenMax :: nat
  kq_sent :: "kafka_message list"
  kq_dlq :: "dlq_message list"
  kq_processed :: "(url \<times> time_ms) list"

definition new_KafkaUrlQueue :: KafkaUrlQueue where
  "new_KafkaUrlQueue =
    \<lparr>kq_enabled = False, localQueue = [], seen = [], seenMax = 100000,
     kq_sent = [], kq_dlq = [], kq_processed = []\<rparr>"

text \<open>
  \<open>init\<close>: the error of \<open>createTopics\<close> is caught, an admin client that does not connect or
  disconnect makes it throw (\<open>None\<close>), with \<open>enabled\<close> already set.
\<close>

definition kafka_init ::
  "connect_outcome \<Rightarrow> bool \<Rightarrow> kafka_client \<times> KafkaUrlQueue \<Rightarrow> bool option \<times> kafka_client \<times> KafkaUrlQueue" where
  "kafka_init out admin_fails = (\<lambda>(c, q).
    (let (ok, c) = connectProducer out c; q = q\<lparr>kq_enabled := ok\<rparr>
     in (if ok \<and> admin_fails then None else Some ok, c, q)))"

text \<open>
  \<open>hash = (hash * 31 + charCode) | 0\<close>: a signed 32-bit integer. The product of a 32-bit
  integer and 31 is exact in a double, so \<open>| 0\<close> is the wrap-around of \<open>32 word\<close>.
\<close>

definition host_hash :: "string \<Rightarrow> 32 word" where
  "host_hash s = foldl (\<lambda>h c. h * 31 + word_of_nat (of_char c)) 0 s"

definition domainPartition :: "url_parser \<Rightarrow> url \<Rightarrow> nat" where
  "domainPartition U u =
    (case U u of None \<Rightarrow> 0 | Some p \<Rightarrow> nat (\<bar>sint (host_hash (u_hostname p))\<bar> mod 6))"

definition kafka_message_of :: "url_parser \<Rightarrow> FrontierItem \<Rightarrow> kafka_message" where
  "kafka_message_of U i =
    \<lparr>m_key = f_url i, m_depth = f_depth i, m_parent = f_parent i, m_partition = domainPartition U (f_url i)\<rparr>"

text \<open>\<open>seen\<close> is a JavaScript set, in insertion order; when it is over its size the oldest half goes.\<close>

definition remember :: "url \<Rightarrow> KafkaUrlQueue \<Rightarrow> KafkaUrlQueue" where
  "remember u q = (if u \<in> set (seen q) then q else q\<lparr>seen := seen q @ [u]\<rparr>)"

definition kafka_enqueue :: "url_parser \<Rightarrow> bool \<Rightarrow> FrontierItem \<Rightarrow> KafkaUrlQueue \<Rightarrow> KafkaUrlQueue" where
  "kafka_enqueue U send_fails i q =
    (if f_url i \<in> set (seen q) then q
     else
       (let q = remember (f_url i) q;
            q = (if length (seen q) > seenMax q
                 then q\<lparr>seen := drop ((seenMax q + 1) div 2) (seen q)\<rparr> else q)
        in if \<not> kq_enabled q then q\<lparr>localQueue := localQueue q @ [i]\<rparr>
           else if send_fails then q\<lparr>localQueue := localQueue q @ [i]\<rparr>
           else q\<lparr>kq_sent := kq_sent q @ [kafka_message_of U i]\<rparr>))"

fun enqueue_local :: "FrontierItem list \<Rightarrow> KafkaUrlQueue \<Rightarrow> KafkaUrlQueue" where
  "enqueue_local [] q = q"
| "enqueue_local (i # is) q =
    enqueue_local is
      (if f_url i \<in> set (seen q) then q
       else (remember (f_url i) q)\<lparr>localQueue := localQueue q @ [i]\<rparr>)"

text \<open>
  With a broker the whole batch is filtered first and then marked as seen while the messages
  are built, before \<open>send\<close>; the \<open>catch\<close> block then looks at the updated \<open>seen\<close>.
\<close>

definition enqueueBatch :: "url_parser \<Rightarrow> bool \<Rightarrow> FrontierItem list \<Rightarrow> KafkaUrlQueue \<Rightarrow> KafkaUrlQueue" where
  "enqueueBatch U send_fails urls q =
    (if \<not> kq_enabled q then enqueue_local urls q
     else
       (let fresh = filter (\<lambda>u. f_url u \<notin> set (seen q)) urls;
            q' = fold (\<lambda>u. remember (f_url u)) fresh q
        in if fresh = [] then q'
           else if send_fails then enqueue_local urls q'
           else q'\<lparr>kq_sent := kq_sent q' @ map (kafka_message_of U) fresh\<rparr>))"

definition kafka_dequeue :: "KafkaUrlQueue \<Rightarrow> FrontierItem option \<times> KafkaUrlQueue" where
  "kafka_dequeue q =
    (case localQueue q of [] \<Rightarrow> (None, q) | i # is \<Rightarrow> (Some i, q\<lparr>localQueue := is\<rparr>))"

definition kafka_size :: "KafkaUrlQueue \<Rightarrow> nat" where
  "kafka_size q = length (localQueue q)"

text \<open>Both ignore a queue without a broker and swallow a failing send.\<close>

definition sendToDlq :: "bool \<Rightarrow> time_ms \<Rightarrow> url \<Rightarrow> string option \<Rightarrow> KafkaUrlQueue \<Rightarrow> KafkaUrlQueue" where
  "sendToDlq send_fails now u err q =
    (if \<not> kq_enabled q then q
     else if send_fails then q
     else q\<lparr>kq_dlq := kq_dlq q @ [\<lparr>dlq_url = u, dlq_error = err, dlq_timestamp = now\<rparr>]\<rparr>)"

definition markProcessed :: "bool \<Rightarrow> time_ms \<Rightarrow> url \<Rightarrow> KafkaUrlQueue \<Rightarrow> KafkaUrlQueue" where
  "markProcessed send_fails now u q =
    (if \<not> kq_enabled q then q
     else if send_fails then q
     else q\<lparr>kq_processed := kq_processed q @ [(u, now)]\<rparr>)"

section \<open>Consumed messages\<close>

text \<open>
  The value of a message: not JSON (or absent), with the message of the error; JSON from
  which no row can be made, because it has no \<open>url\<close>; or the fields of a URL.
\<close>

datatype message_value = NotJson string | NoUrl | UrlMessage url "int option" "url option"

record consumed =
  c_key :: "url option"
  c_value :: message_value

text \<open>The handler of the crawler: it inserts the row and swallows every error of its own.\<close>

definition insert_handler ::
  "'s Statements \<Rightarrow> bool \<Rightarrow> message_value \<Rightarrow> 's \<Rightarrow> 's" where
  "insert_handler st insert_fails v db =
    (case v of
       UrlMessage u depth parent \<Rightarrow>
         (if insert_fails then db
          else run_insertFrontier st u (or_num depth 0) (if parent = Some [] then None else parent) db)
     | _ \<Rightarrow> db)"

text \<open>
  \<open>eachMessage\<close>: \<open>None\<close> when it throws itself, which the message without a key does that the
  \<open>catch\<close> block wants to name.
\<close>

definition eachMessage ::
  "'s Statements \<Rightarrow> bool \<Rightarrow> bool \<Rightarrow> time_ms \<Rightarrow> consumed \<Rightarrow> 's \<times> KafkaUrlQueue \<Rightarrow> ('s \<times> KafkaUrlQueue) option" where
  "eachMessage st insert_fails dlq_fails now m = (\<lambda>(db, q).
    (case c_value m of
       NotJson err \<Rightarrow>
         (case c_key m of
            None \<Rightarrow> None
          | Some k \<Rightarrow> Some (db, sendToDlq dlq_fails now k (Some err) q))
     | v \<Rightarrow> Some (insert_handler st insert_fails v db, q)))"

section \<open>Partitions\<close>

lemma domainPartition_bound: "domainPartition U u < 6"
proof -
  have "nat (\<bar>sint (h :: 32 word)\<bar> mod 6) < 6" for h
    by (simp add: nat_less_iff)
  then show ?thesis by (simp add: domainPartition_def split: option.splits)
qed

section \<open>What is queued\<close>

text \<open>Everything the queue holds or has handed to the broker.\<close>

definition accepted :: "KafkaUrlQueue \<Rightarrow> url list" where
  "accepted q = map f_url (localQueue q) @ map m_key (kq_sent q)"

definition queue_ok :: "KafkaUrlQueue \<Rightarrow> bool" where
  "queue_ok q \<longleftrightarrow> distinct (accepted q) \<and> set (accepted q) \<subseteq> set (seen q) \<and> distinct (seen q)"

lemma queue_ok_enqueue [preserves]:
  assumes "queue_ok q" and "length (seen q) < seenMax q"
  shows "queue_ok (kafka_enqueue U f i q)"
  using assms
  by (auto simp: queue_ok_def accepted_def kafka_enqueue_def remember_def kafka_message_of_def Let_def)

lemma remember_frame [simp]:
  "localQueue (remember u q) = localQueue q" "kq_sent (remember u q) = kq_sent q"
  "kq_enabled (remember u q) = kq_enabled q" "kq_dlq (remember u q) = kq_dlq q" "seenMax (remember u q) = seenMax q"
  "set (seen (remember u q)) = insert u (set (seen q))"
  by (auto simp: remember_def)

lemma fold_remember:
  "localQueue (fold (\<lambda>u. remember (f_url u)) is q) = localQueue q \<and>
   kq_sent (fold (\<lambda>u. remember (f_url u)) is q) = kq_sent q \<and>
   kq_enabled (fold (\<lambda>u. remember (f_url u)) is q) = kq_enabled q \<and>
   set (seen (fold (\<lambda>u. remember (f_url u)) is q)) = f_url ` set is \<union> set (seen q)"
  by (induction "is" arbitrary: q) auto

lemma enqueue_local_seen:
  "f_url ` set is \<subseteq> set (seen q) \<Longrightarrow> enqueue_local is q = q"
  by (induction "is") auto

text \<open>One URL at a time is never lost or doubled: enqueueing an item whose URL is not in
  \<open>seen\<close> puts it in the local queue or hands it to the broker, whether the broker is down,
  fails or accepts it, in a partition below 6; and while \<open>seen\<close> is not full no URL is accepted
  twice.\<close>

theorem enqueue_keeps_url:
  assumes "queue_ok q" and "length (seen q) < seenMax q" and "f_url i \<notin> set (seen q)"
  shows "accepted (kafka_enqueue U f i q) \<in>
      {map f_url (localQueue q) @ f_url i # map m_key (kq_sent q), accepted q @ [f_url i]} \<and>
    distinct (accepted (kafka_enqueue U f i q)) \<and>
    kafka_enqueue U g i (kafka_enqueue U f i q) = kafka_enqueue U f i q \<and>
    list_all (\<lambda>m. m_partition m < 6) (drop (length (kq_sent q)) (kq_sent (kafka_enqueue U f i q)))"
  using assms queue_ok_enqueue [OF assms(1,2), of U f i]
  by (auto simp: kafka_enqueue_def accepted_def remember_def kafka_message_of_def Let_def
      domainPartition_bound queue_ok_def)

lemma enqueue_keeps_url_witness:
  "accepted (kafka_enqueue (\<lambda>_. None) True \<lparr>f_url = ''a'', f_depth = 0, f_parent = None\<rparr> new_KafkaUrlQueue) = [''a'']"
  using enqueue_keeps_url [of new_KafkaUrlQueue "\<lparr>f_url = ''a'', f_depth = 0, f_parent = None\<rparr>" "\<lambda>_. None" True]
  by (simp add: new_KafkaUrlQueue_def queue_ok_def accepted_def)

text \<open>A failed batch is lost: when the broker is enabled and the send of a batch fails, none of
  its URLs reaches the local queue or the broker, and every one of them is ignored when it is
  enqueued again.\<close>

theorem failed_batch_is_lost:
  assumes "kq_enabled q" and "j \<in> set urls"
  shows "accepted (enqueueBatch U True urls q) = accepted q \<and>
    kafka_enqueue U f j (enqueueBatch U True urls q) = enqueueBatch U True urls q"
proof -
  let ?fresh = "filter (\<lambda>u. f_url u \<notin> set (seen q)) urls"
  let ?q = "fold (\<lambda>u. remember (f_url u)) ?fresh q"
  have seen: "f_url ` set urls \<subseteq> set (seen ?q)" using fold_remember [of ?fresh q] by auto
  have "enqueueBatch U True urls q = ?q"
    using assms(1) enqueue_local_seen [OF seen] by (simp add: enqueueBatch_def Let_def)
  moreover have "f_url j \<in> set (seen ?q)" using seen assms(2) by auto
  ultimately show ?thesis using fold_remember [of ?fresh q] by (simp add: accepted_def kafka_enqueue_def)
qed

definition demo_client :: kafka_client where
  "demo_client = \<lparr>producer = False, consumer = False\<rparr>"

lemma failed_batch_is_lost_witness:
  "accepted (enqueueBatch (\<lambda>_. None) True [\<lparr>f_url = ''a'', f_depth = 0, f_parent = None\<rparr>]
     (snd (snd (kafka_init Connected False (demo_client, new_KafkaUrlQueue))))) = []"
  using failed_batch_is_lost [of "snd (snd (kafka_init Connected False (demo_client, new_KafkaUrlQueue)))" "\<lparr>f_url = ''a'', f_depth = 0, f_parent = None\<rparr>"
    "[\<lparr>f_url = ''a'', f_depth = 0, f_parent = None\<rparr>]" "\<lambda>_. None"]
  by (simp add: kafka_init_def connectProducer_def new_KafkaUrlQueue_def accepted_def)

end
