(* ===== verification/KafkaCrawl.thy ===== *)
theory KafkaCrawl
  imports Kafka CrawlLoop StoreBackends
begin

text \<open>
  The Kafka side of src/queue.ts: the consumer that feeds the frontier, and \<open>enqueueUrl\<close>, the
  single-URL counterpart of the loop over a page's links.
\<close>

section \<open>The consumer\<close>

record kafka_wiring =
  kw_client :: kafka_client
  kafkaQueue :: "KafkaUrlQueue option"
  kafkaConsumerRunning :: bool

definition new_wiring :: kafka_wiring where
  "new_wiring = \<lparr>kw_client = \<lparr>producer = False, consumer = False\<rparr>, kafkaQueue = None, kafkaConsumerRunning = False\<rparr>"

definition startKafkaConsumer :: "bool \<Rightarrow> connect_outcome \<Rightarrow> bool \<Rightarrow> kafka_wiring \<Rightarrow> kafka_wiring" where
  "startKafkaConsumer KAFKA_ENABLED out admin_fails w =
    (if \<not> KAFKA_ENABLED \<or> kafkaConsumerRunning w then w
     else (case kafka_init out admin_fails (kw_client w, new_KafkaUrlQueue) of
       (None, c, q) \<Rightarrow> w\<lparr>kw_client := c, kafkaQueue := None\<rparr>
     | (Some False, c, q) \<Rightarrow> w\<lparr>kw_client := c, kafkaQueue := None\<rparr>
     | (Some True, c, q) \<Rightarrow> w\<lparr>kw_client := c, kafkaQueue := Some q, kafkaConsumerRunning := True\<rparr>))"

text \<open>\<open>consumeMessages\<close> has rejected: its consumer did not connect, subscribe or run.\<close>

definition consumer_rejected :: "kafka_wiring \<Rightarrow> kafka_wiring" where
  "consumer_rejected w = w\<lparr>kafkaConsumerRunning := False\<rparr>"

definition kafkaEnqueue :: "url_parser \<Rightarrow> bool \<Rightarrow> FrontierItem \<Rightarrow> kafka_wiring \<Rightarrow> bool \<times> kafka_wiring" where
  "kafkaEnqueue U send_fails i w =
    (case kafkaQueue w of
       None \<Rightarrow> (False, w)
     | Some q \<Rightarrow> (True, w\<lparr>kafkaQueue := Some (kafka_enqueue U send_fails i q)\<rparr>))"

section \<open>enqueueUrl\<close>

record 's enqueue_state =
  eq_links :: nat
  eq_cs :: crawl_state
  eq_db :: 's
  eq_wiring :: kafka_wiring

record enqueue_env =
  ee_refresh_fault :: "nat \<Rightarrow> bool"
  ee_pop :: "(domain \<times> int) list \<Rightarrow> (domain \<times> int) list"
  ee_insert_fails :: bool
  ee_send_fails :: bool

text \<open>Every 201st URL that passes the first two checks refreshes the counts first.\<close>

definition enqueueUrl ::
  "bool \<Rightarrow> 's Statements \<Rightarrow> url_parser \<Rightarrow> enqueue_env \<Rightarrow> url \<Rightarrow> int \<Rightarrow> url option \<Rightarrow>
   's enqueue_state \<Rightarrow> 's enqueue_state" where
  "enqueueUrl KAFKA_ENABLED st U env u depth parent s =
    (if isBlacklisted U u then s
     else if depth > MAX_DEPTH then s
     else
       (let s = s\<lparr>eq_links := eq_links s + 1\<rparr>;
            s = (if eq_links s > 200
                 then s\<lparr>eq_cs := refresh (ee_refresh_fault env) (ee_pop env) st (eq_db s) (eq_cs s), eq_links := 0\<rparr>
                 else s)
        in if cs_nodeCount (eq_cs s) \<ge> MAX_NODES then s
           else if cs_frontierCount (eq_cs s) \<ge> MAX_FRONTIER then s
           else if diskPaused (eq_cs s) then s
           else (let dom = getDomain U u in
             if dom \<noteq> [] \<and> getDomainCount dom (eq_cs s) \<ge> DOMAIN_MAX then s
             else if KAFKA_ENABLED \<and> kafkaQueue (eq_wiring s) \<noteq> None then
               s\<lparr>eq_wiring := snd (kafkaEnqueue U (ee_send_fails env)
                   \<lparr>f_url = u, f_depth = depth, f_parent = parent\<rparr> (eq_wiring s))\<rparr>
             else s\<lparr>eq_db := (if ee_insert_fails env then eq_db s
                             else run_insertFrontier st u depth parent (eq_db s))\<rparr>)))"

lemma enqueueUrl_links: "eq_links s \<le> 200 \<Longrightarrow> eq_links (enqueueUrl K st U env u depth parent s) \<le> 200"
  by (simp add: enqueueUrl_def Let_def)

text \<open>
  Between two refreshes \<open>enqueueUrl\<close> and the loop over a page's links accept the same URLs, up
  to the automatic blacklist, which only the loop asks.
\<close>

lemma enqueueUrl_page_batch:
  assumes "eq_links s < 200" and "\<not> ee_insert_fails env"
    and "\<not> (getDomain U u \<noteq> [] \<and> isDomainBlacklisted (getDomain U u) (eq_cs s))"
  shows "eq_db (enqueueUrl False st U env u (depth + 1) (Some from_url) s) =
    fold (\<lambda>i. run_insertFrontier st (f_url i) (f_depth i) (f_parent i))
      (page_batch U (eq_cs s) depth from_url [u]) (eq_db s)"
  using assms by (auto simp: enqueueUrl_def Let_def)

text \<open>A URL that goes to Kafka while the broker fails is kept in memory only: nothing takes it out again.\<close>

lemma enqueueUrl_kafka:
  assumes "kafkaQueue (eq_wiring s) = Some q"
  shows "eq_db (enqueueUrl True st U env u depth parent s) = eq_db s"
  using assms by (simp add: enqueueUrl_def Let_def)

section \<open>Messages into the frontier\<close>

text \<open>
  A run of the consumer: each message with the outcome of its statement and of the send to
  the dead-letter topic, at its time.
\<close>

record delivery =
  dv_message :: consumed
  dv_insert_fails :: bool
  dv_dlq_fails :: bool
  dv_now :: time_ms

fun consume :: "'s Statements \<Rightarrow> delivery list \<Rightarrow> 's \<times> KafkaUrlQueue \<Rightarrow> ('s \<times> KafkaUrlQueue) option" where
  "consume st [] s = Some s"
| "consume st (d # ds) s =
    Option.bind (eachMessage st (dv_insert_fails d) (dv_dlq_fails d) (dv_now d) (dv_message d) s) (consume st ds)"

text \<open>The URLs that deliveries insert, and the keys they report.\<close>

definition inserts :: "delivery \<Rightarrow> url list" where
  "inserts d = (case c_value (dv_message d) of UrlMessage u _ _ \<Rightarrow> if dv_insert_fails d then [] else [u] | _ \<Rightarrow> [])"

definition reports :: "delivery \<Rightarrow> url list" where
  "reports d = (case c_value (dv_message d) of
     NotJson _ \<Rightarrow> if dv_dlq_fails d then [] else (case c_key (dv_message d) of None \<Rightarrow> [] | Some k \<Rightarrow> [k]) | _ \<Rightarrow> [])"

definition keyed :: "delivery \<Rightarrow> bool" where
  "keyed d \<longleftrightarrow> c_key (dv_message d) \<noteq> None"

definition silent :: "delivery \<Rightarrow> bool" where
  "silent d \<longleftrightarrow> inserts d = [] \<and> reports d = []"

lemma eachMessage_keyed:
  assumes "keyed d" and "kq_enabled q"
  shows "\<exists>db' q'. eachMessage st (dv_insert_fails d) (dv_dlq_fails d) (dv_now d) (dv_message d) (db, q) = Some (db', q') \<and>
    kq_enabled q' \<and> map dlq_url (kq_dlq q') = map dlq_url (kq_dlq q) @ reports d \<and>
    (db' = db \<and> inserts d = [] \<or> (\<exists>u n p. db' = run_insertFrontier st u n p db \<and> inserts d = [u]))"
  using assms
  by (auto simp: eachMessage_def keyed_def sendToDlq_def insert_handler_def inserts_def reports_def
      split: message_value.splits)

context crawl_store
begin

lemma consume_frontier:
  assumes "\<forall>d \<in> set ds. keyed d" and "kq_enabled q"
  shows "\<exists>db' q'. consume st ds (db, q) = Some (db', q') \<and>
    f_url ` set (pend db') = f_url ` set (pend db) \<union> set (concat (map inserts ds)) \<and>
    map dlq_url (kq_dlq q') = map dlq_url (kq_dlq q) @ concat (map reports ds)"
  using assms
proof (induction ds arbitrary: db q)
  case Nil
  then show ?case by simp
next
  case (Cons d ds)
  obtain db1 q1 where step: "eachMessage st (dv_insert_fails d) (dv_dlq_fails d) (dv_now d) (dv_message d) (db, q) = Some (db1, q1)"
    and q1: "kq_enabled q1" "map dlq_url (kq_dlq q1) = map dlq_url (kq_dlq q) @ reports d"
    and db1: "db1 = db \<and> inserts d = [] \<or> (\<exists>u n p. db1 = run_insertFrontier st u n p db \<and> inserts d = [u])"
    using eachMessage_keyed [of d q st db] Cons.prems by (metis list.set_intros(1))
  have pend1: "f_url ` set (pend db1) = f_url ` set (pend db) \<union> set (inserts d)"
    using db1 by (elim disjE exE conjE) (simp_all only: insert_urls, auto)
  obtain db2 q2 where rest: "consume st ds (db1, q1) = Some (db2, q2)"
    "f_url ` set (pend db2) = f_url ` set (pend db1) \<union> set (concat (map inserts ds))"
    "map dlq_url (kq_dlq q2) = map dlq_url (kq_dlq q1) @ concat (map reports ds)"
    using Cons.IH [OF _ q1(1), of db1] Cons.prems(1) by auto
  then show ?case using step pend1 q1(2) by auto
qed

end

lemma consume_silent:
  assumes "\<forall>d \<in> set ds. keyed d"
  shows "consume st (filter (\<lambda>d. \<not> silent d) ds) s = consume st ds s"
  using assms
proof (induction ds arbitrary: s)
  case (Cons d ds)
  have "eachMessage st (dv_insert_fails d) (dv_dlq_fails d) (dv_now d) (dv_message d) s = Some s" if "silent d"
    using that Cons.prems
    by (cases s) (auto simp: silent_def eachMessage_def keyed_def sendToDlq_def insert_handler_def inserts_def
        reports_def split: message_value.splits if_splits)
  moreover have "consume st (filter (\<lambda>d. \<not> silent d) ds) = consume st ds"
    using Cons by (intro ext) simp
  ultimately show ?case by (cases "silent d") simp_all
qed simp

text \<open>Kafka feeds the frontier without asking: when every message has a key, the consumer never
  throws, and afterwards the frontier holds exactly what it held and the URL of every message
  whose statement worked, blacklisted, too deep and over every limit included. Messages
  that are not JSON, and no others, are reported to the dead-letter topic, in their order; a
  message whose statement or whose report fails is lost without a trace.\<close>

theorem kafka_feeds_frontier:
  assumes "\<forall>d \<in> set ds. keyed d" and "kq_enabled q"
  shows "\<exists>db' q'. consume sqlite_statements ds (db, q) = Some (db', q') \<and>
      f_url ` set (frontier db') = f_url ` set (frontier db) \<union> set (concat (map inserts ds)) \<and>
      map dlq_url (kq_dlq q') = map dlq_url (kq_dlq q) @ concat (map reports ds) \<and>
      consume sqlite_statements (filter (\<lambda>d. \<not> silent d) ds) (db, q) = Some (db', q')"
  using sqlite.consume_frontier [OF assms] consume_silent [OF assms(1)] by metis

definition demo_deliveries :: "delivery list" where
  "demo_deliveries = map (\<lambda>(f, v). \<lparr>dv_message = \<lparr>c_key = Some ''k'', c_value = v\<rparr>,
       dv_insert_fails = f, dv_dlq_fails = f, dv_now = 5\<rparr>)
     [(False, UrlMessage ''https://t.co/x'' (Some 99) None), (False, NotJson ''bad''), (True, UrlMessage ''b'' None None)]"

definition demo_queue :: KafkaUrlQueue where
  "demo_queue = snd (snd (kafka_init Connected False (demo_client, new_KafkaUrlQueue)))"

lemma kafka_feeds_frontier_witness:
  "\<exists>db' q'. consume sqlite_statements demo_deliveries (empty_sqlite, demo_queue) = Some (db', q') \<and>
      f_url ` set (frontier db') = {''https://t.co/x''} \<and> map dlq_url (kq_dlq q') = [''k''] \<and>
      consume sqlite_statements (take 2 demo_deliveries) (empty_sqlite, demo_queue) = Some (db', q')"
proof -
  have d: "\<forall>d \<in> set demo_deliveries. keyed d" "concat (map inserts demo_deliveries) = [''https://t.co/x'']"
    "concat (map reports demo_deliveries) = [''k'']"
    "filter (\<lambda>d. \<not> silent d) demo_deliveries = take 2 demo_deliveries"
    by (simp_all add: demo_deliveries_def keyed_def inserts_def reports_def silent_def)
  have q: "kq_enabled demo_queue" "kq_dlq demo_queue = []" "frontier empty_sqlite = []"
    by (simp_all add: demo_queue_def kafka_init_def connectProducer_def new_KafkaUrlQueue_def empty_sqlite_def)
  show ?thesis using kafka_feeds_frontier [OF d(1) q(1), of empty_sqlite] unfolding d(2-4) q(2,3) by simp
qed

end
