(* ===== verification/Crawler.thy ===== *)
theory Crawler
  imports Queue CrawlLimits PgState
begin

text \<open>
  src/db-adapter.ts and crawler.ts: opening a backend, and the crawler process from its first
  line to the loop. A wrapped statement of the adapter has the effect and the value of the one
  it wraps, in a promise; opening creates the tables that are missing and leaves the others.
\<close>

section \<open>Backends\<close>

record ('s, 'c) backend =
  be_db :: 's
  be_stmts :: "'s Statements"
  be_state :: 'c
  be_isAsync :: bool

definition sqlite_createBackend ::
  "(nat \<Rightarrow> bool) \<Rightarrow> ((domain \<times> int) list \<Rightarrow> (domain \<times> int) list) \<Rightarrow> sqlite_store \<Rightarrow>
   (sqlite_store, crawl_state) backend" where
  "sqlite_createBackend fault pop db =
    \<lparr>be_db = db, be_stmts = sqlite_statements,
     be_state = fullRefresh fault pop sqlite_statements db new_CrawlState, be_isAsync = False\<rparr>"

definition pg_createBackend ::
  "(nat \<Rightarrow> bool) \<Rightarrow> ((domain \<times> int) list \<Rightarrow> (domain \<times> int) list) \<Rightarrow> store \<Rightarrow>
   (store, pg_crawl_state) backend" where
  "pg_createBackend fault pop db =
    \<lparr>be_db = db, be_stmts = pg_statements,
     be_state = pg_fullRefresh fault pop pg_statements db new_PgCrawlState, be_isAsync = True\<rparr>"

section \<open>The process\<close>

text \<open>What the start draws from outside; the faults of each part are its own.\<close>

record boot_env =
  bt_refresh_fault :: "nat \<Rightarrow> bool"
  bt_clean_fault :: "nat \<Rightarrow> bool"
  bt_fts_fault :: "nat \<Rightarrow> bool"
  bt_seed_fault :: "nat \<Rightarrow> bool"
  bt_pop :: "(domain \<times> int) list \<Rightarrow> (domain \<times> int) list"
  bt_ord :: "frontier_row list \<Rightarrow> frontier_row list"

definition sqlite_crawler :: "boot_env \<Rightarrow> sqlite_store \<Rightarrow> sqlite_store loop" where
  "sqlite_crawler e db0 =
    (let b = sqlite_createBackend (bt_refresh_fault e) (bt_pop e) db0;
         db = sqlite_initializeCrawl (bt_clean_fault e) (bt_fts_fault e) (bt_seed_fault e) (bt_ord e) (be_db b)
     in startCrawlLoop (be_stmts b) db (be_state b))"

text \<open>
  On PostgreSQL cleaning repeats passes, the index is not touched, and the loop reads the
  numbers of the state.
\<close>

definition pg_initializeCrawl ::
  "(nat \<Rightarrow> bool) \<Rightarrow> (nat \<Rightarrow> bool) \<Rightarrow> (frontier_row list \<Rightarrow> frontier_row list) \<Rightarrow> store \<Rightarrow> store option" where
  "pg_initializeCrawl clean_fault seed_fault ord s =
    map_option (seedInitialUrls pg_statements seed_fault SEEDS)
      (pg_cleanupFrontier clean_fault ord (frontierCount s) s)"

definition pg_crawler :: "boot_env \<Rightarrow> store \<Rightarrow> store loop option" where
  "pg_crawler e db0 =
    (let b = pg_createBackend (bt_refresh_fault e) (bt_pop e) db0
     in map_option (\<lambda>db. startCrawlLoop (be_stmts b) db (pg_abs (be_state b)))
          (pg_initializeCrawl (bt_clean_fault e) (bt_seed_fault e) (bt_ord e) (be_db b)))"

section \<open>What the start hands to the loop\<close>

lemma reaches_weaken: "reaches step (\<lambda>x. x = s0) s \<Longrightarrow> init s0 \<Longrightarrow> reaches step init s"
  by (induction rule: reaches.induct) (auto intro: reaches_init reaches_step)

lemma db_allowed_iff: "db_allowed store_ok frontier U s \<longleftrightarrow> store_ok s \<and> list_all (row_allowed U) (frontier s)"
  by (simp add: db_allowed_def)

lemma allowed_delete_visited:
  "db_allowed store_ok frontier U s \<Longrightarrow> db_allowed store_ok frontier U (snd (delete_visited ord n s))"
  by (auto simp: db_allowed_def preserves) (auto simp: delete_visited_def Let_def list_all_iff)

lemma allowed_rebuild:
  "db_allowed store_ok frontier U s \<Longrightarrow> db_allowed store_ok frontier U (rebuildFtsIfNeeded b f e c s)"
  using rebuildFts_frame [of b f e c s]
  by (simp add: db_allowed_def store_ok_def frontier_ok_def nodes_ok_def rebuildFtsIfNeeded_def rebuildFts_def)

lemma allowed_cleanup:
  "db_allowed store_ok frontier U s \<Longrightarrow> db_allowed store_ok frontier U (sqlite_cleanupFrontier f ord c s)"
  using allowed_delete_visited [of U s ord 50000]
  by (auto simp: sqlite_cleanupFrontier_def db_allowed_def store_ok_def frontier_ok_def nodes_ok_def)

context crawl_store
begin

lemma allowed_initial_seeds:
  "db_allowed ok pend U s \<Longrightarrow> db_allowed ok pend U (seedInitialUrls st f us s)"
  by (induction us arbitrary: f s) (simp_all add: allowed_insert)

end

lemma pg_clean_allowed:
  assumes "permutes ord" and "db_allowed store_ok frontier U s"
  shows "\<exists>s'. pg_cleanupFrontier f ord c s = Some s' \<and> db_allowed store_ok frontier U s'"
proof -
  have "\<exists>s'. pg_clean_loop f ord i s = Some s' \<and> db_allowed store_ok frontier U s'" for i
    using assms(2)
  proof (induction "length (frontier s)" arbitrary: i s rule: less_induct)
    case less
    obtain n j t where pass: "pg_clean_pass f ord i s = (n, j, t)" by (cases "pg_clean_pass f ord i s")
    have t: "db_allowed store_ok frontier U t" "n > 0 \<Longrightarrow> length (frontier t) < length (frontier s)"
      using pass less.prems allowed_delete_visited [of U s ord 50000]
        delete_visited_facts(2) [OF _ assms(1), of s 50000]
      by (auto simp: pg_clean_pass_def db_allowed_def split: if_splits prod.splits)
    show ?case
    proof (cases "n > 0")
      case True
      then show ?thesis using less.hyps [OF t(2) t(1)] pass by (simp add: pg_clean_loop.simps [of f ord i s])
    next
      case False
      then show ?thesis using t(1) pass by (simp add: pg_clean_loop.simps [of f ord i s])
    qed
  qed
  then show ?thesis using assms(2) by (auto simp: pg_cleanupFrontier_def)
qed

lemma fresh_inflight:
  "domainInflight (fullRefresh f pop st db new_CrawlState) = Map.empty"
  "domainInflight (pg_abs (pg_fullRefresh f pop st db new_PgCrawlState)) = Map.empty"
  by (simp_all add: fullRefresh_def refresh_def pg_fullRefresh_def pg_refresh_def pg_abs_def new_CrawlState_def
      new_PgCrawlState_def Let_def)

definition loop_promises ::
  "('s \<Rightarrow> bool) \<Rightarrow> ('s \<Rightarrow> frontier_row list) \<Rightarrow> url_parser \<Rightarrow> 's loop \<Rightarrow> bool" where
  "loop_promises ok pend U s \<longleftrightarrow> ok (lp_db s) \<and> list_all (row_allowed U) (pend (lp_db s)) \<and>
    (crashed s \<or> stopped s \<or> (\<exists>t \<in> set (tasks s). drives t)) \<and>
    (crashed s \<or> (\<forall>d. 0 \<le> getInflight d (lp_cs s) \<and> getInflight d (lp_cs s) \<le> DOMAIN_LIMIT))"

lemma books_slots:
  assumes "reaches (loop_step st U R) (\<lambda>x. x = startCrawlLoop st db cs) s" and "domainInflight cs = Map.empty"
  shows "(crashed s \<or> stopped s \<or> (\<exists>t \<in> set (tasks s). drives t)) \<and>
    (crashed s \<or> (\<forall>d. 0 \<le> getInflight d (lp_cs s) \<and> getInflight d (lp_cs s) \<le> DOMAIN_LIMIT))"
proof -
  have "bookkeeping s"
    by (rule books.reaches_inv [OF reaches_weaken [OF assms(1)]]) (auto simp: loop_start_def)
  moreover have "crashed s \<or> slots_ok s"
    by (rule slots.reaches_inv [OF reaches_weaken [OF assms(1)]]) (use assms(2) in blast)
  ultimately show ?thesis by (auto simp: bookkeeping_def book_defs list_ex_iff slots_ok_def)
qed

context crawl_store
begin

lemma promises:
  assumes "reaches (loop_step st U R) (\<lambda>x. x = startCrawlLoop st db cs) s"
    and "domainInflight cs = Map.empty" and "db_allowed ok pend U db"
  shows "loop_promises ok pend U s"
proof -
  have "loop_allowed ok pend U s"
    by (rule loop_reaches_allowed [OF reaches_weaken [OF assms(1)]]) (use assms(3) in blast)
  with books_slots [OF assms(1,2)] show ?thesis by (simp add: loop_promises_def loop_allowed_def db_allowed_def)
qed

end


definition demo_boot :: boot_env where
  "demo_boot = \<lparr>bt_refresh_fault = (\<lambda>_. False), bt_clean_fault = (\<lambda>_. True), bt_fts_fault = (\<lambda>_. False),
     bt_seed_fault = (\<lambda>i. i = 3), bt_pop = id, bt_ord = id\<rparr>"


end
