(* ===== verification/Security.thy ===== *)
theory Security
  imports Numbers
begin

text \<open>src/security.ts: input cleaning and request identifiers.\<close>

section \<open>Cleaning input\<close>

definition forbidden :: "char \<Rightarrow> bool" where
  "forbidden c \<longleftrightarrow> c \<in> set ''<>()[]{};|&$`'' \<or> c = CHR 0x22 \<or> c = CHR 0x27 \<or> c = CHR 0x5C"

text \<open>
  The seven \<open>replace\<close> calls delete every character of their classes; anything but a string
  (\<open>None\<close>) gives the empty string.
\<close>

definition sanitizeInput :: "string option \<Rightarrow> string" where
  "sanitizeInput input =
    (case input of None \<Rightarrow> [] | Some s \<Rightarrow> take 500 (js_trim (filter (\<lambda>c. \<not> forbidden c) s)))"

lemma js_trim_subseq: "subseq (js_trim s) s"
proof -
  have "suffix (dropWhile is_ws s) s" by (rule suffix_dropWhile)
  moreover have "suffix (rev (js_trim s)) (rev (dropWhile is_ws s))"
    unfolding js_trim_def by (simp add: suffix_dropWhile)
  then have "prefix (js_trim s) (dropWhile is_ws s)" by (simp add: suffix_to_prefix)
  ultimately show ?thesis by (meson prefix_imp_subseq subseq_order.trans suffix_imp_subseq)
qed

text \<open>What \<open>sanitizeInput\<close> returns holds none of the characters the function strips (angle
  brackets, quotes, back quote, parentheses, brackets, braces, backslash, \<open>; | & $\<close>), has at
  most 500 characters, does not start with white space, and keeps the order of the input's
  characters; an input that is clean, trimmed and short enough comes back as it is.\<close>

theorem sanitize_clean:
  "list_all (\<lambda>c. \<not> forbidden c) (sanitizeInput (Some s)) \<and> length (sanitizeInput (Some s)) \<le> 500 \<and>
   (sanitizeInput (Some s) = [] \<or> \<not> is_ws (hd (sanitizeInput (Some s)))) \<and>
   subseq (sanitizeInput (Some s)) s \<and>
   (list_all (\<lambda>c. \<not> forbidden c) s \<and> js_trim s = s \<and> length s \<le> 500 \<longrightarrow> sanitizeInput (Some s) = s)"
proof -
  let ?f = "filter (\<lambda>c. \<not> forbidden c) s"
  have "list_all (\<lambda>c. \<not> forbidden c) (take 500 (js_trim ?f))"
    using set_js_trim [of ?f] by (auto simp: list_all_iff dest!: in_set_takeD)
  moreover have "take 500 (js_trim ?f) = [] \<or> \<not> is_ws (hd (take 500 (js_trim ?f)))"
    using js_trim_starts [of ?f] by (cases "js_trim ?f") auto
  moreover have "subseq (take 500 (js_trim ?f)) s"
    by (meson js_trim_subseq prefix_imp_subseq subseq_filter_left subseq_order.trans take_is_prefix)
  moreover have "?f = s" if "list_all (\<lambda>c. \<not> forbidden c) s"
    using that by (simp add: list_all_iff filter_id_conv)
  ultimately show ?thesis by (simp add: sanitizeInput_def)
qed

lemma sanitize_clean_witness: "sanitizeInput (Some ''node js'') = ''node js''"
proof -
  have "list_all (\<lambda>c. \<not> forbidden c) ''node js'' \<and> js_trim ''node js'' = ''node js''" by code_simp
  then show ?thesis using sanitize_clean [of "''node js''"] by simp
qed

section \<open>Request identifiers\<close>

definition base36_digit :: "nat \<Rightarrow> char" where
  "base36_digit d = char_of (if d < 10 then 48 + d else 87 + d)"

fun to_base36 :: "nat \<Rightarrow> string" where
  "to_base36 n = (if n < 36 then [base36_digit n] else to_base36 (n div 36) @ [base36_digit (n mod 36)])"

declare to_base36.simps [simp del]

text \<open>\<open>reqCounter\<close> is the module's counter, threaded through.\<close>

definition generateRequestId :: "nat \<Rightarrow> nat \<Rightarrow> string \<times> nat" where
  "generateRequestId now reqCounter =
    (''r'' @ js_digits (reqCounter + 1) @ ''-'' @ to_base36 now, reqCounter + 1)"

definition requestId :: "string option \<Rightarrow> nat \<Rightarrow> nat \<Rightarrow> string \<times> nat" where
  "requestId header now reqCounter =
    (if or_str header [] \<noteq> [] then (or_str header [], reqCounter) else generateRequestId now reqCounter)"

text \<open>The identifiers the server makes up for a series of requests (header and time).\<close>

fun generated_ids :: "(string option \<times> nat) list \<Rightarrow> nat \<Rightarrow> string list" where
  "generated_ids [] n = []"
| "generated_ids ((h, t) # es) n =
    (case requestId h t n of
       (i, n') \<Rightarrow> (if or_str h [] = [] then i # generated_ids es n' else generated_ids es n'))"

lemma takeWhile_digits:
  assumes "generateRequestId now n = (i, n')"
  shows "takeWhile is_digit (drop 1 i) = js_digits (n + 1)"
proof -
  have "i = CHR ''r'' # js_digits (n + 1) @ CHR ''-'' # to_base36 now"
    using assms by (auto simp: generateRequestId_def)
  moreover have "\<forall>c \<in> set (js_digits (n + 1)). is_digit c"
    using js_digits_spec [of "n + 1"] by (simp add: list_all_iff)
  moreover have "\<not> is_digit CHR ''-''" by (simp add: is_digit_def)
  ultimately show ?thesis by (simp add: takeWhile_tail)
qed

lemma generated_numbers:
  "i \<in> set (generated_ids es n) \<Longrightarrow> \<exists>k > n. takeWhile is_digit (drop 1 i) = js_digits k"
proof (induction es n rule: generated_ids.induct)
  case (2 h t es n)
  then show ?case
    using takeWhile_digits [of t n]
    by (auto simp: requestId_def generateRequestId_def split: if_splits) (metis Suc_lessD less_Suc_eq)+
qed simp

text \<open>Made-up request identifiers are all different, whatever the clock says and whatever
  identifiers other requests bring along.\<close>

theorem request_ids_distinct: "distinct (generated_ids es n)"
proof (induction es n rule: generated_ids.induct)
  case (2 h t es n)
  show ?case
  proof (cases "or_str h [] = []")
    case True
    obtain i n' where g: "generateRequestId t n = (i, n')" by fastforce
    then have n': "n' = n + 1" by (simp add: generateRequestId_def)
    have "i \<notin> set (generated_ids es n')"
    proof
      assume "i \<in> set (generated_ids es n')"
      then obtain k where "k > n + 1" "js_digits (n + 1) = js_digits k"
        using generated_numbers takeWhile_digits [OF g] n' by metis
      then show False using js_digits_spec by (metis less_irrefl of_nat_eq_iff)
    qed
    then show ?thesis using 2 True g by (simp add: requestId_def)
  next
    case False
    then show ?thesis using 2 by (simp add: requestId_def)
  qed
qed simp

end
