(* ===== verification/Supervisor.thy ===== *)
theory Supervisor
  imports Prelude
begin

text \<open>
  server.ts, the process side: the crawler runs in a child process that \<open>setupWorker\<close> forks
  and forks again when it exits, up to \<open>MAX_CRAWLER_RESTARTS\<close>; \<open>gracefulShutdown\<close> ends the
  server. Children are numbered in the order of their forks; \<open>running\<close> are those that have
  not ended, \<open>respawns\<close> the pending five-second timers, \<open>forked\<close> how many there were.
\<close>

section \<open>Supervising the crawler\<close>

definition MAX_CRAWLER_RESTARTS :: int where "MAX_CRAWLER_RESTARTS = 10"

record supervisor =
  crawlerWorker :: "nat option"
  isShuttingDown :: bool
  crawlerRestarts :: int
  workerAlive :: bool
  running :: "nat list"
  respawns :: nat
  forked :: nat

definition new_supervisor :: supervisor where
  "new_supervisor = \<lparr> crawlerWorker = None, isShuttingDown = False, crawlerRestarts = 0,
     workerAlive = False, running = [], respawns = 0, forked = 0 \<rparr>"

text \<open>\<open>fork_ok\<close> is false when \<open>fork\<close> throws.\<close>

definition setupWorker :: "bool \<Rightarrow> supervisor \<Rightarrow> nat option \<times> supervisor" where
  "setupWorker fork_ok s =
    (if crawlerRestarts s > MAX_CRAWLER_RESTARTS then (None, s)
     else if \<not> fork_ok then (None, s)
     else (Some (forked s),
           s\<lparr>running := running s @ [forked s], forked := forked s + 1, workerAlive := True\<rparr>))"

definition assign_worker :: "bool \<Rightarrow> supervisor \<Rightarrow> supervisor" where
  "assign_worker fork_ok s =
    (case setupWorker fork_ok s of (child, s') \<Rightarrow> s'\<lparr>crawlerWorker := child\<rparr>)"

text \<open>
  The handlers of a child. Its exit event comes once. An error event is a child that could
  not be spawned (\<open>gone\<close>; Node then need not emit an exit event) or one that goes on running.
\<close>

definition worker_exit :: "nat \<Rightarrow> supervisor \<Rightarrow> supervisor" where
  "worker_exit i s =
    (if i \<in> set (running s)
     then s\<lparr>running := remove1 i (running s), workerAlive := False,
            crawlerRestarts := crawlerRestarts s + 1, respawns := respawns s + 1\<rparr>
     else s)"

definition worker_error :: "bool \<Rightarrow> nat \<Rightarrow> supervisor \<Rightarrow> supervisor" where
  "worker_error gone i s =
    (if i \<in> set (running s)
     then s\<lparr>workerAlive := False, running := (if gone then remove1 i (running s) else running s)\<rparr>
     else s)"

definition respawn_timer :: "bool \<Rightarrow> supervisor \<Rightarrow> supervisor" where
  "respawn_timer fork_ok s =
    (if respawns s = 0 then s
     else let s = s\<lparr>respawns := respawns s - 1\<rparr>
          in if isShuttingDown s then s else assign_worker fork_ok s)"

datatype sup_event = Exited nat | Errored bool nat | RespawnDue bool | ShutdownSignal

fun sup_apply :: "sup_event \<Rightarrow> supervisor \<Rightarrow> supervisor" where
  "sup_apply (Exited i) s = worker_exit i s"
| "sup_apply (Errored gone i) s = worker_error gone i s"
| "sup_apply (RespawnDue fork_ok) s = respawn_timer fork_ok s"
| "sup_apply ShutdownSignal s = s\<lparr>isShuttingDown := True\<rparr>"

fun sup_run :: "sup_event list \<Rightarrow> supervisor \<Rightarrow> supervisor" where
  "sup_run [] s = s"
| "sup_run (e # es) s = sup_run es (sup_apply e s)"

inductive sup_step :: "supervisor \<Rightarrow> supervisor \<Rightarrow> bool" where
  sup_stepI: "sup_step s (sup_apply e s)"

inductive_cases sup_stepE: "sup_step s t"

text \<open>The module starts by forking once.\<close>

definition sup_start :: "supervisor \<Rightarrow> bool" where
  "sup_start s \<longleftrightarrow> (\<exists>fork_ok. s = assign_worker fork_ok new_supervisor)"

lemmas supervisor_ops =
  setupWorker_def assign_worker_def worker_exit_def worker_error_def respawn_timer_def
  MAX_CRAWLER_RESTARTS_def Let_def

section \<open>At most one crawler\<close>

definition sup_ok :: "supervisor \<Rightarrow> bool" where
  "sup_ok s \<longleftrightarrow>
    length (running s) + respawns s \<le> 1 \<and>
    0 \<le> crawlerRestarts s \<and> crawlerRestarts s \<le> int (forked s) \<and>
    int (forked s) + int (respawns s) \<le> crawlerRestarts s + 1 \<and> forked s \<le> 11 \<and>
    (running s \<noteq> [] \<longrightarrow> crawlerWorker s = Some (hd (running s)) \<and> crawlerRestarts s < int (forked s)) \<and>
    (workerAlive s \<longrightarrow> running s \<noteq> [])"

lemma short_list: "length xs \<le> 1 \<Longrightarrow> xs = [] \<or> (\<exists>x. xs = [x])"
  by (cases xs) auto

lemma sup_ok_assign:
  "sup_ok s \<Longrightarrow> running s = [] \<Longrightarrow> respawns s = 0 \<Longrightarrow> int (forked s) \<le> crawlerRestarts s \<Longrightarrow>
    sup_ok (assign_worker fork_ok s)"
  by (auto simp: sup_ok_def supervisor_ops)

lemma sup_ok_exit [preserves]: "sup_ok s \<Longrightarrow> sup_ok (worker_exit i s)"
  using short_list [of "running s"] by (auto simp: sup_ok_def supervisor_ops)

lemma sup_ok_error [preserves]: "sup_ok s \<Longrightarrow> sup_ok (worker_error gone i s)"
  using short_list [of "running s"] by (auto simp: sup_ok_def supervisor_ops)

lemma sup_ok_respawn [preserves]: "sup_ok s \<Longrightarrow> sup_ok (respawn_timer fork_ok s)"
  using sup_ok_assign [of "s\<lparr>respawns := 0\<rparr>" fork_ok] short_list [of "running s"]
  by (auto simp: respawn_timer_def Let_def sup_ok_def)

lemma sup_ok_apply [preserves]: "sup_ok s \<Longrightarrow> sup_ok (sup_apply e s)"
  by (cases e) (simp_all add: preserves, simp add: sup_ok_def)

interpretation supervision: invariant_system sup_step sup_start sup_ok
proof unfold_locales
  show "sup_ok s" if "sup_start s" for s
  proof -
    from that obtain fork_ok where "s = assign_worker fork_ok new_supervisor"
      by (auto simp: sup_start_def)
    then show ?thesis by (cases fork_ok) (simp_all add: sup_ok_def supervisor_ops new_supervisor_def)
  qed
  show "sup_ok t" if "sup_ok s" "sup_step s t" for s t
    using that by (metis sup_ok_apply sup_stepE)
qed

text \<open>C11. At most one crawler process is alive at any time, and it is the one the server will signal;
  the server believes a crawler to be alive only when one is. At most eleven are forked in the
  life of the server, however long it runs.\<close>

theorem one_crawler:
  assumes "reaches sup_step sup_start s"
  shows "length (running s) \<le> 1 \<and> (running s \<noteq> [] \<longrightarrow> crawlerWorker s = Some (hd (running s))) \<and>
    (workerAlive s \<longrightarrow> running s \<noteq> []) \<and> forked s \<le> 11 \<and> crawlerRestarts s \<le> 11"
  using supervision.reaches_inv [OF assms] unfolding sup_ok_def by linarith

lemma sup_run_reaches:
  "reaches sup_step sup_start s \<Longrightarrow> reaches sup_step sup_start (sup_run es s)"
  by (induction es arbitrary: s) (auto intro: reaches_step sup_stepI)

lemma one_crawler_witness:
  "forked (sup_run [Exited 0, RespawnDue True] (assign_worker True new_supervisor)) \<le> 11"
proof -
  have "reaches sup_step sup_start (assign_worker True new_supervisor)"
    by (rule reaches_init) (auto simp: sup_start_def)
  from one_crawler [OF sup_run_reaches [OF this, of "[Exited 0, RespawnDue True]"]]
  show ?thesis by (elim conjE)
qed

section \<open>Coming back\<close>

text \<open>Events of a server that is not shut down and can fork.\<close>

fun benign :: "sup_event \<Rightarrow> bool" where
  "benign (Exited i) = True"
| "benign (Errored gone i) = (\<not> gone)"
| "benign (RespawnDue fork_ok) = fork_ok"
| "benign ShutdownSignal = False"

definition coming_back :: "supervisor \<Rightarrow> bool" where
  "coming_back s \<longleftrightarrow> sup_ok s \<and> \<not> isShuttingDown s \<and>
    (running s \<noteq> [] \<or> respawns s = 1 \<or> crawlerRestarts s = 11)"

lemma coming_back_apply: "benign e \<Longrightarrow> coming_back s \<Longrightarrow> coming_back (sup_apply e s)"
proof (cases e)
  case (RespawnDue fork_ok)
  assume "benign e" and "coming_back s"
  then show ?thesis
    using RespawnDue sup_ok_respawn [of s fork_ok]
    by (auto simp: coming_back_def supervisor_ops sup_ok_def)
next
  case (Exited i)
  assume "coming_back s"
  then show ?thesis
    using Exited sup_ok_exit [of s i] by (auto simp: coming_back_def worker_exit_def sup_ok_def)
next
  case (Errored gone i)
  assume "benign e" and "coming_back s"
  then show ?thesis
    using Errored sup_ok_error [of s gone i] by (auto simp: coming_back_def worker_error_def)
next
  case ShutdownSignal
  assume "benign e"
  then show ?thesis using ShutdownSignal by simp
qed

text \<open>C12. The crawler comes back: as long as forking works and no shutdown is requested, after any
  sequence of exits, errors and timers a crawler is running, or the timer that starts the
  next one is pending, or eleven crawlers have exited, after which none is started again.\<close>

theorem crawler_comes_back:
  assumes "list_all benign es"
  defines "s \<equiv> sup_run es (assign_worker True new_supervisor)"
  shows "running s \<noteq> [] \<or> respawns s = 1 \<or> crawlerRestarts s = 11 \<and> forked s = 11"
proof -
  have "list_all benign es \<Longrightarrow> coming_back s \<Longrightarrow> coming_back (sup_run es s)" for s
    by (induction es arbitrary: s) (simp_all add: coming_back_apply)
  moreover have "coming_back (assign_worker True new_supervisor)"
    by (simp add: coming_back_def sup_ok_def supervisor_ops new_supervisor_def)
  ultimately have "coming_back s" using assms by blast
  then show ?thesis by (auto simp: coming_back_def sup_ok_def)
qed

lemma crawler_comes_back_witness:
  "running (sup_run [Exited 0, RespawnDue True, Errored False 1] (assign_worker True new_supervisor)) = [1]"
  using crawler_comes_back [of "[Exited 0, RespawnDue True, Errored False 1]"]
  by (simp add: supervisor_ops new_supervisor_def)

section \<open>Shutting down\<close>

text \<open>
  \<open>gracefulShutdown\<close>, as a timeline in milliseconds from the first signal. \<open>close_after\<close> is
  when the last connection is closed and the callback of \<open>server.close\<close> runs (\<open>None\<close>: a
  connection stays open), \<open>quits\<close> how long the Redis, Kafka and Elasticsearch connections
  then take to close (\<open>None\<close>: one never does), \<open>has_worker\<close> whether there is a crawler.
\<close>

record shutdown_env =
  close_after :: "int option"
  quits :: "int option"
  has_worker :: bool

datatype shutdown_action = ServerClosed | TermWorker | KillWorker | ProcessExit int

definition close_actions :: "shutdown_env \<Rightarrow> (int \<times> shutdown_action) list" where
  "close_actions env =
    (case close_after env of
       None \<Rightarrow> []
     | Some c \<Rightarrow>
         (c, ServerClosed) #
         (if has_worker env
          then [(c, TermWorker), (c + 5000, KillWorker), (c + 5000, ProcessExit 0)]
          else (case quits env of None \<Rightarrow> [] | Some d \<Rightarrow> [(c + d, ProcessExit 0)])))"

text \<open>What happens in order of time (the ten-second timer is the oldest), up to the first exit.\<close>

fun until_exit :: "(int \<times> shutdown_action) list \<Rightarrow> (int \<times> shutdown_action) list" where
  "until_exit [] = []"
| "until_exit ((t, ProcessExit code) # as) = [(t, ProcessExit code)]"
| "until_exit (a # as) = a # until_exit as"

definition shutdown_log :: "shutdown_env \<Rightarrow> (int \<times> shutdown_action) list" where
  "shutdown_log env = until_exit (sort_key fst ((10000, ProcessExit 1) # close_actions env))"

text \<open>A second signal while shutting down is ignored: the timeline starts at the first.\<close>

definition gracefulShutdown :: "int \<Rightarrow> int option \<Rightarrow> int option" where
  "gracefulShutdown now shutdown_at = (case shutdown_at of None \<Rightarrow> Some now | Some t \<Rightarrow> Some t)"

definition clean_exit :: "shutdown_env \<Rightarrow> int option" where
  "clean_exit env =
    (case close_after env of
       None \<Rightarrow> None
     | Some c \<Rightarrow> if has_worker env then Some (c + 5000)
                 else map_option (\<lambda>d. c + d) (quits env))"

text \<open>C34. Shutdown ends: the process exits at most ten seconds after the first signal, whatever the
  connections do and whatever other signals arrive. It exits with code 0 exactly when the work
  of a clean exit is done in less than ten seconds, and with code 1 at ten seconds otherwise;
  the crawler is killed before a clean exit, and on a forced one it may not even have been
  told to stop.\<close>

theorem shutdown_ends:
  assumes "\<And>c. close_after env = Some c \<Longrightarrow> 0 \<le> c" and "\<And>d. quits env = Some d \<Longrightarrow> 0 \<le> d"
  shows "last (shutdown_log env) =
      (case clean_exit env of
         Some t \<Rightarrow> if t < 10000 then (t, ProcessExit 0) else (10000, ProcessExit 1)
       | None \<Rightarrow> (10000, ProcessExit 1)) \<and>
    ((t, KillWorker) \<in> set (shutdown_log env) \<longleftrightarrow>
      has_worker env \<and> clean_exit env = Some t \<and> t < 10000) \<and>
    ((t, TermWorker) \<in> set (shutdown_log env) \<longleftrightarrow>
      has_worker env \<and> close_after env = Some t \<and> t < 10000) \<and>
    fold gracefulShutdown ts (gracefulShutdown t0 None) = Some t0"
proof -
  have signals: "fold gracefulShutdown ts (gracefulShutdown t0 None) = Some t0"
    by (induction ts) (simp_all add: gracefulShutdown_def)
  show ?thesis
  proof (cases "close_after env")
    case None
    then show ?thesis using signals by (simp add: shutdown_log_def close_actions_def clean_exit_def)
  next
    case (Some c)
    then have c: "0 \<le> c" by (rule assms(1))
    show ?thesis
    proof (cases "has_worker env")
      case True
      with Some c signals show ?thesis
        by (auto simp: shutdown_log_def close_actions_def clean_exit_def)
    next
      case False
      with Some c signals assms(2) show ?thesis
        by (cases "quits env") (auto simp: shutdown_log_def close_actions_def clean_exit_def)
    qed
  qed
qed

lemma shutdown_ends_witness:
  "shutdown_log \<lparr>close_after = Some 20, quits = None, has_worker = True\<rparr> =
     [(20, ServerClosed), (20, TermWorker), (5020, KillWorker), (5020, ProcessExit 0)] \<and>
   last (shutdown_log \<lparr>close_after = Some 20, quits = None, has_worker = True\<rparr>) = (5020, ProcessExit 0)"
  using shutdown_ends [of "\<lparr>close_after = Some 20, quits = None, has_worker = True\<rparr>"]
  by (simp add: clean_exit_def) (simp add: shutdown_log_def close_actions_def)

end
