(* ===== verification/Search.thy ===== *)
theory Search
  imports Circuit Config Security
begin

text \<open>
  server.ts, the search side: the read-only database connection with its age limit, and the
  handler of \<open>/api/search\<close> with its chain of backends. Elasticsearch, the SQL engines and the
  opening of the database file are outside the repository; what they answer is an argument.
\<close>

section \<open>The search connection\<close>

definition SEARCH_DB_TTL :: time_ms where "SEARCH_DB_TTL = 60000"

record 'h search_db =
  searchDb :: "'h option"
  searchDbHealth :: bool
  searchDbLastOpen :: time_ms

text \<open>Opening may throw in the constructor or, with the handle already stored, in a pragma.\<close>

datatype 'h open_outcome = OpenFails | PragmaFails 'h | Opened 'h

definition no_search_db :: "'h search_db" where
  "no_search_db = \<lparr>searchDb = None, searchDbHealth = False, searchDbLastOpen = 0\<rparr>"

definition closeSearchDb :: "'h search_db \<Rightarrow> 'h search_db" where
  "closeSearchDb s = s\<lparr>searchDb := None, searchDbHealth := False, searchDbLastOpen := 0\<rparr>"

definition getSearchDb :: "time_ms \<Rightarrow> 'h open_outcome \<Rightarrow> 'h search_db \<Rightarrow> 'h option \<times> 'h search_db" where
  "getSearchDb now out s0 =
    (let s = (if searchDb s0 \<noteq> None \<and> now - searchDbLastOpen s0 > SEARCH_DB_TTL
              then closeSearchDb s0 else s0)
     in case searchDb s of
          Some h \<Rightarrow> (Some h, s)
        | None \<Rightarrow>
            (case out of
               Opened h \<Rightarrow> (Some h, s\<lparr>searchDb := Some h, searchDbHealth := True, searchDbLastOpen := now\<rparr>)
             | PragmaFails h \<Rightarrow> (None, s\<lparr>searchDb := Some h, searchDbHealth := False\<rparr>)
             | OpenFails \<Rightarrow> (None, s\<lparr>searchDbHealth := False\<rparr>)))"

text \<open>\<open>select_ok\<close>: the probe query on the connection does not throw.\<close>

definition checkDbHealth ::
  "db_backend \<Rightarrow> time_ms \<Rightarrow> 'h open_outcome \<Rightarrow> bool \<Rightarrow> 'h search_db \<Rightarrow> bool \<times> 'h search_db" where
  "checkDbHealth backend now out select_ok s =
    (if backend = Pg then (True, s)
     else let s = snd (getSearchDb now out s) in
       if searchDb s = None then (False, s)
       else if select_ok then (True, s\<lparr>searchDbHealth := True\<rparr>)
       else (False, closeSearchDb s))"

lemmas search_db_defs =
  getSearchDb_def checkDbHealth_def closeSearchDb_def no_search_db_def SEARCH_DB_TTL_def Let_def

inductive sdb_step :: "time_ms \<times> 'h search_db \<Rightarrow> time_ms \<times> 'h search_db \<Rightarrow> bool" where
  sdb_get: "t \<le> now \<Longrightarrow> sdb_step (t, s) (now, snd (getSearchDb now out s))"
| sdb_health: "t \<le> now \<Longrightarrow> sdb_step (t, s) (now, snd (checkDbHealth backend now out select_ok s))"

text \<open>A connection has been opened after the epoch and not in the future, or it is half open.\<close>

definition sdb_ok :: "time_ms \<times> 'h search_db \<Rightarrow> bool" where
  "sdb_ok = (\<lambda>(t, s). 0 < t \<and> 0 \<le> searchDbLastOpen s \<and> searchDbLastOpen s \<le> t \<and>
    (searchDb s = None \<longrightarrow> searchDbLastOpen s = 0))"

interpretation connection: invariant_system
  "sdb_step :: time_ms \<times> 'h search_db \<Rightarrow> _ \<Rightarrow> bool" "\<lambda>(t, s). 0 < t \<and> s = no_search_db" sdb_ok
proof unfold_locales
  show "sdb_ok p" if "case p of (t, s) \<Rightarrow> 0 < t \<and> s = no_search_db" for p :: "time_ms \<times> 'h search_db"
    using that by (auto simp: sdb_ok_def no_search_db_def)
  have get: "sdb_ok (now, snd (getSearchDb now out s))" if "sdb_ok (t, s)" "t \<le> now"
    for t now out and s :: "'h search_db"
    using that by (cases out) (auto simp: sdb_ok_def getSearchDb_def closeSearchDb_def Let_def
        split: option.splits)
  show "sdb_ok q" if "sdb_ok p" "sdb_step p q" for p q :: "time_ms \<times> 'h search_db"
    using that(2,1)
  proof cases
    case (sdb_get t now s out)
    then show ?thesis using get that(1) by simp
  next
    case (sdb_health t now s backend out select_ok)
    moreover have "sdb_ok (now, snd (checkDbHealth backend now out select_ok s))"
      using get [of t s now out] that(1) sdb_health
      by (auto simp: checkDbHealth_def sdb_ok_def closeSearchDb_def Let_def)
    ultimately show ?thesis by simp
  qed
qed

text \<open>Connections are fresh: after any history, the connection that \<open>getSearchDb\<close> hands out has
  been opened completely within the last minute, or is opened completely now; one whose
  opening failed half-way is never handed out.\<close>

theorem connection_fresh:
  fixes s :: "'h search_db"
  assumes "reaches sdb_step (\<lambda>(t, s). 0 < t \<and> s = no_search_db) (t, s)" and "t \<le> now" and "60000 < now"
    and "getSearchDb now out s = (Some h, s')"
  shows "searchDb s' = Some h \<and> 0 < searchDbLastOpen s' \<and> now - searchDbLastOpen s' \<le> 60000 \<and>
    (out = Opened h \<and> searchDbLastOpen s' = now \<or> searchDb s = Some h \<and> searchDbLastOpen s' = searchDbLastOpen s)"
proof -
  have "sdb_ok (t, s)" by (rule connection.reaches_inv [OF assms(1)])
  with assms(2-4) show ?thesis
    by (cases out) (auto simp: sdb_ok_def search_db_defs split: option.splits if_splits)
qed

lemma connection_fresh_witness:
  "70000 - searchDbLastOpen (snd (getSearchDb 70000 (Opened ''h'') no_search_db)) \<le> 60000"
  using connection_fresh [of 1 no_search_db 70000 "Opened ''h''" "''h''"
      "snd (getSearchDb 70000 (Opened ''h'') no_search_db)", OF reaches_init]
  by (simp add: search_db_defs)

section \<open>Words of a query\<close>

definition query_special :: "char \<Rightarrow> bool" where
  "query_special c \<longleftrightarrow> c \<in> set ''(){}^~+-'' \<or> c = CHR 0x22 \<or> c = CHR 0x27 \<or> c = CHR 0x5C"

definition clean_query :: "string \<Rightarrow> string" where
  "clean_query q = js_trim (map (\<lambda>c. if query_special c then CHR '' '' else c) q)"

definition query_words :: "string \<Rightarrow> string list" where
  "query_words q = filter (\<lambda>w. w \<noteq> []) (split_ws (clean_query q))"

fun js_join :: "string \<Rightarrow> string list \<Rightarrow> string" where
  "js_join sep [] = []"
| "js_join sep [w] = w"
| "js_join sep (w # v # ws) = w @ sep @ js_join sep (v # ws)"

definition fts_text :: "string \<Rightarrow> string" where
  "fts_text q = js_join '' '' (map (\<lambda>w. w @ ''*'') (query_words q))"

lemma split_ws_ws: "is_ws a \<Longrightarrow> set (split_ws (a # cs)) \<subseteq> insert [] (set (split_ws cs))"
  by (cases cs) (auto simp del: split_ws.simps(2) simp: split_ws.simps(2) [of a])

lemma split_ws_chars: "\<forall>w \<in> set (split_ws s). \<forall>c \<in> set w. c \<in> set s \<and> \<not> is_ws c"
proof (induction s)
  case (Cons a cs)
  show ?case
  proof (cases "is_ws a")
    case True
    then show ?thesis using Cons split_ws_ws [OF True, of cs] by fastforce
  next
    case False
    then show ?thesis using Cons by (cases "split_ws cs") simp_all
  qed
qed simp

lemma query_word:
  assumes "w \<in> set (query_words q)"
  shows "w \<noteq> [] \<and> list_all (\<lambda>c. \<not> is_ws c \<and> \<not> query_special c) w"
proof -
  let ?m = "map (\<lambda>c. if query_special c then CHR '' '' else c) q"
  have blank: "is_ws (CHR '' '')" by (simp add: is_ws_def)
  have w: "w \<in> set (split_ws (js_trim ?m))" "w \<noteq> []"
    using assms by (simp_all add: query_words_def clean_query_def)
  have "\<not> is_ws c \<and> \<not> query_special c" if "c \<in> set w" for c
  proof -
    have c: "c \<in> set (js_trim ?m)" "\<not> is_ws c" using split_ws_chars w(1) that by blast+
    from subsetD [OF set_js_trim c(1)] have "c = CHR '' '' \<or> \<not> query_special c" by auto
    with c(2) blank show ?thesis by auto
  qed
  with w(2) show ?thesis by (simp add: list_all_iff)
qed

lemma split_ws_join:
  "ws \<noteq> [] \<Longrightarrow> \<forall>w \<in> set ws. w \<noteq> [] \<and> list_all (\<lambda>c. \<not> is_ws c) w \<Longrightarrow> split_ws (js_join '' '' ws) = ws"
proof (induction "'' ''" ws rule: js_join.induct)
  case (2 w)
  then show ?case by (simp add: split_ws_word)
next
  case (3 w v ws)
  have "js_join '' '' (v # ws) \<noteq> [] \<and> hd (js_join '' '' (v # ws)) = hd v"
    using 3 by (cases ws) auto
  moreover have "\<not> is_ws (hd v)" using 3 by (cases v) auto
  ultimately show ?case using 3 split_ws_app [of w "js_join '' '' (v # ws)"] by simp
qed simp

text \<open>The full-text query is made of whole words: for a query that has any, the words of the
  text sent to the engine are, in order, the words of the query with a star behind each, and
  no word is empty or contains white space, a quote, a bracket or an operator of the list.\<close>

theorem fts_text_words:
  assumes "query_words q \<noteq> []"
  shows "split_ws (fts_text q) = map (\<lambda>w. w @ ''*'') (query_words q) \<and>
    list_all (\<lambda>w. w \<noteq> [] \<and> list_all (\<lambda>c. \<not> is_ws c \<and> \<not> query_special c) w) (query_words q)"
proof -
  have star: "\<not> is_ws CHR ''*''" by (simp add: is_ws_def)
  have "\<forall>w \<in> set (map (\<lambda>w. w @ ''*'') (query_words q)). w \<noteq> [] \<and> list_all (\<lambda>c. \<not> is_ws c) w"
    using query_word [of _ q] star by (auto simp: list_all_iff)
  then show ?thesis
    using split_ws_join [of "map (\<lambda>w. w @ ''*'') (query_words q)"] assms query_word [of _ q]
    by (simp add: fts_text_def list_all_iff)
qed

lemma fts_text_words_witness: "split_ws (fts_text ''node-js  c+'') = [''node*'', ''js*'', ''c*'']"
proof -
  have "query_words ''node-js  c+'' = [''node'', ''js'', ''c'']" by code_simp
  with fts_text_words [of "''node-js  c+''"] show ?thesis by simp
qed

section \<open>The search handler\<close>

text \<open>
  The query parameter as Express parses it: absent, a string, or (repeated or bracketed) an
  array or object, on which \<open>trim\<close> is not a function: the exception leaves the asynchronous
  handler, and nothing answers the request.
\<close>

datatype query_param = NoQuery | Text string | Structured

record 'r search_reply =
  results :: "'r list"
  reply_query :: string
  reply_source :: "string option"
  reply_error :: "string option"
  degraded :: bool

datatype 'r search_outcome = NoReply | Reply "'r search_reply"

text \<open>What is outside: \<open>es_search\<close> is \<open>None\<close> for \<open>null\<close>, an SQL query is \<open>Inl\<close> when it throws.\<close>

record ('h, 'r) search_env =
  es_enabled :: bool
  es_connected :: bool
  es_search :: "string \<Rightarrow> 'r list option"
  se_backend :: db_backend
  pg_query :: "string \<Rightarrow> unit + 'r list"
  db_open :: "'h open_outcome"
  fts_query :: "'h \<Rightarrow> string \<Rightarrow> unit + 'r list"

definition plain_reply :: "string \<Rightarrow> 'r search_reply" where
  "plain_reply q = \<lparr> results = [], reply_query = q, reply_source = None, reply_error = None, degraded = False \<rparr>"

definition answered :: "string \<Rightarrow> string \<Rightarrow> 'r list \<Rightarrow> 'r search_reply" where
  "answered q src rows = (plain_reply q)\<lparr>results := rows, reply_source := Some src\<rparr>"

definition unavailable :: "string \<Rightarrow> 'r search_reply" where
  "unavailable q = (plain_reply q)\<lparr>reply_error := Some ''Search temporarily unavailable''\<rparr>"

definition not_ready :: "string \<Rightarrow> 'r search_reply" where
  "not_ready q = (plain_reply q)\<lparr>reply_error := Some ''DB not ready'', degraded := True\<rparr>"

definition run_words :: "string \<Rightarrow> string \<Rightarrow> (string \<Rightarrow> unit + 'r list) \<Rightarrow> string \<Rightarrow> 'r search_reply" where
  "run_words q src run body =
    (if query_words q = [] then plain_reply q
     else case run body of Inr rows \<Rightarrow> answered q src rows | Inl _ \<Rightarrow> unavailable q)"

text \<open>The call that the breaker named database protects.\<close>

definition open_search_db ::
  "time_ms \<Rightarrow> 'h open_outcome \<Rightarrow> 'h search_db \<Rightarrow> (string + 'h option) \<times> 'h search_db" where
  "open_search_db now out s =
    (case getSearchDb now out s of
       (Some h, s') \<Rightarrow> (Inr (Some h), s') | (None, s') \<Rightarrow> (Inl ''Search DB not available'', s'))"

definition clean_param :: "query_param \<Rightarrow> string" where
  "clean_param p = sanitizeInput (Some (take 500 (js_trim (case p of Text s \<Rightarrow> s | _ \<Rightarrow> []))))"

definition search_handler ::
  "('h, 'r) search_env \<Rightarrow> time_ms \<Rightarrow> time_ms \<Rightarrow> query_param \<Rightarrow> CircuitBreaker \<times> 'h search_db \<Rightarrow>
   'r search_outcome \<times> CircuitBreaker \<times> 'h search_db" where
  "search_handler env t0 t1 p st =
    (if p = Structured then (NoReply, st)
     else let q = clean_param p in
       if q = [] then (Reply (plain_reply q), st)
       else case (if es_enabled env \<and> es_connected env then es_search env q else None) of
         Some rows \<Rightarrow> (Reply (answered q ''elasticsearch'' rows), st)
       | None \<Rightarrow>
         (if se_backend env = Pg then
            (Reply (run_words q ''postgresql'' (pg_query env) (js_join '' '' (query_words q))), st)
          else
            (case cb_execute t0 t1 (open_search_db t0 (db_open env)) (Some (\<lambda>_. Inr None)) st of
               (Inr (Some h), st') \<Rightarrow>
                 (Reply (run_words q ''sqlite'' (fts_query env h) (fts_text q)), st')
             | (Inr None, st') \<Rightarrow> (Reply (not_ready q), st')
             | (Inl _, st') \<Rightarrow> (Reply (unavailable q), st'))))"

lemmas reply_defs = plain_reply_def answered_def unavailable_def not_ready_def

definition empty_reply :: "string \<Rightarrow> 'r search_reply \<Rightarrow> bool" where
  "empty_reply q r \<longleftrightarrow> r \<in> {plain_reply q, unavailable q, not_ready q}"

lemma run_words_empty:
  "empty_reply q (run_words q src run body) \<or>
    (\<exists>rows. run body = Inr rows \<and> run_words q src run body = answered q src rows)"
  by (simp add: run_words_def empty_reply_def split: sum.split)

text \<open>The four kinds of outcome.\<close>

lemma search_cases:
  assumes "p \<noteq> Structured" and "search_handler env t0 t1 p st = (out, st')"
  obtains (empty) r where "out = Reply r" "empty_reply (clean_param p) r"
  | (es) rows where "out = Reply (answered (clean_param p) ''elasticsearch'' rows)"
      "es_search env (clean_param p) = Some rows" "st' = st"
  | (pg) rows where "out = Reply (answered (clean_param p) ''postgresql'' rows)"
      "pg_query env (js_join '' '' (query_words (clean_param p))) = Inr rows" "st' = st"
  | (sqlite) h rows where "out = Reply (answered (clean_param p) ''sqlite'' rows)"
      "fts_query env h (fts_text (clean_param p)) = Inr rows"
proof -
  let ?q = "clean_param p"
  let ?es = "if es_enabled env \<and> es_connected env then es_search env ?q else None"
  note h = assms(2) [unfolded search_handler_def Let_def]
  consider (none) "?q = []" | (es') rows where "?q \<noteq> []" "?es = Some rows"
    | (pg') "?q \<noteq> []" "?es = None" "se_backend env = Pg"
    | (lite) "?q \<noteq> []" "?es = None" "se_backend env \<noteq> Pg" by (cases ?es) auto
  then show thesis
  proof cases
    case none
    then show thesis using h assms(1) empty [of "plain_reply ?q"] by (auto simp: empty_reply_def)
  next
    case es'
    then show thesis using h assms(1) es [of rows] by (auto split: if_splits)
  next
    case pg'
    then have "out = Reply (run_words ?q ''postgresql'' (pg_query env) (js_join '' '' (query_words ?q)))"
      "st' = st" using h assms(1) by auto
    then show thesis using run_words_empty empty pg by metis
  next
    case lite
    obtain r st1 where e: "cb_execute t0 t1 (open_search_db t0 (db_open env)) (Some (\<lambda>_. Inr None)) st = (r, st1)"
      by (metis surj_pair)
    show thesis
    proof (cases r)
      case (Inl e')
      then have "out = Reply (unavailable ?q)" using h assms(1) lite e by simp
      then show thesis by (rule empty) (simp add: empty_reply_def)
    next
      case (Inr c)
      show thesis
      proof (cases c)
        case None
        then have "out = Reply (not_ready ?q)" using h assms(1) lite e Inr by simp
        then show thesis by (rule empty) (simp add: empty_reply_def)
      next
        case (Some k)
        then have "out = Reply (run_words ?q ''sqlite'' (fts_query env k) (fts_text ?q))"
          using h assms(1) lite e Inr by simp
        then show thesis using run_words_empty empty sqlite by metis
      qed
    qed
  qed
qed

text \<open>C13. Every text query is answered, and the answer is about that query: its \<open>query\<close> field is the
  cleaned input, and rows in it are exactly the rows one backend returned for it; an
  Elasticsearch answer, even an empty one, leaves the breaker and the database alone, and a
  reply that reports an error has no rows.\<close>

theorem search_answers:
  assumes "p \<noteq> Structured" and "search_handler env t0 t1 p st = (out, st')"
  shows "\<exists>r. out = Reply r \<and> reply_query r = clean_param p \<and>
    (reply_error r \<noteq> None \<longrightarrow> results r = []) \<and>
    (case reply_source r of
       None \<Rightarrow> results r = []
     | Some src \<Rightarrow>
         src = ''elasticsearch'' \<and> es_search env (clean_param p) = Some (results r) \<and> st' = st \<or>
         src = ''postgresql'' \<and> pg_query env (js_join '' '' (query_words (clean_param p))) = Inr (results r) \<and> st' = st \<or>
         src = ''sqlite'' \<and> (\<exists>h. fts_query env h (fts_text (clean_param p)) = Inr (results r)))"
  using assms
proof (cases rule: search_cases)
  case (empty r)
  then show ?thesis by (auto simp: empty_reply_def reply_defs)
qed (auto simp: answered_def plain_reply_def)

definition demo_env :: "(string, nat) search_env" where
  "demo_env = \<lparr> es_enabled = False, es_connected = False, es_search = (\<lambda>_. None), se_backend = Sqlite,
     pg_query = (\<lambda>_. Inl ()), db_open = Opened ''file'',
     fts_query = (\<lambda>h body. if body = ''node* js*'' then Inr [7] else Inl ()) \<rparr>"

definition dbBreaker :: "time_ms \<Rightarrow> CircuitBreaker" where
  "dbBreaker now = fst (getBreaker ''database'' \<lparr> o_name = None, o_failureThreshold = Some 3,
     o_resetTimeout = Some 15000, o_halfOpenMax = None, o_monitorInterval = None \<rparr> now [])"

lemma dbBreaker [simp]:
  "dbBreaker now = \<lparr> cb_name = ''database'', failureThreshold = 3, resetTimeout = 15000, halfOpenMax = 3,
     monitorInterval = 10000, cb_state = CLOSED, failureCount = 0, successCount = 0,
     halfOpenAttempts = 0, lastFailureTime = None, lastStateChange = now \<rparr>"
  by (simp add: dbBreaker_def getBreaker_def new_CircuitBreaker_def or_num_def or_str_def)

lemma demo_param: "clean_param (Text ''node js'') = ''node js'' \<and> fts_text ''node js'' = ''node* js*''"
  by code_simp

lemma search_answers_witness:
  "\<exists>r. fst (search_handler demo_env 70000 70001 (Text ''node js'') (dbBreaker 0, no_search_db)) = Reply r \<and>
    reply_query r = ''node js''"
proof -
  obtain out st' where "search_handler demo_env 70000 70001 (Text ''node js'') (dbBreaker 0, no_search_db) = (out, st')"
    by (metis surj_pair)
  with search_answers [OF _ this] demo_param show ?thesis by auto
qed

section \<open>Degradation and recovery\<close>

definition sqlite_only :: "('h, 'r) search_env \<Rightarrow> bool" where
  "sqlite_only env \<longleftrightarrow> \<not> (es_enabled env \<and> es_connected env) \<and> se_backend env = Sqlite"

definition real_query :: "query_param \<Rightarrow> bool" where
  "real_query p \<longleftrightarrow> p \<noteq> Structured \<and> clean_param p \<noteq> []"

text \<open>A series of searches, each with its world, its two moments and its query.\<close>

fun search_run ::
  "(('h, 'r) search_env \<times> time_ms \<times> time_ms \<times> query_param) list \<Rightarrow> CircuitBreaker \<times> 'h search_db \<Rightarrow>
   CircuitBreaker \<times> 'h search_db" where
  "search_run [] st = st"
| "search_run ((env, t0, t1, p) # rs) st = search_run rs (snd (search_handler env t0 t1 p st))"

lemma search_sqlite:
  assumes "sqlite_only env" and "real_query p"
  shows "search_handler env t0 t1 p st =
    (case cb_execute t0 t1 (open_search_db t0 (db_open env)) (Some (\<lambda>_. Inr None)) st of
       (Inr (Some h), st') \<Rightarrow>
         (Reply (run_words (clean_param p) ''sqlite'' (fts_query env h) (fts_text (clean_param p))), st')
     | (Inr None, st') \<Rightarrow> (Reply (not_ready (clean_param p)), st')
     | (Inl _, st') \<Rightarrow> (Reply (unavailable (clean_param p)), st'))"
  using assms by (auto simp: search_handler_def sqlite_only_def real_query_def Let_def)

lemma open_fails:
  "searchDb s = None \<Longrightarrow> open_search_db t OpenFails s = (Inl ''Search DB not available'', s\<lparr>searchDbHealth := False\<rparr>)"
  by (simp add: open_search_db_def getSearchDb_def)

lemma search_open_fails:
  assumes "sqlite_only env" and "real_query p" and "db_open env = OpenFails"
    and "cb_state b = CLOSED" and "searchDb s = None"
  shows "snd (search_handler env t0 t1 p (b, s)) = (cb_onFailure t1 b, s\<lparr>searchDbHealth := False\<rparr>)"
  using assms(3-5)
  by (simp add: search_sqlite [OF assms(1,2)] cb_execute_def cb_admit_def currentState_def open_fails)

text \<open>C14. The search degrades and recovers: after three searches that found the database file
  unreadable, every search of the next 15 seconds is answered at once as degraded, without
  touching the file, whatever its state by then; the first search after that, when the file
  can be opened again, runs its query on it.\<close>

theorem search_degrades:
  fixes now t' h
  assumes "\<forall>(env, t0, t1, p) \<in> {(e1, a1, b1, p1), (e2, a2, b2, p2), (e3, a3, b3, p3)}.
      sqlite_only env \<and> real_query p \<and> db_open env = OpenFails"
    and "sqlite_only env" and "real_query p"
  defines "st \<equiv> search_run [(e1, a1, b1, p1), (e2, a2, b2, p2), (e3, a3, b3, p3)] (dbBreaker now, no_search_db)"
  shows "(t - b3 < 15000 \<longrightarrow> search_handler env t t' p st = (Reply (not_ready (clean_param p)), st)) \<and>
    (t - b3 \<ge> 15000 \<and> db_open env = Opened h \<longrightarrow>
      fst (search_handler env t t' p st) =
        Reply (run_words (clean_param p) ''sqlite'' (fts_query env h) (fts_text (clean_param p))))"
proof -
  have st: "st = ((dbBreaker now)\<lparr>cb_state := OPEN, failureCount := 3, lastFailureTime := Some b3,
      lastStateChange := b3\<rparr>, no_search_db)"
    using assms(1) unfolding st_def
    by (simp add: search_open_fails no_search_db_def cb_onFailure_def cb_transition_def Let_def)
  show ?thesis
    unfolding search_sqlite [OF assms(2,3)] st
    by (simp add: cb_execute_def breaker_ops last_failure_def open_search_db_def getSearchDb_def no_search_db_def)
qed

definition broken_env :: "(string, nat) search_env" where
  "broken_env = demo_env\<lparr>db_open := OpenFails\<rparr>"

lemma search_degrades_witness:
  "let st = search_run (map (\<lambda>t. (broken_env, t, t, Text ''node js'')) [100000, 100010, 100020]) (dbBreaker 0, no_search_db) in
   fst (search_handler demo_env 100030 100031 (Text ''node js'') st) = Reply (not_ready ''node js'') \<and>
   fst (search_handler demo_env 120000 120001 (Text ''node js'') st) = Reply (answered ''node js'' ''sqlite'' [7])"
proof -
  have q: "real_query (Text ''node js'')" using demo_param by (simp add: real_query_def)
  have e: "sqlite_only demo_env" "sqlite_only broken_env" "db_open broken_env = OpenFails"
    "db_open demo_env = Opened ''file''"
    by (simp_all add: sqlite_only_def demo_env_def broken_env_def)
  have "query_words ''node js'' \<noteq> []" by code_simp
  then have "run_words ''node js'' ''sqlite'' (fts_query demo_env ''file'') ''node* js*'' =
      answered ''node js'' ''sqlite'' [7]"
    by (simp add: run_words_def demo_env_def)
  with search_degrades [of broken_env 100000 100000 "Text ''node js''" broken_env 100010 100010
      "Text ''node js''" broken_env 100020 100020 "Text ''node js''" demo_env "Text ''node js''"
      100030 100031 0 "''file''"]
    search_degrades [of broken_env 100000 100000 "Text ''node js''" broken_env 100010 100010
      "Text ''node js''" broken_env 100020 100020 "Text ''node js''" demo_env "Text ''node js''"
      120000 120001 0 "''file''"]
  show ?thesis using q e demo_param by (simp add: Let_def)
qed

end
