(* ===== verification/HttpApi.thy ===== *)
theory HttpApi
  imports Search Supervisor
begin

text \<open>
  The rest of server.ts that decides something: readiness, the cached statistics that the
  crawler reports, and the error handler with the error classes of src/errors.ts.
\<close>

section \<open>Readiness\<close>

text \<open>
  \<open>None\<close> is a backend that is not enabled and has no check; for an enabled one \<open>Inl ()\<close> says that
  asking it throws.
\<close>

record ready_env =
  uptime_positive :: bool
  rss :: int
  redis_conn :: "(unit + bool) option"
  kafka_conn :: "(unit + bool) option"
  es_conn :: "(unit + bool) option"

definition connection_check :: "string \<Rightarrow> (unit + bool) option \<Rightarrow> (string \<times> bool) list" where
  "connection_check name conn =
    (case conn of None \<Rightarrow> [] | Some (Inl _) \<Rightarrow> [(name, False)] | Some (Inr ok) \<Rightarrow> [(name, ok)])"

definition health_ready ::
  "db_backend \<Rightarrow> time_ms \<Rightarrow> 'h open_outcome \<Rightarrow> bool \<Rightarrow> ready_env \<Rightarrow> supervisor \<Rightarrow> registry \<times> 'h search_db \<Rightarrow>
   (int \<times> (string \<times> bool) list) \<times> registry \<times> 'h search_db" where
  "health_ready backend now out select_ok env worker = (\<lambda>(reg, sdb).
    (let (dbOk, sdb') = checkDbHealth backend now out select_ok sdb;
         (sts, reg') = getAllBreakers now reg;
         checks = [(''uptime'', uptime_positive env), (''memory'', rss env < 500 * 1024 * 1024),
             (''crawler'', workerAlive worker), (''db'', dbOk),
             (''circuitBreakers'', list_all (\<lambda>b. s_state b \<noteq> OPEN) sts)] @
           connection_check ''redis'' (redis_conn env) @ connection_check ''kafka'' (kafka_conn env) @
           connection_check ''elasticsearch'' (es_conn env)
     in ((if list_all snd checks then 200 else 503, checks), reg', sdb')))"

definition conn_fine :: "(unit + bool) option \<Rightarrow> bool" where
  "conn_fine conn \<longleftrightarrow> conn \<in> {None, Some (Inr True)}"

lemma connection_check_fine: "list_all snd (connection_check name conn) \<longleftrightarrow> conn_fine conn"
  by (cases conn) (auto simp: connection_check_def conn_fine_def split: sum.splits)

lemma getAllBreakers_statuses:
  "fst (getAllBreakers now reg) = map (\<lambda>(n, b). fst (getStatus now b)) reg"
  by (induction reg) (auto simp: split_beta Let_def)

lemma status_open:
  "s_state (fst (getStatus now b)) \<noteq> OPEN \<longleftrightarrow> (cb_state b = OPEN \<longrightarrow> now - last_failure b \<ge> resetTimeout b)"
  by (simp add: getStatus_def currentState_def cb_transition_def Let_def)

lemma statuses_open:
  "list_all (\<lambda>b. s_state b \<noteq> OPEN) (fst (getAllBreakers now reg)) \<longleftrightarrow>
    (\<forall>(n, b) \<in> set reg. cb_state b = OPEN \<longrightarrow> now - last_failure b \<ge> resetTimeout b)"
  by (simp add: getAllBreakers_statuses list_all_iff split_beta status_open)


definition demo_ready :: ready_env where
  "demo_ready = \<lparr>uptime_positive = True, rss = 1000, redis_conn = None, kafka_conn = Some (Inr True), es_conn = None\<rparr>"


section \<open>Statistics\<close>

text \<open>The fields of a stats message, \<open>None\<close> where the crawler left one out.\<close>

record stats_msg =
  m_total :: "int option"
  m_frontier :: "int option"
  m_success :: "int option"
  m_fail :: "int option"
  m_uptime :: "int option"
  m_domainsChecked :: "int option"
  m_rate :: "string option"
  m_domainsBlacklisted :: "int option"
  m_totalFetchTime :: "int option"
  m_concurrency :: "int option"
  m_domains :: "(domain \<times> int) list option"

record cached_stats =
  cachedNodeCount :: int
  cachedFrontierCount :: int
  cachedDomainPop :: "(domain \<times> int) list"
  cachedSuccess :: int
  cachedFail :: int
  cachedRate :: string
  cachedUptime :: int
  cachedDomainsChecked :: int
  cachedDomainsBlacklisted :: int
  cachedTotalFetchTime :: int
  cachedConcurrency :: int

definition initial_stats :: cached_stats where
  "initial_stats = \<lparr> cachedNodeCount = 0, cachedFrontierCount = 0, cachedDomainPop = [], cachedSuccess = 0,
     cachedFail = 0, cachedRate = ''0.0'', cachedUptime = 0, cachedDomainsChecked = 0,
     cachedDomainsBlacklisted = 0, cachedTotalFetchTime = 0, cachedConcurrency = 0 \<rparr>"

definition on_stats :: "stats_msg \<Rightarrow> cached_stats \<Rightarrow> cached_stats" where
  "on_stats m c =
    \<lparr> cachedNodeCount = or_num (m_total m) 0, cachedFrontierCount = or_num (m_frontier m) 0,
      cachedDomainPop = (case m_domains m of None \<Rightarrow> cachedDomainPop c | Some d \<Rightarrow> d),
      cachedSuccess = or_num (m_success m) 0, cachedFail = or_num (m_fail m) 0,
      cachedRate = or_str (m_rate m) ''0.0'', cachedUptime = or_num (m_uptime m) 0,
      cachedDomainsChecked = or_num (m_domainsChecked m) 0,
      cachedDomainsBlacklisted = or_num (m_domainsBlacklisted m) 0,
      cachedTotalFetchTime = or_num (m_totalFetchTime m) 0,
      cachedConcurrency = or_num (m_concurrency m) 0 \<rparr>"

section \<open>Errors\<close>

text \<open>The fields of an \<open>AppError\<close>; details are named values.\<close>

record app_error =
  e_message :: string
  e_code :: string
  e_statusCode :: int
  e_details :: "(string \<times> string) list option"
  e_timestamp :: time_ms

definition new_AppError ::
  "string \<Rightarrow> string \<Rightarrow> int \<Rightarrow> (string \<times> string) list option \<Rightarrow> time_ms \<Rightarrow> app_error" where
  "new_AppError message code statusCode details now =
    \<lparr>e_message = message, e_code = code, e_statusCode = statusCode, e_details = details, e_timestamp = now\<rparr>"

definition DatabaseError :: "string \<Rightarrow> (string \<times> string) list option \<Rightarrow> time_ms \<Rightarrow> app_error" where
  "DatabaseError message details = new_AppError message ''DATABASE_ERROR'' 503 details"

definition FetchError :: "string \<Rightarrow> url \<Rightarrow> (string \<times> string) list option \<Rightarrow> time_ms \<Rightarrow> app_error" where
  "FetchError message u details =
    new_AppError message ''FETCH_ERROR'' 502
      (Some (fold (\<lambda>(k, v). AList.update k v) (case details of None \<Rightarrow> [] | Some d \<Rightarrow> d) [(''url'', u)]))"

definition ValidationError :: "string \<Rightarrow> (string \<times> string) list option \<Rightarrow> time_ms \<Rightarrow> app_error" where
  "ValidationError message details = new_AppError message ''VALIDATION_ERROR'' 400 details"

definition RateLimitError :: "string option \<Rightarrow> time_ms \<Rightarrow> app_error" where
  "RateLimitError message =
    new_AppError (case message of None \<Rightarrow> ''Too many requests'' | Some m \<Rightarrow> m) ''RATE_LIMIT'' 429 None"

definition CircuitOpenError :: "string \<Rightarrow> time_ms \<Rightarrow> app_error" where
  "CircuitOpenError service =
    new_AppError (''Circuit breaker open for '' @ service) ''CIRCUIT_OPEN'' 503 (Some [(''service'', service)])"

text \<open>What a route throws: an error of these classes, or any other with its message.\<close>

datatype thrown = App app_error | Other string

datatype json_body = ErrorJson app_error | InternalJson "string option"

text \<open>The body of the second kind is \<open>Internal server error\<close>, the request id and \<open>INTERNAL_ERROR\<close>.\<close>

definition error_handler :: "string option \<Rightarrow> thrown \<Rightarrow> int \<times> json_body" where
  "error_handler request_id err =
    (case err of App e \<Rightarrow> (e_statusCode e, ErrorJson e) | Other _ \<Rightarrow> (500, InternalJson request_id))"

lemmas error_classes =
  DatabaseError_def FetchError_def ValidationError_def RateLimitError_def CircuitOpenError_def new_AppError_def

text \<open>Errors are reported by class and never leak: each class of src/errors.ts reaches the client
  with its own status between 400 and 599, its code and its message, and any other exception
  as a 500 that does not depend on its message.\<close>

theorem errors_do_not_leak:
  "error_handler rid (Other m) = error_handler rid (Other m') \<and> fst (error_handler rid (Other m)) = 500 \<and>
   list_all (\<lambda>(e, status, code). fst (error_handler rid (App e)) = status \<and> e_code e = code \<and>
       400 \<le> status \<and> status < 600)
     [(DatabaseError m d t, 503, ''DATABASE_ERROR''), (FetchError m u d t, 502, ''FETCH_ERROR''),
      (ValidationError m d t, 400, ''VALIDATION_ERROR''), (RateLimitError mo t, 429, ''RATE_LIMIT''),
      (CircuitOpenError svc t, 503, ''CIRCUIT_OPEN'')]"
  by (simp add: error_handler_def error_classes)

end
