(* ===== verification/Tree.thy ===== *)
theory Tree
  imports StoreBackends Config "HOL-Library.Multiset"
begin

text \<open>
  src/tree.ts and the start-up copy of it in server.ts: the picture of the crawl that the
  dashboard shows. The two SQL queries are given their meaning on the table \<open>nodes\<close>; \<open>ord\<close>
  arguments are the orders in which SQL leaves rows that compare equal.
\<close>

section \<open>The queries\<close>

text \<open>
  \<open>ROW_NUMBER() OVER (PARTITION BY domain ORDER BY popularity DESC) = 1\<close>, then the 200 most
  popular of these rows.
\<close>

definition domain_top :: "(node_row list \<Rightarrow> node_row list) \<Rightarrow> node_row list \<Rightarrow> domain \<Rightarrow> node_row" where
  "domain_top ord ns d = hd (sort_key (\<lambda>n. - n_popularity n) (filter (\<lambda>n. n_domain n = d) (ord ns)))"

definition top_nodes ::
  "(node_row list \<Rightarrow> node_row list) \<Rightarrow> (node_row list \<Rightarrow> node_row list) \<Rightarrow> node_row list \<Rightarrow> node_row list" where
  "top_nodes ord ord' ns =
    take 200 (sort_key (\<lambda>n. - n_popularity n) (ord' (map (domain_top ord ns) (remdups (map n_domain ns)))))"

text \<open>The join of rows with their parents across domains, grouped and counted.\<close>

definition cross_links :: "node_row list \<Rightarrow> (domain \<times> domain) list" where
  "cross_links ns = concat (map (\<lambda>n. map (\<lambda>p. (n_domain p, n_domain n))
     (filter (\<lambda>p. n_parent n = Some (n_url p) \<and> n_domain n \<noteq> n_domain p) ns)) ns)"

record TreeEdge =
  e_src :: domain
  e_dst :: domain
  e_w :: int

definition raw_edges :: "(TreeEdge list \<Rightarrow> TreeEdge list) \<Rightarrow> node_row list \<Rightarrow> TreeEdge list" where
  "raw_edges ord ns =
    take 300 (sort_key (\<lambda>e. - e_w e) (ord (map (\<lambda>(a, b).
      \<lparr>e_src = a, e_dst = b, e_w = int (count_list (cross_links ns) (a, b))\<rparr>) (remdups (cross_links ns)))))"

record TreeData =
  t_nodes :: "node_row list"
  t_edges :: "TreeEdge list"
  t_total :: int
  t_domains :: int

record tree_orders =
  ord_part :: "node_row list \<Rightarrow> node_row list"
  ord_top :: "node_row list \<Rightarrow> node_row list"
  ord_edge :: "TreeEdge list \<Rightarrow> TreeEdge list"

definition displayed_edges :: "node_row list \<Rightarrow> TreeEdge list \<Rightarrow> TreeEdge list" where
  "displayed_edges ns es = filter (\<lambda>e. e_src e \<in> n_domain ` set ns \<and> e_dst e \<in> n_domain ` set ns) es"

text \<open>
  One refresh: the message for the server, or none when a query throws (\<open>fault\<close>) or the
  backend has no statement \<open>totalNodes\<close>, which is a call of \<open>undefined\<close>.
\<close>

definition refreshTreeCache ::
  "(nat \<Rightarrow> bool) \<Rightarrow> tree_orders \<Rightarrow> 'a store_scheme Statements \<Rightarrow> 'a store_scheme \<Rightarrow> TreeData option" where
  "refreshTreeCache fault os st db =
    (if fault 0 then None
     else let domainNodes = top_nodes (ord_part os) (ord_top os) (nodes db) in
       if domainNodes \<noteq> [] then
         (if fault 1 then None
          else let edges = displayed_edges domainNodes (raw_edges (ord_edge os) (nodes db)) in
            case get_totalNodes st of
              None \<Rightarrow> None
            | Some stmt \<Rightarrow>
                if fault 2 then None
                else Some \<lparr>t_nodes = domainNodes, t_edges = edges, t_total = stmt db,
                           t_domains = int (length domainNodes)\<rparr>)
       else
         (if fault 1 then None
          else case get_totalNodes st of
            None \<Rightarrow> None
          | Some stmt \<Rightarrow>
              if fault 2 then None
              else Some \<lparr>t_nodes = all_treeLight st 150 db, t_edges = [], t_total = stmt db, t_domains = 0\<rparr>))"

text \<open>\<open>loadTreeFromDb\<close> of the server: SQLite only, and nothing when there are no pages.\<close>

definition loadTreeFromDb ::
  "db_backend \<Rightarrow> (nat \<Rightarrow> bool) \<Rightarrow> tree_orders \<Rightarrow> 'a store_scheme \<Rightarrow> TreeData option" where
  "loadTreeFromDb backend fault os db =
    (if backend = Pg then None
     else if fault 0 then None
     else let domainNodes = top_nodes (ord_part os) (ord_top os) (nodes db) in
       if domainNodes = [] then None
       else if fault 1 \<or> fault 2 then None
       else Some \<lparr>t_nodes = domainNodes,
                  t_edges = displayed_edges domainNodes (raw_edges (ord_edge os) (nodes db)),
                  t_total = nodeCount db, t_domains = int (length domainNodes)\<rparr>)"

section \<open>What the picture shows\<close>

definition orders_ok :: "tree_orders \<Rightarrow> bool" where
  "orders_ok os \<longleftrightarrow> (\<forall>xs. mset (ord_part os xs) = mset xs) \<and> (\<forall>xs. mset (ord_top os xs) = mset xs) \<and>
    (\<forall>xs. mset (ord_edge os xs) = mset xs)"

lemma domain_top_spec:
  assumes "\<And>xs. mset (ord xs) = mset xs" and "d \<in> n_domain ` set ns"
  shows "domain_top ord ns d \<in> set ns \<and> n_domain (domain_top ord ns d) = d \<and>
    (\<forall>n \<in> set ns. n_domain n = d \<longrightarrow> n_popularity n \<le> n_popularity (domain_top ord ns d))"
proof -
  let ?fs = "filter (\<lambda>n. n_domain n = d) (ord ns)"
  let ?ss = "sort_key (\<lambda>n. - n_popularity n) ?fs"
  have set: "set (ord ns) = set ns" using assms(1) mset_eq_setD by blast
  then have "?ss \<noteq> []" using assms(2) by (auto simp: filter_empty_conv simp flip: set_empty)
  then obtain x xs where x: "?ss = x # xs" by (cases ?ss) auto
  have "sorted (map (\<lambda>n. - n_popularity n) ?ss)" by simp
  then have "\<forall>n \<in> set ?ss. n_popularity n \<le> n_popularity x" unfolding x by simp
  moreover have "x \<in> set ?ss" unfolding x by simp
  moreover have "set ?ss = {n \<in> set ns. n_domain n = d}" using set by auto
  moreover have "domain_top ord ns d = x" using x by (simp add: domain_top_def)
  ultimately show ?thesis by auto
qed

lemma top_nodes_spec:
  assumes "\<And>xs. mset (ord xs) = mset xs" and "\<And>xs. mset (ord' xs) = mset xs"
  shows "distinct (map n_domain (top_nodes ord ord' ns)) \<and>
    sorted_wrt (\<lambda>a b. n_popularity a \<ge> n_popularity b) (top_nodes ord ord' ns) \<and>
    length (top_nodes ord ord' ns) \<le> 200 \<and>
    (\<forall>n \<in> set (top_nodes ord ord' ns). n \<in> set ns \<and>
      (\<forall>m \<in> set ns. n_domain m = n_domain n \<longrightarrow> n_popularity m \<le> n_popularity n))"
proof -
  let ?ds = "remdups (map n_domain ns)"
  let ?ts = "map (domain_top ord ns) ?ds"
  let ?ss = "sort_key (\<lambda>n. - n_popularity n) (ord' ?ts)"
  have top: "domain_top ord ns d \<in> set ns \<and> n_domain (domain_top ord ns d) = d \<and>
      (\<forall>n \<in> set ns. n_domain n = d \<longrightarrow> n_popularity n \<le> n_popularity (domain_top ord ns d))" if "d \<in> set ?ds" for d
    using domain_top_spec [OF assms(1)] that by simp
  have m: "mset ?ss = mset ?ts" using assms(2) by simp
  have "map n_domain ?ts = ?ds" unfolding map_map using top by (intro map_idI) simp
  then have "distinct (map n_domain ?ts)" by (metis distinct_remdups)
  then have "distinct (map n_domain ?ss)" using m by (metis mset_eq_imp_distinct_iff mset_map)
  then have "distinct (map n_domain (take 200 ?ss))" by (metis distinct_take take_map)
  moreover have "sorted (map (\<lambda>n. - n_popularity n) ?ss)" by simp
  then have "sorted_wrt (\<lambda>a b. n_popularity a \<ge> n_popularity b) ?ss" by (simp add: sorted_map)
  then have "sorted_wrt (\<lambda>a b. n_popularity a \<ge> n_popularity b) (take 200 ?ss)" by (rule sorted_wrt_take)
  moreover have "n \<in> set ns \<and> (\<forall>m \<in> set ns. n_domain m = n_domain n \<longrightarrow> n_popularity m \<le> n_popularity n)"
    if "n \<in> set (take 200 ?ss)" for n
  proof -
    have "n \<in> set ?ts" using in_set_takeD [OF that] mset_eq_setD [OF m] by simp
    then obtain d where "d \<in> set ?ds" "n = domain_top ord ns d" by auto
    then show ?thesis using top [of d] by simp
  qed
  ultimately show ?thesis unfolding top_nodes_def by (simp del: set_remdups)
qed

lemma cross_links_iff:
  "(a, b) \<in> set (cross_links ns) \<longleftrightarrow>
    (\<exists>n \<in> set ns. \<exists>p \<in> set ns. n_parent n = Some (n_url p) \<and> a = n_domain p \<and> b = n_domain n \<and> a \<noteq> b)"
  unfolding cross_links_def by fastforce

lemma raw_edges_spec:
  assumes "\<And>xs. mset (ord xs) = mset xs"
  shows "length (raw_edges ord ns) \<le> 300 \<and>
    (\<forall>e \<in> set (raw_edges ord ns). (e_src e, e_dst e) \<in> set (cross_links ns) \<and>
      e_w e = int (count_list (cross_links ns) (e_src e, e_dst e)))"
proof -
  let ?es = "map (\<lambda>(a, b). \<lparr>e_src = a, e_dst = b, e_w = int (count_list (cross_links ns) (a, b))\<rparr>)
    (remdups (cross_links ns))"
  have "set (ord ?es) = set ?es" using assms mset_eq_setD by blast
  then have "e \<in> set ?es" if "e \<in> set (raw_edges ord ns)" for e
    using in_set_takeD [OF that [unfolded raw_edges_def]] by simp
  then show ?thesis by (fastforce simp: raw_edges_def)
qed

text \<open>C35. The picture is right: on SQLite, with no failing query and any order of equal rows, the refresh
  sends one page per domain, at most 200, the most popular first and each the most popular of
  its domain; at most 300 edges, each between two different domains that are shown, with the
  number of pages of one that were found on pages of the other as its weight, never zero; and
  the number of all pages. The server's start-up copy shows the same. PostgreSQL sends
  nothing.\<close>

theorem tree_picture:
  fixes db :: sqlite_store and pdb :: store
  assumes "orders_ok os" and "nodes db \<noteq> []" and "\<forall>i. \<not> fault i"
  shows "(\<exists>m. refreshTreeCache fault os sqlite_statements db = Some m \<and>
      loadTreeFromDb Sqlite fault os db = Some m \<and>
      distinct (map n_domain (t_nodes m)) \<and> length (t_nodes m) \<le> 200 \<and>
      sorted_wrt (\<lambda>a b. n_popularity a \<ge> n_popularity b) (t_nodes m) \<and>
      (\<forall>n \<in> set (t_nodes m). n \<in> set (nodes db) \<and>
        (\<forall>n' \<in> set (nodes db). n_domain n' = n_domain n \<longrightarrow> n_popularity n' \<le> n_popularity n)) \<and>
      length (t_edges m) \<le> 300 \<and>
      (\<forall>e \<in> set (t_edges m). e_src e \<noteq> e_dst e \<and> {e_src e, e_dst e} \<subseteq> n_domain ` set (t_nodes m) \<and>
        e_w e = int (count_list (cross_links (nodes db)) (e_src e, e_dst e)) \<and> 0 < e_w e) \<and>
      t_total m = int (length (nodes db)) \<and> t_domains m = int (length (t_nodes m))) \<and>
    refreshTreeCache fault os pg_statements pdb = None"
proof -
  let ?ts = "top_nodes (ord_part os) (ord_top os) (nodes db)"
  let ?es = "raw_edges (ord_edge os) (nodes db)"
  let ?m = "\<lparr>t_nodes = ?ts, t_edges = displayed_edges ?ts ?es, t_total = nodeCount db,
      t_domains = int (length ?ts)\<rparr>"
  have ords: "mset (ord_part os xs) = mset xs" "mset (ord_top os xs) = mset xs" "mset (ord_edge os ys) = mset ys"
    for xs ys using assms(1) by (auto simp: orders_ok_def)
  note top = top_nodes_spec [of "ord_part os" "ord_top os" "nodes db", OF ords(1,2)]
  note edges = raw_edges_spec [of "ord_edge os" "nodes db", OF ords(3)]
  let ?xs = "map (domain_top (ord_part os) (nodes db)) (remdups (map n_domain (nodes db)))"
  have "length (ord_top os ?xs) = length ?xs" using ords(2) by (metis size_mset)
  moreover have "length ?xs \<noteq> 0" using assms(2) by (simp add: remdups_eq_nil_iff)
  moreover have "length ?ts = min (length (ord_top os ?xs)) 200"
    unfolding top_nodes_def by (simp only: length_take length_sort)
  ultimately have "length ?ts \<noteq> 0" by linarith
  then have ne: "?ts \<noteq> []" by (simp only: length_0_conv not_False_eq_True)
  have pos: "0 < count_list (cross_links (nodes db)) x" if "x \<in> set (cross_links (nodes db))" for x
    using that by (metis count_list_0_iff neq0_conv)
  have "length (displayed_edges ?ts ?es) \<le> 300"
    using edges length_filter_le le_trans unfolding displayed_edges_def by blast
  moreover have "\<forall>e \<in> set (displayed_edges ?ts ?es). e_src e \<noteq> e_dst e \<and>
      {e_src e, e_dst e} \<subseteq> n_domain ` set ?ts \<and>
      e_w e = int (count_list (cross_links (nodes db)) (e_src e, e_dst e)) \<and> 0 < e_w e"
    using edges pos by (auto simp: displayed_edges_def cross_links_iff)
  moreover have "refreshTreeCache fault os pg_statements pdb = None"
    by (simp add: refreshTreeCache_def pg_statements_def Let_def)
  moreover have "refreshTreeCache fault os sqlite_statements db = Some ?m"
    using ne assms(3) by (simp add: refreshTreeCache_def sqlite_statements_def Let_def)
  moreover have "loadTreeFromDb Sqlite fault os db = Some ?m"
    using ne assms(3) by (simp add: loadTreeFromDb_def Let_def)
  ultimately show ?thesis
    using top by (intro conjI exI [of _ ?m]) (simp_all add: nodeCount_def, metis of_nat_0_less_iff)
qed

definition demo_pages :: sqlite_store where
  "demo_pages = empty_sqlite\<lparr>nodes :=
    [node_of_page (demo_page ''http://a.org/'' ''http://a.org/''),
     node_of_page ((demo_page ''http://b.org/'' ''http://b.org/'')\<lparr>d_dom := ''b.org'', d_parent := Some ''http://a.org/''\<rparr>)]\<rparr>"

lemma tree_picture_witness:
  "\<exists>m. refreshTreeCache (\<lambda>_. False) \<lparr>ord_part = rev, ord_top = id, ord_edge = id\<rparr> sqlite_statements demo_pages = Some m \<and>
    length (t_edges m) \<le> 300 \<and> t_total m = 2"
proof -
  have "orders_ok \<lparr>ord_part = rev, ord_top = id, ord_edge = id\<rparr>" by (simp add: orders_ok_def)
  moreover have "nodes demo_pages \<noteq> []" "length (nodes demo_pages) = 2" by (simp_all add: demo_pages_def)
  ultimately show ?thesis
    using tree_picture [of _ demo_pages "\<lambda>_. False"] by fastforce
qed

end
