(* ===== verification/Container.thy ===== *)
theory Container
  imports Prelude
begin

text \<open>
  src/container.ts: the service container. A factory is code of the caller that may use the
  container and change it: \<open>run f c\<close> gives what the factory \<open>f\<close> returns or throws, and the
  container it leaves. The maps keep their insertion order.
\<close>

record 'f factory_entry =
  fe_factory :: 'f
  fe_singleton :: bool

record ('f, 'v) container =
  singletons :: "(string \<times> 'v) list"
  factories :: "(string \<times> 'f factory_entry) list"

datatype 'e container_error = NotRegistered string | FactoryThrew 'e

type_synonym ('e, 'f, 'v) factory_run = "'f \<Rightarrow> ('f, 'v) container \<Rightarrow> ('e + 'v) \<times> ('f, 'v) container"

definition new_Container :: "('f, 'v) container" where
  "new_Container = \<lparr>singletons = [], factories = []\<rparr>"

text \<open>\<open>register\<close>; \<open>registerClass\<close> is the same with the factory that calls the constructor.\<close>

definition container_register :: "string \<Rightarrow> 'f \<Rightarrow> bool option \<Rightarrow> ('f, 'v) container \<Rightarrow> ('f, 'v) container" where
  "container_register name f single c =
    c\<lparr>factories := AList.update name \<lparr>fe_factory = f, fe_singleton = (single \<noteq> Some False)\<rparr> (factories c)\<rparr>"

definition registerClass ::
  "('c \<Rightarrow> 'f) \<Rightarrow> string \<Rightarrow> 'c \<Rightarrow> bool option \<Rightarrow> ('f, 'v) container \<Rightarrow> ('f, 'v) container" where
  "registerClass construct name cls single c = container_register name (construct cls) single c"

definition registerInstance :: "string \<Rightarrow> 'v \<Rightarrow> ('f, 'v) container \<Rightarrow> ('f, 'v) container" where
  "registerInstance name v c = c\<lparr>singletons := AList.update name v (singletons c)\<rparr>"

definition container_get ::
  "('e, 'f, 'v) factory_run \<Rightarrow> string \<Rightarrow> ('f, 'v) container \<Rightarrow> ('e container_error + 'v) \<times> ('f, 'v) container" where
  "container_get run name c =
    (case map_of (singletons c) name of
       Some v \<Rightarrow> (Inr v, c)
     | None \<Rightarrow>
       (case map_of (factories c) name of
          None \<Rightarrow> (Inl (NotRegistered name), c)
        | Some entry \<Rightarrow>
            (case run (fe_factory entry) c of
               (Inl e, c') \<Rightarrow> (Inl (FactoryThrew e), c')
             | (Inr v, c') \<Rightarrow> (Inr v, if fe_singleton entry then registerInstance name v c' else c'))))"

definition container_has :: "string \<Rightarrow> ('f, 'v) container \<Rightarrow> bool" where
  "container_has name c \<longleftrightarrow> map_of (singletons c) name \<noteq> None \<or> map_of (factories c) name \<noteq> None"

definition container_list :: "('f, 'v) container \<Rightarrow> string list" where
  "container_list c =
    keys (singletons c) @ filter (\<lambda>k. map_of (singletons c) k = None) (keys (factories c))"

text \<open>\<open>clear\<close> with the instances it destroys, in order; \<open>destroyable\<close> have the method.\<close>

definition container_clear :: "('v \<Rightarrow> bool) \<Rightarrow> ('f, 'v) container \<Rightarrow> 'v list \<times> ('f, 'v) container" where
  "container_clear destroyable c =
    (filter destroyable (map snd (singletons c)), c\<lparr>singletons := [], factories := []\<rparr>)"

definition container_ok :: "('f, 'v) container \<Rightarrow> bool" where
  "container_ok c \<longleftrightarrow> distinct (keys (singletons c)) \<and> distinct (keys (factories c))"

lemma container_ok_ops [preserves]:
  "container_ok new_Container"
  "container_ok c \<Longrightarrow> container_ok (container_register name f single c)"
  "container_ok c \<Longrightarrow> container_ok (registerInstance name v c)"
  "container_ok (snd (container_clear destroyable c))"
  by (simp_all add: container_ok_def new_Container_def container_register_def registerInstance_def
      container_clear_def distinct_keys_update del: map_of_update)

lemma has_iff_list: "container_has name c \<longleftrightarrow> name \<in> set (container_list c)"
  by (auto simp: container_has_def container_list_def map_of_eq_None_iff)

text \<open>The container keeps its contract: a service that has been got once as a singleton is that
  instance from then on, and its factory is not run again, whatever factories do to the
  container; a name is unknown exactly when it is not listed; what is listed is listed once;
  and after \<open>clear\<close> nothing is left, each destroyable instance having been destroyed.\<close>

theorem container_contract:
  assumes "container_ok c"
  shows "(fst (container_get run name c) = Inl (NotRegistered name) \<longleftrightarrow> name \<notin> set (container_list c)) \<and>
    distinct (container_list c) \<and>
    (container_get run name c = (Inr v, c') \<and>
        (\<forall>entry. map_of (factories c) name = Some entry \<longrightarrow> fe_singleton entry) \<longrightarrow>
      container_get run' name c' = (Inr v, c')) \<and>
    container_list (snd (container_clear destroyable c)) = [] \<and>
    set (fst (container_clear destroyable c)) = {i. destroyable i \<and> (\<exists>k. map_of (singletons c) k = Some i)}"
proof -
  have unknown: "fst (container_get run name c) = Inl (NotRegistered name) \<longleftrightarrow> name \<notin> set (container_list c)"
    unfolding has_iff_list [symmetric]
    by (auto simp: container_get_def container_has_def split: option.splits sum.splits prod.splits)
  have dist: "distinct (container_list c)"
    using assms by (auto simp: container_list_def container_ok_def map_of_eq_None_iff)
  have again: "container_get run' name c' = (Inr v, c')"
    if "container_get run name c = (Inr v, c')"
      "\<forall>entry. map_of (factories c) name = Some entry \<longrightarrow> fe_singleton entry"
    using that by (auto simp: container_get_def registerInstance_def split: option.splits sum.splits prod.splits)
  have "set (fst (container_clear destroyable c)) = {i. destroyable i \<and> (\<exists>k. map_of (singletons c) k = Some i)}"
  proof -
    have "(\<exists>k. map_of (singletons c) k = Some i) \<longleftrightarrow> i \<in> snd ` set (singletons c)" for i
      using assms by (force simp: container_ok_def)
    then show ?thesis by (auto simp: container_clear_def)
  qed
  with unknown dist again show ?thesis by (simp add: container_clear_def container_list_def)
qed

text \<open>A factory for the demonstration: it registers a second service and returns a number.\<close>

definition demo_run :: "(unit, nat, nat) factory_run" where
  "demo_run f c = (Inr (10 * f), registerInstance ''other'' 1 c)"

lemma container_contract_witness:
  "let c = container_register ''svc'' 4 None new_Container in
   container_get demo_run ''svc'' (snd (container_get demo_run ''svc'' c)) =
     (Inr 40, snd (container_get demo_run ''svc'' c))"
proof -
  let ?c = "container_register ''svc'' 4 None new_Container :: (nat, nat) container"
  have "container_ok ?c" by (simp add: preserves)
  moreover have "container_get demo_run ''svc'' ?c = (Inr 40, snd (container_get demo_run ''svc'' ?c))"
    by (simp add: container_get_def container_register_def new_Container_def demo_run_def)
  moreover have "\<forall>entry. map_of (factories ?c) ''svc'' = Some entry \<longrightarrow> fe_singleton entry"
    by (simp add: container_register_def new_Container_def)
  ultimately show ?thesis
    using container_contract [of ?c demo_run "''svc''" 40 "snd (container_get demo_run ''svc'' ?c)" demo_run]
    by (simp add: Let_def)
qed

end
