(* ===== verification/Migrate.thy ===== *)
theory Migrate
  imports Numbers "HOL-Library.List_Lexorder" "HOL-Library.Char_ord" "HOL-Library.Multiset"
begin

text \<open>
  migrations/migrate.ts: which schema migrations are pending and the run that applies them.
  Of the database only the table \<open>schema_migrations\<close> matters here, as the list of its
  versions (\<open>None\<close> where it does not exist).
\<close>

type_synonym mig_db = "int list option"

definition getAppliedMigrations :: "mig_db \<Rightarrow> int list" where
  "getAppliedMigrations db = (case db of None \<Rightarrow> [] | Some vs \<Rightarrow> sort vs)"

text \<open>\<open>parseInt(f.split("_")[0])\<close>; \<open>NaN\<close> is in no list.\<close>

definition file_version :: "string \<Rightarrow> int option" where
  "file_version f = js_parseInt (hd (js_split CHR ''_'' f))"

definition getPendingMigrations :: "string list \<Rightarrow> int list \<Rightarrow> string list" where
  "getPendingMigrations dir applied =
    filter (\<lambda>f. \<not> (\<exists>v \<in> set applied. file_version f = Some v))
      (sort (filter (\<lambda>f. js_endsWith f ''.sql'') dir))"

text \<open>
  \<open>migrate\<close>: \<open>exec_file f db\<close> is what executing the text of \<open>f\<close> does, \<open>None\<close> if it throws; a throw
  ends the process with code 1. A file is one transaction, and closing the database undoes
  an unfinished one. The result says whether the run completed.
\<close>

fun run_files :: "(string \<Rightarrow> 'd \<Rightarrow> 'd option) \<Rightarrow> string list \<Rightarrow> 'd \<Rightarrow> bool \<times> 'd" where
  "run_files exec_file [] db = (True, db)"
| "run_files exec_file (f # fs) db =
    (case exec_file f db of None \<Rightarrow> (False, db) | Some db' \<Rightarrow> run_files exec_file fs db')"

definition migrate :: "(string \<Rightarrow> mig_db \<Rightarrow> mig_db option) \<Rightarrow> string list \<Rightarrow> mig_db \<Rightarrow> bool \<times> mig_db" where
  "migrate exec_file dir db = run_files exec_file (getPendingMigrations dir (getAppliedMigrations db)) db"

section \<open>The repository's migrations\<close>

text \<open>
  The three SQL files: the first creates \<open>schema_migrations\<close> if it is missing, and each inserts
  its own version, which is the primary key; \<open>fault\<close> is any other failure while the file runs.
\<close>

definition insert_version :: "int \<Rightarrow> mig_db \<Rightarrow> mig_db option" where
  "insert_version v db =
    (case db of None \<Rightarrow> None | Some vs \<Rightarrow> if v \<in> set vs then None else Some (Some (vs @ [v])))"

definition repo_exec :: "(string \<Rightarrow> bool) \<Rightarrow> string \<Rightarrow> mig_db \<Rightarrow> mig_db option" where
  "repo_exec fault f db =
    (if fault f then None
     else if f = ''001_initial_schema.sql'' then insert_version 1 (Some (case db of None \<Rightarrow> [] | Some vs \<Rightarrow> vs))
     else if f = ''002_performance_indexes.sql'' then insert_version 2 db
     else if f = ''003_crawl_audit.sql'' then insert_version 3 db
     else None)"

definition repo_dir :: "string list" where
  "repo_dir = [''001_initial_schema.sql'', ''002_performance_indexes.sql'', ''003_crawl_audit.sql'', ''migrate.ts'']"

lemma repo_versions:
  "file_version ''001_initial_schema.sql'' = Some 1 \<and> file_version ''002_performance_indexes.sql'' = Some 2 \<and>
   file_version ''003_crawl_audit.sql'' = Some 3"
  by code_simp

lemma repo_sql:
  "filter (\<lambda>f. js_endsWith f ''.sql'') repo_dir =
    [''001_initial_schema.sql'', ''002_performance_indexes.sql'', ''003_crawl_audit.sql'']"
  by code_simp

lemma repo_sorted:
  "sort [''001_initial_schema.sql'', ''002_performance_indexes.sql'', ''003_crawl_audit.sql''] =
    [''001_initial_schema.sql'', ''002_performance_indexes.sql'', ''003_crawl_audit.sql'']"
  by (intro sorted_sort_id) (simp add: Cons_le_Cons)

lemma sort_perm: "mset xs = mset ys \<Longrightarrow> sort xs = sort (ys :: string list)"
  by (metis properties_for_sort sort_key_simps(1) mset_sort sorted_sort)

lemma repo_pending:
  assumes "mset dir = mset repo_dir"
  shows "getPendingMigrations dir applied =
    (if 1 \<in> set applied then [] else [''001_initial_schema.sql'']) @
    (if 2 \<in> set applied then [] else [''002_performance_indexes.sql'']) @
    (if 3 \<in> set applied then [] else [''003_crawl_audit.sql''])"
proof -
  have "mset (filter (\<lambda>f. js_endsWith f ''.sql'') dir) = mset (filter (\<lambda>f. js_endsWith f ''.sql'') repo_dir)"
    using assms by (simp add: mset_filter)
  then have "sort (filter (\<lambda>f. js_endsWith f ''.sql'') dir) =
      [''001_initial_schema.sql'', ''002_performance_indexes.sql'', ''003_crawl_audit.sql'']"
    using sort_perm repo_sql repo_sorted by metis
  then show ?thesis using repo_versions by (simp add: getPendingMigrations_def)
qed

text \<open>Migrating is resumable and idempotent: on a new database, in whatever order the directory is
  listed, a run in which files may fail leaves the versions of a prefix of the files, in
  order; a second run without failures completes and leaves exactly the versions 1, 2 and 3;
  and a third changes nothing.\<close>

theorem migrate_resumes:
  fixes fault
  assumes "mset dir = mset repo_dir"
  defines "db1 \<equiv> snd (migrate (repo_exec fault) dir None)"
  shows "db1 \<in> {None, Some [1], Some [1, 2], Some [1, 2, 3]} \<and>
    (fst (migrate (repo_exec fault) dir None) \<longleftrightarrow> db1 = Some [1, 2, 3]) \<and>
    migrate (repo_exec (\<lambda>_. False)) dir db1 = (True, Some [1, 2, 3]) \<and>
    migrate (repo_exec fault) dir (Some [1, 2, 3]) = (True, Some [1, 2, 3])"
  unfolding db1_def migrate_def repo_pending [OF assms(1)]
  by (auto simp: getAppliedMigrations_def repo_exec_def insert_version_def split: option.splits)

lemma migrate_resumes_witness:
  "snd (migrate (repo_exec (\<lambda>f. f = ''003_crawl_audit.sql'')) (rev repo_dir) None) \<in>
    {None, Some [1], Some [1, 2], Some [1, 2, 3]}"
proof -
  have "mset (rev repo_dir) = mset repo_dir" by simp
  from migrate_resumes [OF this, of "\<lambda>f. f = ''003_crawl_audit.sql''"] show ?thesis by (elim conjE)
qed

end
