(* ===== verification/Doubles.thy ===== *)
theory Doubles
  imports Numbers
begin

text \<open>
  Non-negative JavaScript numbers that arise as quotients, and \<open>toFixed\<close>. A double is given by
  a fraction, the pair of numerator and denominator; \<open>double_div\<close> is the division of two
  natural numbers, rounded to 53 significant bits, to even on a tie. Exponents out of range do
  not arise from the counters and sizes that the program divides.
\<close>

type_synonym fraction = "nat \<times> nat"

fun bitlen :: "nat \<Rightarrow> nat" where
  "bitlen n = (if n = 0 then 0 else Suc (bitlen (n div 2)))"

declare bitlen.simps [simp del]

definition round_half_even :: "nat \<Rightarrow> nat \<Rightarrow> nat" where
  "round_half_even a b =
    (let q = a div b; r = a mod b
     in if 2 * r > b \<or> (2 * r = b \<and> odd q) then q + 1 else q)"

text \<open>The quotient of the scaled numbers has 53 or 54 bits; in the second case one bit less is kept.\<close>

definition double_of :: "nat \<Rightarrow> nat \<Rightarrow> fraction" where
  "double_of a b =
    (if a = 0 then (0, 1)
     else
       (let up = 53 + bitlen b - bitlen a; down = bitlen a - (53 + bitlen b);
            q = (a * 2 ^ up) div (b * 2 ^ down)
        in if q < 2 ^ 53 then (round_half_even (a * 2 ^ up) (b * 2 ^ down) * 2 ^ down, 2 ^ up)
           else if up = 0 then (round_half_even a (b * 2 ^ Suc down) * 2 ^ Suc down, 1)
           else (round_half_even (a * 2 ^ (up - 1)) (b * 2 ^ down) * 2 ^ down, 2 ^ (up - 1))))"

definition double_div :: "fraction \<Rightarrow> nat \<Rightarrow> fraction" where
  "double_div x n = double_of (fst x) (snd x * n)"

definition double_mul :: "fraction \<Rightarrow> nat \<Rightarrow> fraction" where
  "double_mul x n = double_of (fst x * n) (snd x)"

text \<open>
  \<open>x.toFixed(f)\<close> below \<open>10 ^ 21\<close>: the nearest multiple of \<open>10 ^ -f\<close>, the larger one on a tie,
  with \<open>f\<close> digits after the point and no point when \<open>f\<close> is 0.
\<close>

definition fixed_num :: "nat \<Rightarrow> fraction \<Rightarrow> nat" where
  "fixed_num f x = (2 * fst x * 10 ^ f + snd x) div (2 * snd x)"

fun low_digits :: "nat \<Rightarrow> nat \<Rightarrow> string" where
  "low_digits 0 n = []"
| "low_digits (Suc f) n = low_digits f (n div 10) @ [char_of (48 + n mod 10)]"

definition js_toFixed :: "nat \<Rightarrow> fraction \<Rightarrow> string" where
  "js_toFixed f x =
    (let n = fixed_num f x
     in js_digits (n div 10 ^ f) @ (if f = 0 then [] else CHR ''.'' # low_digits f n))"

text \<open>An integer in a template literal.\<close>

definition js_int :: "int \<Rightarrow> string" where
  "js_int i = (if i < 0 then CHR ''-'' # js_digits (nat (- i)) else js_digits (nat i))"

section \<open>Reading numbers back\<close>

definition num_char :: "char \<Rightarrow> bool" where
  "num_char c \<longleftrightarrow> is_digit c \<or> c = CHR ''.'' \<or> c = CHR ''-''"

lemma low_digits_spec:
  "list_all is_digit (low_digits f n) \<and> length (low_digits f n) = f \<and>
   digits_value a (low_digits f n) = a * 10 ^ f + int (n mod 10 ^ f)"
proof (induction f arbitrary: n a)
  case (Suc f)
  have d: "is_digit (char_of (48 + n mod 10))" "(of_char (char_of (48 + n mod 10)) :: int) = 48 + int (n mod 10)"
    using is_digit_char [of "n mod 10"] by simp_all
  have "n mod 10 ^ Suc f = n div 10 mod 10 ^ f * 10 + n mod 10"
    by (metis add.commute mod_mult2_eq mult.commute power_Suc)
  then have "int (n mod 10 ^ Suc f) = 10 * int (n div 10 mod 10 ^ f) + int (n mod 10)" by simp
  with Suc [of "n div 10"] d show ?case by (simp add: digits_value_app algebra_simps)
qed (simp add: digits_value_app)

lemma num_chars_digits: "list_all num_char (js_digits n)"
  using js_digits_spec [of n] by (auto simp: num_char_def list_all_iff)

lemma num_chars [simp]:
  "list_all num_char (js_digits n)" "list_all num_char (js_toFixed f x)" "list_all num_char (js_int i)"
proof -
  show "list_all num_char (js_digits n)" by (rule num_chars_digits)
  have "list_all num_char (low_digits f m)" for m
    using low_digits_spec [of f m] by (auto simp: num_char_def list_all_iff)
  then show "list_all num_char (js_toFixed f x)" "list_all num_char (js_int i)"
    using num_chars_digits by (auto simp: js_toFixed_def js_int_def Let_def num_char_def)
qed

lemma num_char_plain: "num_char c \<Longrightarrow> \<not> is_ws c"
  by (auto simp: num_char_def is_digit_def is_ws_def)

lemma js_int_nonempty [simp]: "js_digits n \<noteq> []" "js_int i \<noteq> []" "js_toFixed f x \<noteq> []"
  using js_digits_spec by (auto simp: js_int_def js_toFixed_def Let_def)

text \<open>The printed number is the value to within half a unit of its last digit.\<close>

lemma fixed_num_error:
  assumes "0 < snd x"
  shows "2 * \<bar>int (fixed_num f x) * int (snd x) - int (fst x * 10 ^ f)\<bar> \<le> int (snd x)"
proof -
  let ?a = "2 * fst x * 10 ^ f + snd x" and ?q = "2 * snd x"
  have "int (?a div ?q) * int ?q + int (?a mod ?q) = int ?a"
    by (metis div_mult_mod_eq of_nat_add of_nat_mult)
  moreover have "?a mod ?q < ?q" using assms by (intro mod_less_divisor) simp
  then have "int (?a mod ?q) < int ?q" by (simp only: of_nat_less_iff)
  moreover have "int ?a = 2 * int (fst x * 10 ^ f) + int (snd x)" "int ?q = 2 * int (snd x)" by simp_all
  moreover have "2 * \<bar>d * c - m\<bar> \<le> c" if "d * (2 * c) + r = 2 * m + c" "r < 2 * c" "0 \<le> r" for d c r m :: int
  proof -
    obtain p where p: "d * c = p" by blast
    then have e: "d * (2 * c) = 2 * p" by simp
    show ?thesis using that unfolding p e by arith
  qed
  ultimately show ?thesis unfolding fixed_num_def by (metis of_nat_0_le_iff)
qed

lemma split_digits: "digits_value 0 (js_digits (n div 10 ^ f) @ low_digits f n) = int n"
proof -
  have "digits_value 0 (js_digits (n div 10 ^ f) @ low_digits f n) = int (n div 10 ^ f) * 10 ^ f + int (n mod 10 ^ f)"
    using js_digits_spec [of "n div 10 ^ f"] low_digits_spec [of f n "int (n div 10 ^ f)"]
    by (simp only: digits_value_app)
  also have "\<dots> = int (n div 10 ^ f * 10 ^ f + n mod 10 ^ f)" by simp
  finally show ?thesis by (simp only: div_mult_mod_eq)
qed

end
