(* ===== verification/Elasticsearch.thy ===== *)
theory Elasticsearch
  imports Store Doubles
begin

text \<open>
  src/elasticsearch.ts: documents and identifiers of the search index, and the client's state.
  The server is outside the repository; its index is a map from identifiers to documents, and
  whether a call throws is an argument.
\<close>

section \<open>Identifiers\<close>

text \<open>
  \<open>Buffer.from(url).toString("base64").slice(0, 512)\<close>. URLs are serialised in ASCII, so the
  bytes are the characters.
\<close>

definition b64_digit :: "nat \<Rightarrow> char" where
  "b64_digit d = char_of (if d < 26 then 65 + d else if d < 52 then 71 + d else if d < 62 then d - 4
     else if d = 62 then 43 else 47)"

fun b64 :: "nat list \<Rightarrow> string" where
  "b64 [] = []"
| "b64 [a] = [b64_digit (a div 4), b64_digit (a mod 4 * 16), CHR ''='', CHR ''='']"
| "b64 [a, b] = [b64_digit (a div 4), b64_digit (a mod 4 * 16 + b div 16), b64_digit (b mod 16 * 4), CHR ''='']"
| "b64 (a # b # c # s) = b64_digit (a div 4) # b64_digit (a mod 4 * 16 + b div 16) #
     b64_digit (b mod 16 * 4 + c div 64) # b64_digit (c mod 64) # b64 s"

definition base64 :: "string \<Rightarrow> string" where
  "base64 s = b64 (map of_char s)"

definition es_id :: "url \<Rightarrow> string" where
  "es_id u = take 512 (base64 u)"

text \<open>The decoder, to state that nothing is lost.\<close>

definition b64_value :: "char \<Rightarrow> nat" where
  "b64_value c = (let n = of_char c in if 65 \<le> n \<and> n \<le> 90 then n - 65 else if 97 \<le> n \<and> n \<le> 122 then n - 71
     else if 48 \<le> n \<and> n \<le> 57 then n + 4 else if n = 43 then 62 else 63)"

fun unb64 :: "string \<Rightarrow> nat list" where
  "unb64 (p # q # r # t # s) =
    (b64_value p * 4 + b64_value q div 16) #
    (if r = CHR ''='' then [] else
     (b64_value q mod 16 * 16 + b64_value r div 4) #
     (if t = CHR ''='' then [] else (b64_value r mod 4 * 64 + b64_value t) # unb64 s))"
| "unb64 _ = []"

lemma b64_digit_value:
  assumes "d < 64" shows "b64_value (b64_digit d) = d \<and> b64_digit d \<noteq> CHR ''=''"
proof -
  let ?n = "if d < 26 then 65 + d else if d < 52 then 71 + d else if d < 62 then d - 4
     else if d = 62 then 43 else 47"
  have "?n < 256" using assms by (simp split: if_splits) linarith
  then have n: "of_char (b64_digit d) = ?n" unfolding b64_digit_def by (simp only: of_char_of mod_less)
  have "b64_value (b64_digit d) = d" unfolding b64_value_def Let_def n using assms by (simp split: if_splits) linarith
  moreover have "b64_digit d \<noteq> CHR ''=''"
  proof
    assume "b64_digit d = CHR ''=''"
    then have "?n = 61" using n by simp
    then show False using assms by (simp split: if_splits)
  qed
  ultimately show ?thesis by blast
qed

lemma byte_parts:
  assumes "a < 256" "b < 256" "c < (256 :: nat)"
  shows "a div 4 < 64" "a mod 4 * 16 < 64" "a mod 4 * 16 + b div 16 < 64" "b mod 16 * 4 < 64"
    "b mod 16 * 4 + c div 64 < 64" "c mod 64 < 64" "b div 16 mod 16 = b div 16"
    "c div 64 mod 4 = c div 64" "b div 16 div 16 = 0" "c div 64 div 4 = 0"
proof -
  have h: "b div 16 < 16" "c div 64 < 4" and "a mod 4 < 4" and "b mod 16 < 16"
    using assms by (simp_all add: less_mult_imp_div_less)
  then show "a mod 4 * 16 < 64" "a mod 4 * 16 + b div 16 < 64" "b mod 16 * 4 < 64"
    "b mod 16 * 4 + c div 64 < 64" by linarith+
  show "b div 16 mod 16 = b div 16" "c div 64 mod 4 = c div 64" "b div 16 div 16 = 0" "c div 64 div 4 = 0"
    using h by (simp_all only: mod_less div_less)
qed (use assms in \<open>simp_all add: less_mult_imp_div_less\<close>)

lemma unb64_b64: "\<forall>a \<in> set s. a < 256 \<Longrightarrow> unb64 (b64 s) = s"
proof (induction s rule: b64.induct)
  case (2 a)
  then show ?case using byte_parts [of a 0 0] by (simp add: b64_digit_value)
next
  case (3 a b)
  then show ?case using byte_parts [of a b 0] by (simp add: b64_digit_value)
next
  case (4 a b c s)
  then show ?case using byte_parts [of a b c] by (simp add: b64_digit_value)
qed simp

lemma b64_length: "length (b64 s) = 4 * ((length s + 2) div 3)"
  by (induction s rule: b64.induct) (simp_all, presburger)

lemma b64_append: "length s mod 3 = 0 \<Longrightarrow> b64 (s @ t) = b64 s @ b64 t"
proof (induction s rule: b64.induct)
  case (4 a b c s)
  then have "length s mod 3 = 0" by (simp add: mod_Suc split: if_splits)
  with 4 show ?case by simp
qed simp_all

lemma es_id_prefix: "es_id u = base64 (take 384 u)"
proof (cases "length u \<le> 384")
  case True
  then have "length (base64 u) \<le> 512" by (simp add: base64_def b64_length)
  with True show ?thesis by (simp add: es_id_def)
next
  case False
  let ?n = "map of_char u :: nat list"
  have len: "length (take 384 ?n) = 384" using False by simp
  then have "length (b64 (take 384 ?n)) = 512" by (simp only: b64_length) simp
  moreover have "b64 (take 384 ?n @ drop 384 ?n) = b64 (take 384 ?n) @ b64 (drop 384 ?n)"
    by (rule b64_append) (simp only: len, simp)
  ultimately have "take 512 (b64 ?n) = b64 (take 384 ?n)" by simp
  then show ?thesis by (simp add: es_id_def base64_def take_map)
qed

lemma es_id_decode: "map char_of (unb64 (es_id u)) = take 384 u"
  unfolding es_id_prefix base64_def by (subst unb64_b64) (auto simp: comp_def)

lemma es_id_inj: "es_id u = es_id v \<longleftrightarrow> take 384 u = take 384 v"
  by (metis es_id_decode es_id_prefix)

text \<open>Document identifiers keep the first 384 characters of the URL and nothing else: decoding an
  identifier gives them back, so that two pages share one identifier exactly when their URLs
  agree on the first 384 characters.\<close>

theorem es_id_roundtrip:
  "map char_of (unb64 (es_id u)) = take 384 u \<and> (es_id u = es_id v \<longleftrightarrow> take 384 u = take 384 v)"
  by (simp add: es_id_decode es_id_inj)

section \<open>The client\<close>

record es_document =
  es_url :: url
  es_title :: string
  es_metaDescription :: string
  es_ogTitle :: string
  es_ogDescription :: string
  es_domain :: domain
  es_content :: string
  es_lang :: string
  es_https :: bool
  es_popularity :: int
  es_depth :: int
  es_timestamp :: time_ms

definition es_document_of :: "time_ms \<Rightarrow> PageData \<Rightarrow> es_document" where
  "es_document_of now d =
    \<lparr> es_url = d_url d, es_title = d_title d,
      es_metaDescription = or_str (Some (d_desc d)) (or_str (Some (d_meta d)) []),
      es_ogTitle = d_ogt d, es_ogDescription = d_ogd d, es_domain = d_dom d, es_content = [],
      es_lang = d_lang d, es_https = (d_https d = 1), es_popularity = d_pop d, es_depth = d_depth d,
      es_timestamp = or_num (Some (d_ts d)) now \<rparr>"

text \<open>\<open>client\<close> and \<open>connected\<close> of the module, and the documents of the index at the server.\<close>

record es_state =
  es_client :: bool
  es_isConnected :: bool
  es_docs :: "string \<rightharpoonup> es_document"

definition getEsClient :: "bool \<Rightarrow> es_state \<Rightarrow> bool \<times> es_state" where
  "getEsClient can_create s =
    (if es_client s then (True, s) else if can_create then (True, s\<lparr>es_client := True\<rparr>) else (False, s))"

definition connectElasticsearch :: "bool \<Rightarrow> bool \<Rightarrow> es_state \<Rightarrow> bool \<times> es_state" where
  "connectElasticsearch can_create ping_ok s =
    (case getEsClient can_create s of
       (False, s') \<Rightarrow> (False, s')
     | (True, s') \<Rightarrow> (ping_ok, s'\<lparr>es_isConnected := ping_ok\<rparr>))"

definition indexPage :: "bool \<Rightarrow> bool \<Rightarrow> time_ms \<Rightarrow> PageData \<Rightarrow> es_state \<Rightarrow> bool \<times> es_state" where
  "indexPage can_create call_ok now d s =
    (case getEsClient can_create s of
       (c, s') \<Rightarrow>
         if \<not> c \<or> \<not> es_isConnected s' then (False, s')
         else if \<not> call_ok then (False, s')
         else (True, s'\<lparr>es_docs := (es_docs s')(es_id (d_url d) \<mapsto> es_document_of now d)\<rparr>))"

text \<open>A bulk request indexes the pages whose action succeeds, in order, and reports an error if any failed.\<close>

definition bulkIndexPages ::
  "bool \<Rightarrow> bool \<Rightarrow> (PageData \<Rightarrow> bool) \<Rightarrow> time_ms \<Rightarrow> PageData list \<Rightarrow> es_state \<Rightarrow> bool \<times> es_state" where
  "bulkIndexPages can_create call_ok item_ok now ds s =
    (case getEsClient can_create s of
       (c, s') \<Rightarrow>
         if \<not> c \<or> \<not> es_isConnected s' \<or> ds = [] then (False, s')
         else if \<not> call_ok then (False, s')
         else (list_all item_ok ds,
               s'\<lparr>es_docs := fold (\<lambda>d m. m(es_id (d_url d) \<mapsto> es_document_of now d)) (filter item_ok ds) (es_docs s')\<rparr>))"

text \<open>
  A search: the request that is sent, and what is kept of a hit. \<open>engine\<close> is the server: the
  documents of the index that match, with their scores, or \<open>None\<close> when the call throws.
\<close>

record es_request =
  rq_index :: string
  rq_size :: nat
  rq_query :: string
  rq_fields :: "(string \<times> nat) list"
  rq_type :: string
  rq_fuzziness :: string
  rq_highlight :: "(string \<times> nat) list"
  rq_source :: "string list"

definition es_request_of :: "string \<Rightarrow> string \<Rightarrow> nat \<Rightarrow> es_request" where
  "es_request_of index query limit =
    \<lparr>rq_index = index, rq_size = limit, rq_query = query,
     rq_fields = [(''title'', 3), (''metaDescription'', 2), (''ogTitle'', 2), (''ogDescription'', 1), (''content'', 1)],
     rq_type = ''best_fields'', rq_fuzziness = ''AUTO'',
     rq_highlight = [(''title'', 1), (''metaDescription'', 1)],
     rq_source = [''url'', ''title'', ''metaDescription'', ''ogTitle'', ''ogDescription'', ''domain'', ''popularity'']\<rparr>"

record 'score es_result =
  rs_url :: url
  rs_title :: string
  rs_metaDescription :: string
  rs_ogTitle :: string
  rs_ogDescription :: string
  rs_domain :: domain
  rs_rank :: 'score
  rs_popularity :: int

definition es_result_of :: "es_document \<times> 'score \<Rightarrow> 'score es_result" where
  "es_result_of = (\<lambda>(d, score).
    \<lparr>rs_url = es_url d, rs_title = es_title d, rs_metaDescription = es_metaDescription d,
     rs_ogTitle = es_ogTitle d, rs_ogDescription = es_ogDescription d, rs_domain = es_domain d,
     rs_rank = score, rs_popularity = es_popularity d\<rparr>)"

type_synonym 'score es_engine = "es_request \<Rightarrow> (string \<rightharpoonup> es_document) \<Rightarrow> (es_document \<times> 'score) list option"

definition searchPages ::
  "string \<Rightarrow> bool \<Rightarrow> 'score es_engine \<Rightarrow> string \<Rightarrow> nat \<Rightarrow> es_state \<Rightarrow> 'score es_result list option \<times> es_state" where
  "searchPages index can_create engine query limit s =
    (case getEsClient can_create s of
       (c, s') \<Rightarrow>
         if \<not> c \<or> \<not> es_isConnected s' then (None, s')
         else (map_option (map es_result_of) (engine (es_request_of index query limit) (es_docs s')), s'))"

definition closeEs :: "es_state \<Rightarrow> es_state" where
  "closeEs s = (if es_client s then s\<lparr>es_client := False, es_isConnected := False\<rparr> else s)"

text \<open>The index that is created: its settings, and per field the type and the analyzer.\<close>

record es_index =
  number_of_shards :: nat
  number_of_replicas :: nat
  default_analyzer :: string
  mappings :: "(string \<times> string \<times> string option) list"

definition es_new_index :: es_index where
  "es_new_index = \<lparr>number_of_shards = 1, number_of_replicas = 0, default_analyzer = ''standard'',
     mappings = [(''url'', ''keyword'', None), (''title'', ''text'', Some ''standard''),
       (''metaDescription'', ''text'', Some ''standard''), (''ogTitle'', ''text'', Some ''standard''),
       (''ogDescription'', ''text'', Some ''standard''), (''domain'', ''keyword'', None),
       (''content'', ''text'', Some ''standard''), (''lang'', ''keyword'', None), (''https'', ''boolean'', None),
       (''popularity'', ''integer'', None), (''depth'', ''integer'', None), (''timestamp'', ''date'', None)]\<rparr>"

text \<open>\<open>initEsIndex\<close>: \<open>index\<close> is the index at the server, if there is one.\<close>

definition initEsIndex :: "bool \<Rightarrow> bool \<Rightarrow> bool \<Rightarrow> es_state \<times> es_index option \<Rightarrow> bool \<times> es_state \<times> es_index option" where
  "initEsIndex can_create exists_fails create_fails = (\<lambda>(s, index).
    (case getEsClient can_create s of
       (c, s') \<Rightarrow>
         if \<not> c \<or> \<not> es_isConnected s' then (False, s', index)
         else if exists_fails then (False, s', index)
         else if index \<noteq> None then (True, s', index)
         else if create_fails then (False, s', index)
         else (True, s', Some es_new_index)))"

record es_stats =
  st_docCount :: int
  st_sizeMB :: string
  st_connected :: bool

text \<open>
  The reply has the number of documents and the size in bytes, absent or 0 alike; no reply is
  a call that throws. A size is divided by a power of two, which a double does exactly.
\<close>

definition es_getStats :: "bool \<Rightarrow> (int option \<times> int option) option \<Rightarrow> es_state \<Rightarrow> es_stats option \<times> es_state" where
  "es_getStats can_create reply s =
    (case getEsClient can_create s of
       (c, s') \<Rightarrow>
         if \<not> c \<or> \<not> es_isConnected s' then (None, s')
         else (Some (case reply of
             None \<Rightarrow> \<lparr>st_docCount = 0, st_sizeMB = ''0'', st_connected = False\<rparr>
           | Some (docs, bytes) \<Rightarrow> \<lparr>st_docCount = or_num docs 0,
               st_sizeMB = js_toFixed 1 (nat (or_num bytes 0), 1048576), st_connected = es_isConnected s'\<rparr>), s'))"

text \<open>Indexing page by page and in bulk agree: when all calls succeed, one bulk request leaves the
  same documents as the single requests in order; a page is found under its identifier with
  its own data, unless a later page of the batch has a URL that begins with the same 384
  characters.\<close>

theorem bulk_is_single:
  assumes "es_client s" and "es_isConnected s" and "ds \<noteq> []"
  shows "bulkIndexPages cc True (\<lambda>_. True) now ds s = (True, fold (\<lambda>d s. snd (indexPage cc True now d s)) ds s) \<and>
    (\<forall>pre d post. ds = pre @ d # post \<and> (\<forall>e \<in> set post. take 384 (d_url e) \<noteq> take 384 (d_url d)) \<longrightarrow>
      es_docs (snd (bulkIndexPages cc True (\<lambda>_. True) now ds s)) (es_id (d_url d)) = Some (es_document_of now d))"
proof -
  have single: "fold (\<lambda>d s. snd (indexPage cc True now d s)) ds s =
      s\<lparr>es_docs := fold (\<lambda>d m. m(es_id (d_url d) \<mapsto> es_document_of now d)) ds (es_docs s)\<rparr>"
    if "es_client s" "es_isConnected s" for ds s
    using that by (induction ds arbitrary: s) (simp_all add: indexPage_def getEsClient_def)
  have later: "\<forall>e \<in> set post. es_id (d_url e) \<noteq> k \<Longrightarrow>
      fold (\<lambda>d m. m(es_id (d_url d) \<mapsto> es_document_of now d)) post m k = m k" for post k m
    by (induction post arbitrary: m) auto
  have "es_id u \<noteq> es_id v" if "take 384 u \<noteq> take 384 v" for u v
    using that es_id_inj by blast
  then show ?thesis
    using assms single [OF assms(1,2)] later
    by (auto simp: bulkIndexPages_def getEsClient_def list_all_iff)
qed

definition demo_doc :: "url \<Rightarrow> PageData" where
  "demo_doc u = \<lparr> d_url = u, d_title = ''T'', d_desc = [], d_dom = ''a.org'', d_depth = 0, d_parent = None,
     d_pop = 1, d_lang = ''en'', d_https = 1, d_meta = ''M'', d_ogt = [], d_ogd = [], d_clen = 10, d_ts = 5,
     d_origUrl = u \<rparr>"

lemma bulk_is_single_witness:
  "es_docs (snd (bulkIndexPages True True (\<lambda>_. True) 9 [demo_doc ''http://a/'', demo_doc ''http://b/'']
     \<lparr>es_client = True, es_isConnected = True, es_docs = Map.empty\<rparr>)) (es_id ''http://a/'') =
   Some (es_document_of 9 (demo_doc ''http://a/''))"
proof -
  let ?s = "\<lparr>es_client = True, es_isConnected = True, es_docs = Map.empty\<rparr>"
  let ?ds = "[demo_doc ''http://a/'', demo_doc ''http://b/'']"
  have "es_client ?s" "es_isConnected ?s" "?ds \<noteq> []" by simp_all
  from bulk_is_single [OF this, of True 9, THEN conjunct2, THEN spec [of _ "[]"],
      THEN spec [of _ "demo_doc ''http://a/''"], THEN spec [of _ "[demo_doc ''http://b/'']"]]
  show ?thesis by (simp add: demo_doc_def)
qed

end
