(* ===== verification/Metrics.thy ===== *)
theory Metrics
  imports HttpApi Doubles
begin

text \<open>
  src/metrics.ts: the text in Prometheus' exposition format that \<open>/metrics\<close> sends. Counters are
  never negative. The load average is an argument, a fraction, as are the sizes of memory.
\<close>

section \<open>The text\<close>

record process_env =
  startTime :: time_ms
  load1 :: fraction
  cpu_count :: nat
  mem_rss :: nat
  mem_heapUsed :: nat

text \<open>\<open>x / n\<close> with no processors is not a number, or infinite.\<close>

definition cpu_usage :: "process_env \<Rightarrow> string" where
  "cpu_usage p =
    (if cpu_count p = 0 then (if fst (load1 p) = 0 then ''NaN'' else ''Infinity'')
     else js_toFixed 4 (double_div (load1 p) (cpu_count p)))"

definition metric_rate :: "int \<Rightarrow> cached_stats \<Rightarrow> string" where
  "metric_rate uptimeSec c =
    (if uptimeSec > 0 then js_toFixed 4 (double_of (nat (cachedSuccess c)) (nat uptimeSec)) else ''0'')"

definition metric_errPct :: "cached_stats \<Rightarrow> string" where
  "metric_errPct c =
    (let total = cachedSuccess c + cachedFail c
     in if total > 0 then js_toFixed 2 (double_mul (double_of (nat (cachedFail c)) (nat total)) 100) else ''0'')"

definition metric_avgLatency :: "cached_stats \<Rightarrow> string" where
  "metric_avgLatency c =
    (if cachedSuccess c > 0
     then js_toFixed 0 (double_of (nat (cachedTotalFetchTime c)) (nat (cachedSuccess c))) else ''0'')"

text \<open>Name, description, type and value of one metric, and its three lines.\<close>

type_synonym metric = "string \<times> string \<times> string \<times> string"

definition metric_lines :: "metric \<Rightarrow> string list" where
  "metric_lines = (\<lambda>(name, descr, kind, val).
    [''# HELP '' @ name @ '' '' @ descr, ''# TYPE '' @ name @ '' '' @ kind, name @ '' '' @ val])"

definition crawl_metrics :: "time_ms \<Rightarrow> process_env \<Rightarrow> cached_stats \<Rightarrow> metric list" where
  "crawl_metrics now p c =
    (let uptimeSec = (now - startTime p) div 1000 in
     [(''webindexer_nodes_total'', ''Total indexed nodes'', ''gauge'', js_int (cachedNodeCount c)),
      (''webindexer_frontier_total'', ''URLs in frontier'', ''gauge'', js_int (cachedFrontierCount c)),
      (''webindexer_success_total'', ''Total successful fetches'', ''counter'', js_int (cachedSuccess c)),
      (''webindexer_fail_total'', ''Total failed fetches'', ''counter'', js_int (cachedFail c)),
      (''webindexer_error_rate_pct'', ''Error rate percentage'', ''gauge'', metric_errPct c),
      (''webindexer_domains_total'', ''Total unique domains checked'', ''gauge'', js_int (cachedDomainsChecked c)),
      (''webindexer_domains_blacklisted'', ''Auto-blacklisted domains'', ''gauge'', js_int (cachedDomainsBlacklisted c)),
      (''webindexer_pages_per_second'', ''Crawl throughput'', ''gauge'', metric_rate uptimeSec c),
      (''webindexer_avg_fetch_latency_ms'', ''Average fetch latency'', ''gauge'', metric_avgLatency c),
      (''webindexer_concurrency'', ''Current concurrent fetches'', ''gauge'', js_int (cachedConcurrency c)),
      (''webindexer_uptime_seconds'', ''Uptime in seconds'', ''gauge'', js_int uptimeSec),
      (''webindexer_cpu_load'', ''Average CPU load'', ''gauge'', cpu_usage p),
      (''webindexer_memory_rss_bytes'', ''Resident set size in bytes'', ''gauge'', js_digits (mem_rss p)),
      (''webindexer_memory_heap_used_bytes'', ''Heap used in bytes'', ''gauge'', js_digits (mem_heapUsed p))])"

definition stateVal :: "State \<Rightarrow> int" where
  "stateVal s = (if s = CLOSED then 0 else if s = OPEN then 1 else 2)"

definition breaker_metrics :: "CircuitBreakerStatus \<Rightarrow> metric list" where
  "breaker_metrics b =
    [(''webindexer_circuit_'' @ s_name b @ ''_state'', ''Circuit breaker state (0=closed,1=open,2=half)'', ''gauge'',
        js_int (stateVal (s_state b))),
     (''webindexer_circuit_'' @ s_name b @ ''_failures'', ''Circuit breaker failure count'', ''gauge'',
        js_int (s_failureCount b))]"

text \<open>An empty line separates the metrics of the crawl, and precedes the pair of each breaker.\<close>

fun separated :: "string list list \<Rightarrow> string list" where
  "separated [] = []"
| "separated [b] = b"
| "separated (b # bs) = b @ [] # separated bs"

definition join_lines :: "string list \<Rightarrow> string" where
  "join_lines ls = (case ls of [] \<Rightarrow> [] | l # ls \<Rightarrow> l @ concat (map (\<lambda>l. CHR 0x0A # l) ls))"

definition getMetrics :: "time_ms \<Rightarrow> process_env \<Rightarrow> cached_stats \<Rightarrow> registry \<Rightarrow> string \<times> registry" where
  "getMetrics now p c reg =
    (case getAllBreakers now reg of (breakers, reg') \<Rightarrow>
      (join_lines (separated (map metric_lines (crawl_metrics now p c)) @
         concat (map (\<lambda>b. [] # concat (map metric_lines (breaker_metrics b))) breakers)), reg'))"

section \<open>The reader\<close>

text \<open>
  What a scraper of the format makes of a text: lines, without the empty ones and those that
  begin with a hash, each split at its first space.
\<close>

fun split_space :: "string \<Rightarrow> string \<times> string" where
  "split_space [] = ([], [])"
| "split_space (c # cs) = (if c = CHR '' '' then ([], cs) else (c # fst (split_space cs), snd (split_space cs)))"

definition is_sample :: "string \<Rightarrow> bool" where
  "is_sample l \<longleftrightarrow> l \<noteq> [] \<and> hd l \<noteq> CHR ''#''"

definition scrape :: "string \<Rightarrow> (string \<times> string) list" where
  "scrape t = map split_space (filter is_sample (js_split CHR 0x0A t))"

definition sample_of :: "metric \<Rightarrow> string \<times> string" where
  "sample_of = (\<lambda>(name, _, _, val). (name, val))"

text \<open>The names that the format allows.\<close>

definition name_char :: "char \<Rightarrow> bool" where
  "name_char c \<longleftrightarrow> is_digit c \<or> c = CHR ''_'' \<or>
    65 \<le> (of_char c :: nat) \<and> (of_char c :: nat) \<le> 90 \<or> 97 \<le> (of_char c :: nat) \<and> (of_char c :: nat) \<le> 122"

definition metric_ok :: "metric \<Rightarrow> bool" where
  "metric_ok = (\<lambda>(name, descr, kind, val).
    name \<noteq> [] \<and> list_all name_char name \<and> CHR 0x0A \<notin> set descr \<and> CHR 0x0A \<notin> set kind \<and> CHR 0x0A \<notin> set val)"

lemma name_char_facts: "name_char c \<Longrightarrow> c \<noteq> CHR '' '' \<and> c \<noteq> CHR ''#'' \<and> c \<noteq> CHR 0x0A"
  by (auto simp: name_char_def is_digit_def)

lemma split_join: "ls \<noteq> [] \<Longrightarrow> \<forall>l \<in> set ls. CHR 0x0A \<notin> set l \<Longrightarrow> js_split CHR 0x0A (join_lines ls) = ls"
proof (induction ls)
  case (Cons l ls)
  show ?case
  proof (cases ls)
    case Nil
    then show ?thesis using Cons.prems by (simp add: join_lines_def js_split_no_sep)
  next
    case (Cons m ms)
    then have "join_lines (l # ls) = l @ CHR 0x0A # join_lines ls" by (simp add: join_lines_def)
    then show ?thesis using Cons Cons.IH Cons.prems by (simp add: js_split_app)
  qed
qed simp

lemma split_space_app: "CHR '' '' \<notin> set n \<Longrightarrow> split_space (n @ CHR '' '' # v) = (n, v)"
  by (induction n) auto

lemma metric_samples:
  assumes "metric_ok m"
  shows "map split_space (filter is_sample (metric_lines m)) = [sample_of m]"
    and "\<forall>l \<in> set (metric_lines m). CHR 0x0A \<notin> set l"
proof -
  obtain name descr kind val where m: "m = (name, descr, kind, val)" by (cases m)
  with assms have name: "name \<noteq> []" "\<forall>c \<in> set name. name_char c"
    by (auto simp: metric_ok_def list_all_iff)
  then have "CHR '' '' \<notin> set name" "CHR 0x0A \<notin> set name" "hd name \<noteq> CHR ''#''"
    using name_char_facts by (blast, blast, metis hd_in_set)
  then show "map split_space (filter is_sample (metric_lines m)) = [sample_of m]"
    "\<forall>l \<in> set (metric_lines m). CHR 0x0A \<notin> set l"
    using name(1) assms by (auto simp: m metric_lines_def is_sample_def sample_of_def split_space_app metric_ok_def)
qed

lemma separated_samples:
  "map split_space (filter is_sample (separated (map metric_lines ms))) =
   map split_space (filter is_sample (concat (map metric_lines ms)))"
  by (induction ms rule: induct_list012) (auto simp: is_sample_def)

lemma separated_plain:
  "\<forall>m \<in> set ms. metric_ok m \<Longrightarrow> \<forall>l \<in> set (separated (map metric_lines ms)). CHR 0x0A \<notin> set l"
proof (induction ms rule: induct_list012)
  case (2 m)
  then show ?case using metric_samples(2) [of m] by simp
next
  case (3 m n ms)
  then show ?case using metric_samples(2) [of m] by (simp add: ball_Un)
qed simp

lemma breaker_lines_plain:
  "\<forall>b \<in> set bs. \<forall>m \<in> set (breaker_metrics b). metric_ok m \<Longrightarrow>
    \<forall>l \<in> set (concat (map (\<lambda>b. [] # concat (map metric_lines (breaker_metrics b))) bs)). CHR 0x0A \<notin> set l"
  using metric_samples(2) by (induction bs) (simp, simp add: ball_Un, blast)

lemma concat_samples:
  "\<forall>m \<in> set ms. metric_ok m \<Longrightarrow>
    map split_space (filter is_sample (concat (map metric_lines ms))) = map sample_of ms"
  by (induction ms) (simp_all add: metric_samples)

section \<open>Reading the text back\<close>

lemma number_line: "list_all num_char v \<Longrightarrow> CHR 0x0A \<notin> set v"
  using num_char_plain no_newline by (auto simp: list_all_iff)

lemma values_ok [simp]:
  "CHR 0x0A \<notin> set (js_int i)" "CHR 0x0A \<notin> set (js_digits n)" "CHR 0x0A \<notin> set (js_toFixed f x)"
  by (simp_all add: number_line)

lemma crawl_values_ok [simp]:
  "CHR 0x0A \<notin> set (cpu_usage p)" "CHR 0x0A \<notin> set (metric_rate u c)" "CHR 0x0A \<notin> set (metric_errPct c)"
  "CHR 0x0A \<notin> set (metric_avgLatency c)"
  by (simp_all add: cpu_usage_def metric_rate_def metric_errPct_def metric_avgLatency_def Let_def)

lemma crawl_metrics_ok: "\<forall>m \<in> set (crawl_metrics now p c). metric_ok m"
  unfolding crawl_metrics_def Let_def
  by (simp add: metric_ok_def name_char_def is_digit_def)

lemma breaker_metrics_ok:
  assumes "list_all name_char (s_name b)"
  shows "\<forall>m \<in> set (breaker_metrics b). metric_ok m"
  using assms by (simp add: breaker_metrics_def metric_ok_def name_char_def is_digit_def)

definition crawl_names :: "string list" where
  "crawl_names = [''webindexer_nodes_total'', ''webindexer_frontier_total'', ''webindexer_success_total'',
     ''webindexer_fail_total'', ''webindexer_error_rate_pct'', ''webindexer_domains_total'',
     ''webindexer_domains_blacklisted'', ''webindexer_pages_per_second'', ''webindexer_avg_fetch_latency_ms'',
     ''webindexer_concurrency'', ''webindexer_uptime_seconds'', ''webindexer_cpu_load'',
     ''webindexer_memory_rss_bytes'', ''webindexer_memory_heap_used_bytes'']"

lemma crawl_names: "map fst (map sample_of (crawl_metrics now p c)) = crawl_names"
  by (simp add: crawl_metrics_def sample_of_def crawl_names_def Let_def)

lemma crawl_names_distinct: "distinct crawl_names" "\<forall>n \<in> set crawl_names. \<not> js_startsWith n ''webindexer_circuit_''"
  by (simp_all add: crawl_names_def)

lemma breaker_names:
  "map (fst \<circ> sample_of) (breaker_metrics b) =
    [''webindexer_circuit_'' @ s_name b @ ''_state'', ''webindexer_circuit_'' @ s_name b @ ''_failures'']"
  by (simp add: breaker_metrics_def sample_of_def)

lemma suffix_clash: "n @ ''_state'' \<noteq> m @ ''_failures''"
proof
  assume "n @ ''_state'' = m @ ''_failures''"
  then have "last (n @ ''_state'') = last (m @ ''_failures'')" by (rule arg_cong)
  then show False by simp
qed

lemma breaker_lines_samples:
  "\<forall>b \<in> set bs. \<forall>m \<in> set (breaker_metrics b). metric_ok m \<Longrightarrow>
    map split_space (filter is_sample (concat (map (\<lambda>b. [] # concat (map metric_lines (breaker_metrics b))) bs))) =
    map sample_of (concat (map breaker_metrics bs))"
proof (induction bs)
  case (Cons b bs)
  then have "\<forall>m \<in> set (breaker_metrics b). metric_ok m" by simp
  from concat_samples [OF this] Cons show ?case by (simp add: is_sample_def [of "[]"])
qed simp

lemma breakers_distinct:
  "distinct (map s_name bs) \<Longrightarrow>
    distinct (concat (map (\<lambda>b. map (fst \<circ> sample_of) (breaker_metrics b)) bs))"
  unfolding breaker_names by (induction bs) (auto simp: suffix_clash suffix_clash [symmetric])


definition demo_process :: process_env where
  "demo_process = \<lparr>startTime = 0, load1 = (1, 2), cpu_count = 4, mem_rss = 900, mem_heapUsed = 800\<rparr>"

definition demo_stats_msg :: stats_msg where
  "demo_stats_msg = \<lparr>m_total = Some 7, m_frontier = None, m_success = Some 3, m_fail = Some 1, m_uptime = None,
     m_domainsChecked = None, m_rate = None, m_domainsBlacklisted = None, m_totalFetchTime = None,
     m_concurrency = None, m_domains = None\<rparr>"


end
