(* ===== verification/Routes.thy ===== *)
theory Routes
  imports Metrics Tree Kafka RedisState Elasticsearch
begin

text \<open>
  The rest of server.ts: the backends it connects at its start and what readiness makes of
  them, the routes that send pages and the tree, plain or compressed, and the small JSON
  routes. Compression (Node's zlib) is an argument.
\<close>

section \<open>Backends\<close>

record backend_flags =
  REDIS_ENABLED :: bool
  KAFKA_ENABLED :: bool
  ES_ENABLED :: bool

text \<open>How the connection attempts end.\<close>

record init_env =
  redis_resolves :: bool
  redis_status :: string
  kafka_outcome :: connect_outcome
  es_can_create :: bool
  es_ping_ok :: bool
  es_exists_fails :: bool
  es_create_fails :: bool

record backends =
  bk_redis :: redis_client
  bk_kafka :: kafka_client
  bk_es :: es_state
  bk_index :: "es_index option"

definition no_backends :: "es_index option \<Rightarrow> backends" where
  "no_backends index = \<lparr>bk_redis = None, bk_kafka = \<lparr>producer = False, consumer = False\<rparr>,
     bk_es = \<lparr>es_client = False, es_isConnected = False, es_docs = Map.empty\<rparr>, bk_index = index\<rparr>"

definition initBackends :: "backend_flags \<Rightarrow> init_env \<Rightarrow> backends \<Rightarrow> backends" where
  "initBackends f e b =
    (let b = (if REDIS_ENABLED f
              then b\<lparr>bk_redis := snd (connectRedis (redis_resolves e) (redis_status e) (bk_redis b))\<rparr> else b);
         b = (if KAFKA_ENABLED f
              then b\<lparr>bk_kafka := snd (connectProducer (kafka_outcome e) (bk_kafka b))\<rparr> else b)
     in if ES_ENABLED f then
          (case connectElasticsearch (es_can_create e) (es_ping_ok e) (bk_es b) of
             (ok, es) \<Rightarrow>
               if ok then (case initEsIndex (es_can_create e) (es_exists_fails e) (es_create_fails e) (es, bk_index b) of
                   (_, es', index) \<Rightarrow> b\<lparr>bk_es := es', bk_index := index\<rparr>)
               else b\<lparr>bk_es := es\<rparr>)
        else b)"

text \<open>What \<open>/health/ready\<close> asks each enabled backend.\<close>

definition ready_conns :: "backend_flags \<Rightarrow> backends \<Rightarrow> ready_env \<Rightarrow> ready_env" where
  "ready_conns f b r =
    r\<lparr>redis_conn := (if REDIS_ENABLED f then Some (Inr (redis_isConnected (bk_redis b))) else None),
      kafka_conn := (if KAFKA_ENABLED f then Some (Inr (kafka_isConnected (bk_kafka b))) else None),
      es_conn := (if ES_ENABLED f then Some (Inr (es_isConnected (bk_es b))) else None)\<rparr>"

lemma initBackends_facts:
  "redis_isConnected (bk_redis (initBackends f e (no_backends i))) \<longleftrightarrow> REDIS_ENABLED f \<and> redis_status e = ''ready''"
  "kafka_isConnected (bk_kafka (initBackends f e (no_backends i))) \<longleftrightarrow> KAFKA_ENABLED f \<and> kafka_outcome e \<noteq> NotCreated"
  "es_isConnected (bk_es (initBackends f e (no_backends i))) \<longleftrightarrow> ES_ENABLED f \<and> es_can_create e \<and> es_ping_ok e"
  by (auto simp: initBackends_def no_backends_def connectRedis_def getRedis_def connectProducer_def
      connectElasticsearch_def getEsClient_def initEsIndex_def redis_isConnected_def kafka_isConnected_def
      Let_def split: connect_outcome.splits prod.splits)

text \<open>Readiness is blind to Kafka: after the connection attempts of the start, the checks for Redis
  and Elasticsearch say whether they are connected, but the check for Kafka passes as soon as
  a producer object exists, so that the answer of \<open>/health/ready\<close> is the same whether the
  broker was reached or not.\<close>

theorem readiness_blind_to_kafka:
  fixes f i r e
  assumes "redis_status e = ''ready'' \<longleftrightarrow> redis_resolves e" and "kafka_outcome e = NotConnected"
  defines "conns \<equiv> \<lambda>e. ready_conns f (initBackends f e (no_backends i)) r"
  shows "redis_conn (conns e) = (if REDIS_ENABLED f then Some (Inr (redis_resolves e)) else None) \<and>
    es_conn (conns e) = (if ES_ENABLED f then Some (Inr (es_can_create e \<and> es_ping_ok e)) else None) \<and>
    kafka_conn (conns e) = (if KAFKA_ENABLED f then Some (Inr True) else None) \<and>
    health_ready backend now out select_ok (conns e) worker s =
      health_ready backend now out select_ok (conns (e\<lparr>kafka_outcome := Connected\<rparr>)) worker s"
proof -
  have "conns (e\<lparr>kafka_outcome := Connected\<rparr>) = conns e"
    using assms(2) by (simp add: conns_def ready_conns_def initBackends_facts)
  then show ?thesis using assms(1,2) by (simp add: conns_def ready_conns_def initBackends_facts)
qed

definition demo_flags :: backend_flags where
  "demo_flags = \<lparr>REDIS_ENABLED = False, KAFKA_ENABLED = True, ES_ENABLED = False\<rparr>"

definition demo_init :: init_env where
  "demo_init = \<lparr>redis_resolves = False, redis_status = ''end'', kafka_outcome = NotConnected,
     es_can_create = True, es_ping_ok = False, es_exists_fails = False, es_create_fails = False\<rparr>"

lemma readiness_blind_to_kafka_witness:
  "kafka_conn (ready_conns demo_flags (initBackends demo_flags demo_init (no_backends None)) demo_ready) = Some (Inr True)"
proof -
  have "redis_status demo_init = ''ready'' \<longleftrightarrow> redis_resolves demo_init" "kafka_outcome demo_init = NotConnected"
    by (simp_all add: demo_init_def)
  from readiness_blind_to_kafka [OF this, of demo_flags None demo_ready]
  have "kafka_conn (ready_conns demo_flags (initBackends demo_flags demo_init (no_backends None)) demo_ready) =
      (if KAFKA_ENABLED demo_flags then Some (Inr True) else None)" by blast
  then show ?thesis by (simp add: demo_flags_def)
qed

section \<open>Pages and the tree\<close>

text \<open>
  A response: its status, its headers in the order they are set, and its body, text or bytes.
  \<open>ae\<close> is the request's \<open>accept-encoding\<close>, absent or empty alike.
\<close>

record 'z response =
  r_status :: int
  r_headers :: "(string \<times> string) list"
  r_body :: "string + 'z"

definition negotiate :: "string option \<Rightarrow> (string \<times> string) list \<Rightarrow> string \<Rightarrow> 'z \<Rightarrow> 'z response" where
  "negotiate ae hdrs plain gzipped =
    (if js_includes (or_str ae []) ''gzip''
     then \<lparr>r_status = 200, r_headers = AList.update ''Content-Encoding'' ''gzip'' hdrs, r_body = Inr gzipped\<rparr>
     else \<lparr>r_status = 200, r_headers = hdrs, r_body = Inl plain\<rparr>)"

definition html_type :: "string \<times> string" where
  "html_type = (''Content-Type'', ''text/html; charset=utf-8'')"

definition search_page :: "string option \<Rightarrow> string \<Rightarrow> 'z \<Rightarrow> 'z response" where
  "search_page ae SEARCH_HTML searchHtmlGzip = negotiate ae [html_type] SEARCH_HTML searchHtmlGzip"

definition status_page :: "string option \<Rightarrow> string \<Rightarrow> 'z \<Rightarrow> 'z response" where
  "status_page ae STATUS_HTML statusHtmlGzip = negotiate ae [html_type] STATUS_HTML statusHtmlGzip"

definition dashboard_page :: "string option \<Rightarrow> string \<Rightarrow> 'z \<Rightarrow> 'z response" where
  "dashboard_page ae DASHBOARD_HTML htmlGzip =
    negotiate ae [(''Cache-Control'', ''no-store, no-cache, must-revalidate''), html_type] DASHBOARD_HTML htmlGzip"

definition metrics_page :: "time_ms \<Rightarrow> process_env \<Rightarrow> cached_stats \<Rightarrow> registry \<Rightarrow> 'z response \<times> registry" where
  "metrics_page now p c reg =
    (case getMetrics now p c reg of (t, reg') \<Rightarrow>
      (\<lparr>r_status = 200, r_headers = [(''Content-Type'', ''text/plain; version=0.0.4; charset=utf-8'')],
        r_body = Inl t\<rparr>, reg'))"

text \<open>
  The picture of the crawl in the server: the text, its compression, and the texts whose
  compression is under way; the thread pool of zlib may finish them in any order.
\<close>

record 'z tree_server =
  treeJsonStr :: string
  treeGzipBuf :: 'z
  gzipping :: "string list"

definition tree_api :: "string option \<Rightarrow> 'z tree_server \<Rightarrow> 'z response" where
  "tree_api ae s = negotiate ae [(''Content-Type'', ''application/json'')] (treeJsonStr s) (treeGzipBuf s)"

text \<open>The first text is only put into a buffer (\<open>raw\<close>), not compressed.\<close>

definition initial_tree :: "(string \<Rightarrow> 'z) \<Rightarrow> 'z tree_server" where
  "initial_tree raw =
    (let t = ''{\"nodes\":[],\"total\":0}'' in \<lparr>treeJsonStr = t, treeGzipBuf = raw t, gzipping = []\<rparr>)"

text \<open>\<open>loadTreeFromDb\<close> at the start replaces both, when there is anything to show.\<close>

definition start_tree :: "(string \<Rightarrow> 'z) \<Rightarrow> (string \<Rightarrow> 'z) \<Rightarrow> (TreeData \<Rightarrow> string) \<Rightarrow> TreeData option \<Rightarrow> 'z tree_server" where
  "start_tree raw gz stringify loaded =
    (case loaded of
       None \<Rightarrow> initial_tree raw
     | Some d \<Rightarrow> (initial_tree raw)\<lparr>treeJsonStr := stringify d, treeGzipBuf := gz (stringify d)\<rparr>)"

text \<open>A message of type \<open>tree\<close>, and the callback of one of its compressions.\<close>

definition on_tree :: "string \<Rightarrow> 'z tree_server \<Rightarrow> 'z tree_server" where
  "on_tree json s = s\<lparr>treeJsonStr := json, gzipping := gzipping s @ [json]\<rparr>"

definition gzip_done :: "(string \<Rightarrow> 'z) \<Rightarrow> nat \<Rightarrow> bool \<Rightarrow> 'z tree_server \<Rightarrow> 'z tree_server" where
  "gzip_done gz i ok s =
    (if i < length (gzipping s)
     then s\<lparr>treeGzipBuf := (if ok then gz (gzipping s ! i) else treeGzipBuf s),
            gzipping := take i (gzipping s) @ drop (Suc i) (gzipping s)\<rparr>
     else s)"

datatype tree_event = TreeMsg string | GzipDone nat bool

fun tree_apply :: "(string \<Rightarrow> 'z) \<Rightarrow> tree_event \<Rightarrow> 'z tree_server \<Rightarrow> 'z tree_server" where
  "tree_apply gz (TreeMsg json) s = on_tree json s"
| "tree_apply gz (GzipDone i ok) s = gzip_done gz i ok s"

fun in_turn :: "tree_event \<Rightarrow> bool" where
  "in_turn (TreeMsg _) \<longleftrightarrow> True"
| "in_turn (GzipDone i ok) \<longleftrightarrow> i = 0 \<and> ok"

fun sent_trees :: "tree_event list \<Rightarrow> string list" where
  "sent_trees [] = []"
| "sent_trees (TreeMsg j # es) = j # sent_trees es"
| "sent_trees (GzipDone _ _ # es) = sent_trees es"

text \<open>What a client makes of an answer; \<open>gunzip\<close> has no value on a body that is not compressed.\<close>

definition received :: "('z \<Rightarrow> string option) \<Rightarrow> 'z response \<Rightarrow> string option" where
  "received gunzip r = (case r_body r of Inl t \<Rightarrow> Some t | Inr z \<Rightarrow> gunzip z)"

definition buffer_is :: "('z \<Rightarrow> string option) \<Rightarrow> string set \<Rightarrow> 'z tree_server \<Rightarrow> bool" where
  "buffer_is gunzip T s \<longleftrightarrow> gunzip (treeGzipBuf s) \<in> Some ` T \<and> set (gzipping s) \<subseteq> T \<and> treeJsonStr s \<in> T"

definition in_step :: "('z \<Rightarrow> string option) \<Rightarrow> 'z tree_server \<Rightarrow> bool" where
  "in_step gunzip s \<longleftrightarrow>
    (if gzipping s = [] then gunzip (treeGzipBuf s) = Some (treeJsonStr s) else last (gzipping s) = treeJsonStr s)"

lemma buffer_run:
  assumes "\<forall>t. gunzip (gz t) = Some t"
  shows "buffer_is gunzip T s \<Longrightarrow> buffer_is gunzip (T \<union> set (sent_trees es)) (fold (tree_apply gz) es s)"
proof (induction es arbitrary: s T)
  case (Cons e es)
  show ?case
  proof (cases e)
    case (TreeMsg j)
    then have "buffer_is gunzip (insert j T) (tree_apply gz e s)"
      using Cons.prems by (auto simp: buffer_is_def on_tree_def)
    from Cons.IH [OF this] TreeMsg show ?thesis by simp
  next
    case (GzipDone i ok)
    then have "buffer_is gunzip T (tree_apply gz e s)"
      using Cons.prems assms nth_mem [of i "gzipping s"] set_take_subset [of i "gzipping s"]
        set_drop_subset [of "Suc i" "gzipping s"] unfolding buffer_is_def
      by (auto simp: gzip_done_def intro!: imageI dest: subsetD)
    from Cons.IH [OF this] GzipDone show ?thesis by simp
  qed
qed simp

lemma in_step_run:
  assumes "\<forall>t. gunzip (gz t) = Some t"
  shows "in_step gunzip s \<Longrightarrow> list_all in_turn es \<Longrightarrow> in_step gunzip (fold (tree_apply gz) es s)"
proof (induction es arbitrary: s)
  case (Cons e es)
  have "in_step gunzip (tree_apply gz e s)"
    using Cons.prems assms
    by (cases e; cases "gzipping s") (auto simp: in_step_def on_tree_def gzip_done_def)
  with Cons show ?case by simp
qed simp

text \<open>Clients see pictures the crawler made: when the server finds pages in the database at its
  start, then whatever the order in which compressions finish and whichever fail, a client of
  \<open>/api/tree\<close>, whether it asks for compression or not, receives the picture of the start or one
  that the crawler has sent since; and when compressions finish in their order without an
  error, and none is under way, all clients receive the last one.\<close>

theorem tree_clients_agree:
  fixes es gz stringify d raw
  assumes "\<forall>t. gunzip (gz' t) = Some t" and "\<forall>t. gunzip (gz t) = Some t"
  defines "s \<equiv> fold (tree_apply gz) es (start_tree raw gz' stringify (Some d))"
  shows "received gunzip (tree_api ae s) \<in> Some ` insert (stringify d) (set (sent_trees es)) \<and>
    (list_all in_turn es \<and> gzipping s = [] \<longrightarrow>
      received gunzip (tree_api ae s) = Some (last (stringify d # sent_trees es)))"
proof -
  let ?s0 = "start_tree raw gz' stringify (Some d)"
  have s0: "gunzip (treeGzipBuf ?s0) = Some (treeJsonStr ?s0)" "gzipping ?s0 = []" "treeJsonStr ?s0 = stringify d"
    using assms(1) by (simp_all add: start_tree_def initial_tree_def Let_def)
  then have "buffer_is gunzip {stringify d} ?s0" "in_step gunzip ?s0" by (simp_all add: buffer_is_def in_step_def)
  then have "buffer_is gunzip (insert (stringify d) (set (sent_trees es))) s"
      "list_all in_turn es \<Longrightarrow> in_step gunzip s"
    using buffer_run [of gunzip gz, OF assms(2), of "{stringify d}" ?s0 es] in_step_run [of gunzip gz, OF assms(2), of ?s0 es]
    by (simp_all add: s_def)
  moreover have "treeJsonStr (fold (tree_apply gz) es t) = last (treeJsonStr t # sent_trees es)" for t
    by (induction es arbitrary: t rule: sent_trees.induct) (auto simp: on_tree_def gzip_done_def)
  ultimately show ?thesis
    using s0(3) by (auto simp: received_def tree_api_def negotiate_def buffer_is_def in_step_def s_def)
qed

lemma tree_clients_agree_witness:
  "received (\<lambda>z. Some (tl z)) (tree_api (Some ''gzip'') (fold (tree_apply (\<lambda>t. CHR ''1'' # t)) [TreeMsg ''{}'', GzipDone 0 True]
     (start_tree id (\<lambda>t. CHR ''6'' # t) (\<lambda>_. []) (Some \<lparr>t_nodes = [], t_edges = [], t_total = 0, t_domains = 0\<rparr>)))) = Some ''{}''"
  using tree_clients_agree [of "\<lambda>z. Some (tl z)" "\<lambda>t. CHR ''6'' # t" "\<lambda>t. CHR ''1'' # t" "Some ''gzip''"
      "[TreeMsg ''{}'', GzipDone 0 True]" id "\<lambda>_. []"]
  by (simp add: on_tree_def gzip_done_def start_tree_def initial_tree_def Let_def)

text \<open>With an empty database the first buffer is not compressed, but sent as if it were.\<close>

lemma tree_gzip_plain:
  fixes raw gz stringify
  assumes "gunzip (raw (treeJsonStr (initial_tree raw))) = None"
  defines "r \<equiv> tree_api (Some ''gzip'') (start_tree raw gz stringify None)"
  shows "received gunzip r = None \<and> map_of (r_headers r) ''Content-Encoding'' = Some ''gzip''"
  using assms by (simp add: received_def tree_api_def start_tree_def negotiate_def or_str_def initial_tree_def Let_def)

text \<open>When two compressions finish in the other order, compressed clients keep the older picture.\<close>

lemma tree_gzip_stale:
  fixes a b gz s
  assumes "\<forall>t. gunzip (gz t) = Some t" and "gzipping s = []"
  defines "s' \<equiv> fold (tree_apply gz) [TreeMsg a, TreeMsg b, GzipDone 1 True, GzipDone 0 True] s"
  shows "gzipping s' = [] \<and> received gunzip (tree_api (Some ''gzip'') s') = Some a \<and>
    received gunzip (tree_api None s') = Some b"
  using assms by (simp add: received_def tree_api_def negotiate_def on_tree_def gzip_done_def or_str_def)

section \<open>Small JSON routes\<close>

text \<open>\<open>/health/live\<close>: the time and the uptime in whole seconds.\<close>

definition health_live :: "time_ms \<Rightarrow> time_ms \<Rightarrow> string \<times> time_ms \<times> int" where
  "health_live now uptime_ms = (''ok'', now, uptime_ms div 1000)"

record stats_body =
  sb_stats :: cached_stats
  sb_crawlerRestarts :: int
  sb_flags :: backend_flags
  sb_backend :: db_backend
  sb_circuitBreakers :: "(string \<times> State) list"

text \<open>\<open>/api/stats\<close>, less the constants of the process; \<open>/api/circuit-breakers\<close>; and any other path.\<close>

definition api_stats ::
  "time_ms \<Rightarrow> db_backend \<Rightarrow> backend_flags \<Rightarrow> cached_stats \<Rightarrow> supervisor \<Rightarrow> registry \<Rightarrow> stats_body \<times> registry" where
  "api_stats now backend flags c sup_state reg =
    (case getAllBreakers now reg of (bs, reg') \<Rightarrow>
      (\<lparr>sb_stats = c, sb_crawlerRestarts = crawlerRestarts sup_state, sb_flags = flags, sb_backend = backend,
        sb_circuitBreakers = map (\<lambda>b. (s_name b, s_state b)) bs\<rparr>, reg'))"

definition api_circuit_breakers :: "time_ms \<Rightarrow> registry \<Rightarrow> CircuitBreakerStatus list \<times> registry" where
  "api_circuit_breakers now reg = getAllBreakers now reg"

definition not_found :: "string \<Rightarrow> int \<times> string \<times> string" where
  "not_found path = (404, ''Not found'', path)"

text \<open>Every route that reports breakers leaves them in the same state.\<close>

lemma reports_agree:
  "snd (api_stats now backend flags c w reg) = snd (api_circuit_breakers now reg)"
  "snd (metrics_page now p c reg :: 'z response \<times> registry) = snd (api_circuit_breakers now reg)"
  "fst (snd (health_ready be now out ok env w (reg, sdb))) = snd (api_circuit_breakers now reg)"
  by (simp_all add: api_stats_def api_circuit_breakers_def metrics_page_def getMetrics_def health_ready_def
      split_beta Let_def)

end
