(* ===== verification/Environment.thy ===== *)
theory Environment
  imports Config Numbers
begin

text \<open>
  What the program takes from the process environment: the head of src/config.ts, the pool of
  src/db-pg.ts, src/logger.ts, the profiles of environments/ and src/env.ts, which nothing calls;
  and the fixed response headers of src/security.ts.
\<close>

section \<open>Reading the environment\<close>

type_synonym env = "string \<rightharpoonup> string"

text \<open>\<open>process.env.K || d\<close>, and \<open>parseInt(process.env.K) || d\<close>.\<close>

definition env_or :: "env \<Rightarrow> string \<Rightarrow> string \<Rightarrow> string" where
  "env_or e k d = or_str (e k) d"

definition env_int :: "env \<Rightarrow> string \<Rightarrow> int \<Rightarrow> int" where
  "env_int e k d = or_num (case e k of None \<Rightarrow> None | Some s \<Rightarrow> js_parseInt s) d"

record app_config =
  c_dbBackend :: string
  c_redisEnabled :: bool
  c_kafkaEnabled :: bool
  c_esEnabled :: bool
  c_pgHost :: string
  c_pgPort :: int
  c_pgDatabase :: string
  c_pgUser :: string
  c_pgPassword :: string
  c_redisHost :: string
  c_redisPort :: int
  c_redisPassword :: string
  c_kafkaBrokers :: "string list"
  c_esNode :: string
  c_esIndex :: string

definition app_config_of :: "env \<Rightarrow> app_config" where
  "app_config_of e =
    \<lparr>c_dbBackend = env_or e ''DB_BACKEND'' ''sqlite'',
     c_redisEnabled = (e ''REDIS_ENABLED'' = Some ''true''),
     c_kafkaEnabled = (e ''KAFKA_ENABLED'' = Some ''true''),
     c_esEnabled = (e ''ES_ENABLED'' = Some ''true''),
     c_pgHost = env_or e ''PG_HOST'' ''localhost'', c_pgPort = env_int e ''PG_PORT'' 5432,
     c_pgDatabase = env_or e ''PG_DATABASE'' ''webindexer'', c_pgUser = env_or e ''PG_USER'' ''webindexer'',
     c_pgPassword = env_or e ''PG_PASSWORD'' ''secret'',
     c_redisHost = env_or e ''REDIS_HOST'' ''localhost'', c_redisPort = env_int e ''REDIS_PORT'' 6379,
     c_redisPassword = env_or e ''REDIS_PASSWORD'' [],
     c_kafkaBrokers = js_split CHR '','' (env_or e ''KAFKA_BROKERS'' ''localhost:9092''),
     c_esNode = env_or e ''ES_NODE'' ''http://localhost:9200'', c_esIndex = env_or e ''ES_INDEX'' ''pages''\<rparr>"

text \<open>Every test of \<open>DB_BACKEND\<close> compares it with \<open>pg\<close>.\<close>

definition db_backend_of :: "env \<Rightarrow> db_backend" where
  "db_backend_of e = (if c_dbBackend (app_config_of e) = ''pg'' then Pg else Sqlite)"

text \<open>The options of the connection pool; a port that is no number is \<open>None\<close>. One pool per process.\<close>

record pool_config =
  pl_host :: string
  pl_port :: "int option"
  pl_database :: string
  pl_user :: string
  pl_password :: string
  pl_max :: nat
  pl_idleTimeoutMillis :: nat
  pl_connectionTimeoutMillis :: nat

definition getPool :: "env \<Rightarrow> pool_config option \<Rightarrow> pool_config \<times> pool_config option" where
  "getPool e pool =
    (case pool of
       Some p \<Rightarrow> (p, pool)
     | None \<Rightarrow>
         (let p = \<lparr>pl_host = env_or e ''PG_HOST'' ''localhost'', pl_port = js_parseInt (env_or e ''PG_PORT'' ''5432''),
                   pl_database = env_or e ''PG_DATABASE'' ''webindexer'', pl_user = env_or e ''PG_USER'' ''webindexer'',
                   pl_password = env_or e ''PG_PASSWORD'' ''webindexer'', pl_max = 20,
                   pl_idleTimeoutMillis = 30000, pl_connectionTimeoutMillis = 5000\<rparr>
          in (p, Some p)))"

definition closePg :: "pool_config option \<Rightarrow> pool_config option" where
  "closePg pool = (case pool of None \<Rightarrow> pool | Some _ \<Rightarrow> None)"

text \<open>The level of the log, and whether it is printed for people.\<close>

definition logger :: "env \<Rightarrow> string \<times> bool" where
  "logger e = (env_or e ''LOG_LEVEL'' ''info'', e ''NODE_ENV'' \<noteq> Some ''production'')"

section \<open>The profiles\<close>

datatype js_value = Num int | Str string

record profile =
  p_env :: string
  p_port :: js_value
  p_host :: string
  p_dbPath :: string
  p_wal :: bool
  p_busyTimeout :: int
  p_concurrency :: int
  p_domainLimit :: int
  p_domainMax :: int
  p_maxDepth :: int
  p_fetchTimeout :: int
  p_queueLowWater :: int
  p_seedBatch :: int
  p_minDiskMb :: int
  p_diskMaxUsagePct :: int
  p_redis :: "string \<times> int \<times> int \<times> string option"
  p_clientId :: string
  p_brokers :: "string list"
  p_topic :: string
  p_esNode :: string
  p_esIndex :: string
  p_level :: string
  p_pretty :: bool
  p_windowMs :: int
  p_rateMax :: int
  p_searchMax :: int

definition development :: profile where
  "development =
    \<lparr>p_env = ''development'', p_port = Num 3000, p_host = ''localhost'', p_dbPath = ''./crawler.db'', p_wal = True,
     p_busyTimeout = 5000, p_concurrency = 5, p_domainLimit = 5, p_domainMax = 50, p_maxDepth = 5,
     p_fetchTimeout = 5000, p_queueLowWater = 1000, p_seedBatch = 100, p_minDiskMb = 200, p_diskMaxUsagePct = 90,
     p_redis = (''localhost'', 6379, 0, None), p_clientId = ''webindexer-dev'', p_brokers = [''localhost:9092''],
     p_topic = ''urls-dev'', p_esNode = ''http://localhost:9200'', p_esIndex = ''pages-dev'', p_level = ''debug'',
     p_pretty = True, p_windowMs = 60000, p_rateMax = 1000, p_searchMax = 100\<rparr>"

definition staging :: profile where
  "staging =
    \<lparr>p_env = ''staging'', p_port = Num 3000, p_host = ''0.0.0.0'', p_dbPath = ''./crawler.db'', p_wal = True,
     p_busyTimeout = 10000, p_concurrency = 10, p_domainLimit = 10, p_domainMax = 100, p_maxDepth = 8,
     p_fetchTimeout = 4000, p_queueLowWater = 5000, p_seedBatch = 250, p_minDiskMb = 300, p_diskMaxUsagePct = 85,
     p_redis = (''redis-staging'', 6379, 0, None), p_clientId = ''webindexer-staging'',
     p_brokers = [''kafka-staging:9092''], p_topic = ''urls-staging'',
     p_esNode = ''http://elasticsearch-staging:9200'', p_esIndex = ''pages-staging'', p_level = ''info'',
     p_pretty = True, p_windowMs = 60000, p_rateMax = 500, p_searchMax = 50\<rparr>"

definition production :: "env \<Rightarrow> profile" where
  "production e =
    \<lparr>p_env = ''production'', p_port = (case e ''PORT'' of None \<Rightarrow> Num 3000 | Some s \<Rightarrow> if s = [] then Num 3000 else Str s),
     p_host = ''0.0.0.0'', p_dbPath = env_or e ''DB_PATH'' ''./crawler.db'', p_wal = True, p_busyTimeout = 15000,
     p_concurrency = env_int e ''CONCURRENCY'' 15, p_domainLimit = env_int e ''DOMAIN_LIMIT'' 15,
     p_domainMax = env_int e ''DOMAIN_MAX'' 200, p_maxDepth = env_int e ''MAX_DEPTH'' 10,
     p_fetchTimeout = env_int e ''FETCH_TIMEOUT'' 3500, p_queueLowWater = env_int e ''QUEUE_LOW_WATER'' 10000,
     p_seedBatch = env_int e ''SEED_BATCH'' 500, p_minDiskMb = env_int e ''MIN_DISK_MB'' 500,
     p_diskMaxUsagePct = env_int e ''DISK_MAX_USAGE_PCT'' 80,
     p_redis = (env_or e ''REDIS_HOST'' ''localhost'', env_int e ''REDIS_PORT'' 6379, env_int e ''REDIS_DB'' 0,
       e ''REDIS_PASSWORD''),
     p_clientId = env_or e ''KAFKA_CLIENT_ID'' ''webindexer-prod'',
     p_brokers = js_split CHR '','' (env_or e ''KAFKA_BROKERS'' ''localhost:9092''),
     p_topic = env_or e ''KAFKA_TOPIC'' ''urls'', p_esNode = env_or e ''ES_NODE'' ''http://localhost:9200'',
     p_esIndex = env_or e ''ES_INDEX'' ''pages'', p_level = env_or e ''LOG_LEVEL'' ''info'', p_pretty = False,
     p_windowMs = 60000, p_rateMax = env_int e ''RATE_LIMIT_MAX'' 100, p_searchMax = env_int e ''RATE_LIMIT_SEARCH_MAX'' 30\<rparr>"

text \<open>
  A module is the profile it exports under its name. The file that the fallback asks for,
  \<open>development.js\<close> beside env.ts, does not exist; \<open>None\<close> is the exception of \<open>require\<close>.
\<close>

definition profile_modules :: "env \<Rightarrow> string \<rightharpoonup> string \<times> profile" where
  "profile_modules e =
    [''../environments/development.js'' \<mapsto> (''development'', development),
     ''../environments/staging.js'' \<mapsto> (''staging'', staging),
     ''../environments/production.js'' \<mapsto> (''production'', production e)]"

definition getConfig :: "env \<Rightarrow> (string \<times> profile) option" where
  "getConfig e =
    (case profile_modules e (''../environments/'' @ env_or e ''NODE_ENV'' ''development'' @ ''.js'') of
       Some m \<Rightarrow> Some m
     | None \<Rightarrow> profile_modules e ''./development.js'')"

section \<open>Response headers\<close>

definition quoted :: "string \<Rightarrow> string" where
  "quoted w = CHR 0x27 # w @ [CHR 0x27]"

definition csp_directives :: "(string \<times> string list) list" where
  "csp_directives =
    [(''default-src'', [quoted ''self'']),
     (''script-src'', [quoted ''self'', quoted ''unsafe-inline'', quoted ''unsafe-eval'', ''https://unpkg.com'']),
     (''style-src'', [quoted ''self'', quoted ''unsafe-inline'', ''https://unpkg.com'']),
     (''img-src'', [quoted ''self'', ''data:'', ''https:'']),
     (''font-src'', [quoted ''self'', ''https://unpkg.com'']),
     (''connect-src'', [quoted ''self'']),
     (''frame-ancestors'', [quoted ''none'']),
     (''base-uri'', [quoted ''self'']),
     (''form-action'', [quoted ''self''])]"

fun joined :: "string \<Rightarrow> string list \<Rightarrow> string" where
  "joined sep [] = []"
| "joined sep [w] = w"
| "joined sep (w # v # ws) = w @ sep @ joined sep (v # ws)"

definition SECURITY_HEADERS :: "(string \<times> string) list" where
  "SECURITY_HEADERS =
    [(''X-Content-Type-Options'', ''nosniff''), (''X-Frame-Options'', ''DENY''),
     (''X-XSS-Protection'', ''1; mode=block''), (''Referrer-Policy'', ''strict-origin-when-cross-origin''),
     (''Permissions-Policy'', ''camera=(), microphone=(), geolocation=()''),
     (''Strict-Transport-Security'', ''max-age=31536000; includeSubDomains''),
     (''Content-Security-Policy'',
       joined ''; '' (map (\<lambda>(name, sources). joined '' '' (name # sources)) csp_directives))]"

text \<open>\<open>setHeader\<close> replaces a header of the same name.\<close>

definition setHeader :: "string \<Rightarrow> string \<Rightarrow> (string \<times> string) list \<Rightarrow> (string \<times> string) list" where
  "setHeader k v hs = AList.update k v hs"

definition securityHeaders :: "(string \<times> string) list \<Rightarrow> (string \<times> string) list" where
  "securityHeaders hs = fold (\<lambda>(k, v). setHeader k v) SECURITY_HEADERS hs"

section \<open>What the environment changes\<close>

lemma env_int_digits:
  assumes "e k = Some (js_digits n)"
  shows "env_int e k d = (if n = 0 then d else int n)"
  using assms by (simp add: env_int_def parseInt_digits or_num_def)

text \<open>
  The environment tunes the profile of production, where a 0 counts as absent, but not the
  crawler: \<open>CONCURRENCY\<close> and the other limits of the loop are constants, whatever it says. The
  two defaults of the PostgreSQL password differ, and an unknown \<open>NODE_ENV\<close> makes \<open>getConfig\<close>
  throw where it means to fall back to development.
\<close>

lemma environment_settings:
  assumes "e ''CONCURRENCY'' = Some (js_digits n)" and "e ''PG_PASSWORD'' = None"
  shows "p_concurrency (production e) = (if n = 0 then 15 else int n) \<and> CONCURRENCY = 2 \<and>
    c_pgPassword (app_config_of e) = ''secret'' \<and> pl_password (fst (getPool e None)) = ''webindexer'' \<and>
    (e ''NODE_ENV'' = Some ''test'' \<longrightarrow> getConfig e = None) \<and>
    (e ''NODE_ENV'' \<in> {None, Some ''development''} \<longrightarrow> getConfig e = Some (''development'', development))"
  using env_int_digits [of e "''CONCURRENCY''" n, OF assms(1)] assms(2)
  by (auto simp: production_def CONCURRENCY_def app_config_of_def getPool_def getConfig_def profile_modules_def
      env_or_def or_str_def Let_def)

text \<open>The pool is made once, and a request for it after closing makes a new one.\<close>

lemma pool_once:
  "getPool e (snd (getPool e p)) = (fst (getPool e p), snd (getPool e p))"
  "closePg (snd (getPool e p)) = None"
  by (simp_all add: getPool_def closePg_def Let_def split: option.split)

lemma fold_update:
  "distinct (map fst kvs) \<Longrightarrow>
    map_of (fold (\<lambda>(k, v). AList.update k v) kvs hs) x = (case map_of kvs x of None \<Rightarrow> map_of hs x | Some v \<Rightarrow> Some v)"
  by (induction kvs arbitrary: hs) (auto split: option.split dest: map_of_SomeD simp: rev_image_eqI)

lemma security_header_names: "distinct (map fst SECURITY_HEADERS)"
  by (simp add: SECURITY_HEADERS_def)

text \<open>
  Every response carries the security headers, unless a route sets one again: whatever headers
  stand before, each of the seven has its value afterwards, and the others are untouched.
\<close>

lemma headers_set:
  "map_of (securityHeaders hs) x = (case map_of SECURITY_HEADERS x of None \<Rightarrow> map_of hs x | Some v \<Rightarrow> Some v)"
  unfolding securityHeaders_def setHeader_def by (rule fold_update [OF security_header_names])

end
