(* ===== verification/SearchPage.thy ===== *)
theory SearchPage
  imports Search Elasticsearch
begin

text \<open>
  The script of the search page (src/html.ts), which runs in the browser: escaping, the
  highlighting of the query's words, and the search itself. The browser's part is documented
  behaviour: the serialisation of a text node, and \<open>indexOf\<close> and \<open>substring\<close> of strings.
\<close>

section \<open>Escaping and highlighting\<close>

text \<open>\<open>innerHTML\<close> of an element that holds one text node.\<close>

definition esc_char :: "char \<Rightarrow> string" where
  "esc_char c = (if c = CHR ''&'' then ''&amp;'' else if c = CHR ''<'' then ''&lt;''
     else if c = CHR ''>'' then ''&gt;'' else if of_char c = (160 :: nat) then ''&nbsp;'' else [c])"

definition esc :: "string \<Rightarrow> string" where
  "esc s = concat (map esc_char s)"

text \<open>\<open>s.indexOf(p, k)\<close>; \<open>None\<close> is -1. A start beyond the end counts as the end.\<close>

fun index_from :: "string \<Rightarrow> string \<Rightarrow> nat option" where
  "index_from [] p = (if p = [] then Some 0 else None)"
| "index_from (c # cs) p = (if js_startsWith (c # cs) p then Some 0 else map_option Suc (index_from cs p))"

definition js_indexOf :: "string \<Rightarrow> string \<Rightarrow> nat \<Rightarrow> nat option" where
  "js_indexOf s p k = (let k = min k (length s) in map_option (\<lambda>i. k + i) (index_from (drop k s) p))"

text \<open>
  The loop over the places of one word. The places are found in \<open>ls\<close>, the lower-case text
  before the loop, while \<open>s\<close> grows by the tags; a loop that does not end has no value.
\<close>

definition wrap :: "string \<Rightarrow> string \<Rightarrow> nat \<Rightarrow> string" where
  "wrap s w i = take i s @ ''<em>'' @ take (length w) (drop i s) @ ''</em>'' @ drop (i + length w) s"

partial_function (option) hl_loop :: "string \<Rightarrow> string \<Rightarrow> string \<Rightarrow> string \<Rightarrow> nat option \<Rightarrow> string option" where
  "hl_loop w lw ls s i =
    (case i of
       None \<Rightarrow> Some s
     | Some i \<Rightarrow> hl_loop w lw ls (wrap s w i) (js_indexOf ls lw (i + 4 + length w + 5)))"

declare hl_loop.simps [code]

fun hl_words :: "string list \<Rightarrow> string \<Rightarrow> string option" where
  "hl_words [] s = Some s"
| "hl_words (w # ws) s =
    (let lw = js_lower w; ls = js_lower s
     in Option.bind (hl_loop w lw ls s (js_indexOf ls lw 0)) (hl_words ws))"

definition hl :: "string \<Rightarrow> string list \<Rightarrow> string option" where
  "hl t words = (if t = [] then Some [] else hl_words words (esc t))"

text \<open>\<open>q.toLowerCase().split(/\s+/)\<close> of \<open>doSearch\<close>; the form trims \<open>q\<close>, the address bar does not.\<close>

definition search_words :: "string \<Rightarrow> string list" where
  "search_words q = split_ws (js_lower q)"

text \<open>
  A result as \<open>/api/search\<close> sends it; an absent text is empty. \<open>show_hit\<close> is the body of the
  loop over the results, \<open>show_answer\<close> the function that gets the parsed answer: the line above
  the results and their HTML. A page whose script does not end has no value.
\<close>

record hit =
  h_url :: string
  h_domain :: string
  h_title :: string
  h_ogTitle :: string
  h_metaDescription :: string
  h_ogDescription :: string

datatype answer = Failed string | Results "hit list"

definition first_of :: "string list \<Rightarrow> string" where
  "first_of xs = (case filter (\<lambda>x. x \<noteq> []) xs of x # _ \<Rightarrow> x | [] \<Rightarrow> last xs)"

definition show_hit :: "string list \<Rightarrow> hit \<Rightarrow> string option" where
  "show_hit ws r =
    (let sn = first_of [h_metaDescription r, h_ogDescription r, []];
         ti = first_of [h_title r, h_ogTitle r, h_url r]
     in Option.bind (hl ti ws) (\<lambda>t.
        Option.bind (hl (take 250 sn) ws) (\<lambda>d.
        Some (''<div class=\"res\"><a class=\"res-t\" href=\"'' @ esc (h_url r) @ ''\" target=\"_blank\">'' @ t @
          ''</a><div class=\"res-u\">'' @ esc (h_domain r) @ '' &middot; '' @ esc (h_url r) @
          ''</div><div class=\"res-s\">'' @ d @ ''</div></div>''))))"

fun show_hits :: "string list \<Rightarrow> hit list \<Rightarrow> string option" where
  "show_hits ws [] = Some []"
| "show_hits ws (r # rs) =
    Option.bind (show_hit ws r) (\<lambda>h. map_option (\<lambda>t. h @ t) (show_hits ws rs))"

definition show_answer :: "string \<Rightarrow> answer \<Rightarrow> (string \<times> string) option" where
  "show_answer q d =
    (case d of
       Failed e \<Rightarrow> Some (''Error: '' @ e, [])
     | Results rs \<Rightarrow>
         if rs = [] then Some ([], ''<div class=\"nf\">No results for \"'' @ esc q @ ''\"</div>'')
         else map_option (\<lambda>h. (js_digits (length rs) @ '' results'', h)) (show_hits (search_words q) rs))"

text \<open>
  The two ways a search starts: the form, and a page opened with \<open>?q=\<close> in its address. The
  argument \<open>api\<close> is the server with the network; a failed request is a \<open>Failed\<close> answer.
  The outer \<open>None\<close> is a script that does not end, the inner one that no search starts.
\<close>

definition doSearch :: "(string \<Rightarrow> answer) \<Rightarrow> string \<Rightarrow> (string \<times> string) option" where
  "doSearch api q = show_answer q (api q)"

definition submit_form :: "(string \<Rightarrow> answer) \<Rightarrow> string \<Rightarrow> (string \<times> string) option option" where
  "submit_form api box =
    (let q = js_trim box in if q = [] then Some None else map_option Some (doSearch api q))"

definition open_page :: "(string \<Rightarrow> answer) \<Rightarrow> string option \<Rightarrow> (string \<times> string) option option" where
  "open_page api param =
    (case param of
       None \<Rightarrow> Some None
     | Some q \<Rightarrow> if q = [] then Some None else map_option Some (doSearch api q))"

section \<open>Ending\<close>

lemma index_from_bound: "index_from s p = Some i \<Longrightarrow> i + length p \<le> length s"
proof (induction s arbitrary: i)
  case (Cons c cs)
  then show ?case
    by (auto simp: js_startsWith_prefix prefix_length_le split: if_splits) (use prefix_length_le in fastforce)
qed (simp split: if_splits)

lemma indexOf_bound:
  assumes "js_indexOf s p k = Some i"
  shows "i + length p \<le> length s" and "min k (length s) \<le> i"
  using assms index_from_bound [of "drop (min k (length s)) s" p]
  by (auto simp: js_indexOf_def Let_def)

lemma index_from_Nil [simp]: "index_from s [] = Some 0"
  by (cases s) simp_all

lemma hl_loop_ends:
  assumes "lw \<noteq> []"
  shows "\<exists>r. hl_loop w lw ls s i = Some r"
proof (induction "case i of None \<Rightarrow> 0 | Some k \<Rightarrow> Suc (length ls - k)" arbitrary: s i rule: less_induct)
  case less
  show ?case
  proof (cases i)
    case None
    then show ?thesis by (simp add: hl_loop.simps [of w lw ls s])
  next
    case (Some k)
    let ?j = "js_indexOf ls lw (k + 4 + length w + 5)"
    have "(case ?j of None \<Rightarrow> 0 | Some m \<Rightarrow> Suc (length ls - m)) < Suc (length ls - k)"
    proof (cases ?j)
      case (Some m)
      have "m + length lw \<le> length ls" "min (k + 4 + length w + 5) (length ls) \<le> m"
        using indexOf_bound [OF Some] by auto
      moreover have "0 < length lw" using assms by simp
      ultimately have "m < length ls" "k < m" by linarith+
      then show ?thesis using Some by simp
    qed simp
    from less.hyps [of ?j "wrap s w k"] this Some show ?thesis by (simp add: hl_loop.simps [of w lw ls s])
  qed
qed

lemma hl_loop_diverges: "hl_loop w [] ls s (Some k) = None"
proof -
  have "lw = [] \<longrightarrow> i = None" if "hl_loop w lw ls s i = Some r" for lw i r
    using _ that
  proof (rule hl_loop.raw_induct [where P = "\<lambda>w lw ls s i r. lw = [] \<longrightarrow> i = None"])
    fix f w lw ls s i r
    assume IH: "\<And>w lw ls s i r. f w lw ls s i = Some r \<Longrightarrow> lw = [] \<longrightarrow> i = None"
      and body: "(case i of None \<Rightarrow> Some s
        | Some i \<Rightarrow> f w lw ls (wrap s w i) (js_indexOf ls lw (i + 4 + length w + 5))) = Some r"
    show "lw = [] \<longrightarrow> i = None"
    proof (cases i)
      case (Some k)
      then have "lw = [] \<longrightarrow> js_indexOf ls lw (k + 4 + length w + 5) = None"
        using body by (intro IH) simp
      then show ?thesis by (auto simp: js_indexOf_def Let_def)
    qed simp
  qed
  then show ?thesis by (cases "hl_loop w [] ls s (Some k)") blast+
qed

lemma js_lower_Nil [simp]: "js_lower s = [] \<longleftrightarrow> s = []"
  by (simp add: js_lower_def)

lemma hl_words_ends: "[] \<notin> set ws \<Longrightarrow> \<exists>r. hl_words ws s = Some r"
proof (induction ws arbitrary: s)
  case (Cons w ws)
  obtain t where "hl_loop w (js_lower w) (js_lower s) s (js_indexOf (js_lower s) (js_lower w) 0) = Some t"
    using hl_loop_ends [of "js_lower w" w "js_lower s" s] Cons.prems by auto
  then show ?case using Cons by (simp add: Let_def)
qed simp

lemma hl_words_diverges: "[] \<in> set ws \<Longrightarrow> hl_words ws s = None"
proof (induction ws arbitrary: s)
  case (Cons w ws)
  show ?case
  proof (cases "w = []")
    case True
    have "hl_loop [] [] (js_lower s) s (js_indexOf (js_lower s) [] 0) = None"
      by (simp add: js_indexOf_def hl_loop_diverges)
    then show ?thesis using True by (simp add: js_lower_def Let_def)
  next
    case False
    then show ?thesis using Cons by (auto simp: Let_def split: Option.bind_splits)
  qed
qed simp

section \<open>Tags\<close>

text \<open>
  What a browser reads as markup: between \<open><\<close> and \<open>>\<close> nothing but the letters of \<open><em>\<close> and
  \<open></em>\<close>, so no other element, attribute or script.
\<close>

fun tag_safe :: "bool \<Rightarrow> string \<Rightarrow> bool" where
  "tag_safe inside [] \<longleftrightarrow> True"
| "tag_safe inside (c # cs) \<longleftrightarrow>
    (if c = CHR ''>'' then tag_safe False cs
     else if c = CHR ''<'' then tag_safe True cs
     else (inside \<longrightarrow> c \<in> set ''/em'') \<and> tag_safe inside cs)"

fun tag_after :: "bool \<Rightarrow> string \<Rightarrow> bool" where
  "tag_after inside [] = inside"
| "tag_after inside (c # cs) =
    tag_after (if c = CHR ''>'' then False else if c = CHR ''<'' then True else inside) cs"

lemma tag_safe_append: "tag_safe b (s @ t) \<longleftrightarrow> tag_safe b s \<and> tag_safe (tag_after b s) t"
  by (induction s arbitrary: b) auto

lemma tag_safe_outside: "tag_safe b s \<Longrightarrow> tag_safe False s"
  by (induction s arbitrary: b) (auto split: if_splits)

lemma tag_safe_insert:
  assumes "tag_safe b (s @ t)" and "tg = ''<em>'' \<or> tg = ''</em>''"
  shows "tag_safe b (s @ tg @ t)"
  using assms tag_safe_outside by (auto simp: tag_safe_append)

lemma tag_safe_wrap:
  assumes "tag_safe b s"
  shows "tag_safe b (wrap s w i)"
proof -
  have "tag_safe b (take i s @ ''<em>'' @ drop i s)"
    using assms by (intro tag_safe_insert) simp_all
  moreover have "drop i s = take (length w) (drop i s) @ drop (i + length w) s"
    by (metis append_take_drop_id drop_drop add.commute)
  ultimately have "tag_safe b ((take i s @ ''<em>'' @ take (length w) (drop i s)) @ drop (i + length w) s)"
    by (metis append.assoc)
  then have "tag_safe b ((take i s @ ''<em>'' @ take (length w) (drop i s)) @ ''</em>'' @ drop (i + length w) s)"
    by (intro tag_safe_insert) simp_all
  then show ?thesis by (simp add: wrap_def)
qed

lemma tag_safe_loop: "hl_loop w lw ls s i = Some r \<Longrightarrow> tag_safe b s \<Longrightarrow> tag_safe b r"
proof -
  assume loop: "hl_loop w lw ls s i = Some r" and safe: "tag_safe b s"
  have "tag_safe b s \<longrightarrow> tag_safe b r"
    using _ loop
  proof (rule hl_loop.raw_induct [where P = "\<lambda>w lw ls s i r. tag_safe b s \<longrightarrow> tag_safe b r"])
    fix f w lw ls s i r
    assume IH: "\<And>w lw ls s i r. f w lw ls s i = Some r \<Longrightarrow> tag_safe b s \<longrightarrow> tag_safe b r"
      and body: "(case i of None \<Rightarrow> Some s
        | Some i \<Rightarrow> f w lw ls (wrap s w i) (js_indexOf ls lw (i + 4 + length w + 5))) = Some r"
    show "tag_safe b s \<longrightarrow> tag_safe b r"
    proof (cases i)
      case (Some k)
      then have "tag_safe b (wrap s w k) \<longrightarrow> tag_safe b r" using body by (intro IH) simp
      then show ?thesis using tag_safe_wrap by blast
    qed (use body in simp)
  qed
  with safe show ?thesis by blast
qed

lemma tag_safe_words: "hl_words ws s = Some r \<Longrightarrow> tag_safe b s \<Longrightarrow> tag_safe b r"
  by (induction ws arbitrary: s) (auto simp: Let_def tag_safe_loop split: Option.bind_splits)

lemma tag_safe_esc: "tag_safe False (esc s)"
proof (induction s)
  case (Cons c s)
  have "tag_safe False (esc_char c) \<and> \<not> tag_after False (esc_char c)"
    by (auto simp: esc_char_def)
  then show ?case using Cons by (simp add: esc_def tag_safe_append)
qed (simp add: esc_def)

section \<open>The text stays\<close>

lemma subseq_insert: "subseq (a @ b) (a @ x @ b)"
  by (intro list_emb_append_mono list_emb_append2) simp_all

lemma subseq_wrap: "subseq s (wrap s w i)"
proof -
  define a m e where "a = take i s" and "m = take (length w) (drop i s)" and "e = drop (i + length w) s"
  have s: "s = a @ m @ e" unfolding a_def m_def e_def by (metis append_take_drop_id drop_drop add.commute)
  have "subseq s (a @ ''<em>'' @ m @ e)" unfolding s by (rule subseq_insert)
  moreover have "subseq ((a @ ''<em>'' @ m) @ e) ((a @ ''<em>'' @ m) @ ''</em>'' @ e)" by (rule subseq_insert)
  then have "subseq (a @ ''<em>'' @ m @ e) (wrap s w i)" by (simp only: wrap_def a_def m_def e_def append.assoc)
  ultimately show ?thesis using subseq_order.order_trans by blast
qed

lemma subseq_loop:
  assumes "hl_loop w lw ls s i = Some r"
  shows "subseq s r"
  using _ assms
proof (rule hl_loop.raw_induct [where P = "\<lambda>w lw ls s i r. subseq s r"])
  fix f w lw ls s i r
  assume IH: "\<And>w lw ls s i r. f w lw ls s i = Some r \<Longrightarrow> subseq s r"
    and body: "(case i of None \<Rightarrow> Some s
      | Some i \<Rightarrow> f w lw ls (wrap s w i) (js_indexOf ls lw (i + 4 + length w + 5))) = Some r"
  show "subseq s r"
  proof (cases i)
    case (Some k)
    then have "subseq (wrap s w k) r" using body by (intro IH) simp
    then show ?thesis using subseq_wrap subseq_order.order_trans by blast
  qed (use body in simp)
qed

lemma subseq_words: "hl_words ws s = Some r \<Longrightarrow> subseq s r"
proof (induction ws arbitrary: s)
  case (Cons w ws)
  then obtain t where "hl_loop w (js_lower w) (js_lower s) s (js_indexOf (js_lower s) (js_lower w) 0) = Some t"
    "hl_words ws t = Some r"
    by (auto simp: Let_def split: Option.bind_splits)
  then show ?case using subseq_loop Cons.IH subseq_order.order_trans by metis
qed simp

section \<open>The words of a query\<close>

lemma letters_not_ws:
  assumes "(65 \<le> n \<and> n \<le> 90) \<or> (192 \<le> n \<and> n \<le> 222 \<and> n \<noteq> (215 :: nat))"
  shows "n \<notin> {9, 10, 11, 12, 13, 32, 160} \<and> n + 32 \<notin> {9, 10, 11, 12, 13, 32, 160} \<and> n + 32 < 256"
  using assms by auto

lemma char_lower_ws [simp]: "is_ws (char_lower c) = is_ws c"
proof (cases "(65 \<le> (of_char c :: nat) \<and> (of_char c :: nat) \<le> 90) \<or>
    (192 \<le> (of_char c :: nat) \<and> (of_char c :: nat) \<le> 222 \<and> (of_char c :: nat) \<noteq> 215)")
  case True
  note letters_not_ws [OF this]
  moreover have "char_lower c = char_of (of_char c + (32 :: nat))"
    using True unfolding char_lower_def Let_def by (rule if_P)
  ultimately show ?thesis by (simp add: is_ws_def del: insert_iff)
next
  case False
  have "char_lower c = c"
    using False unfolding char_lower_def Let_def by (rule if_not_P)
  then show ?thesis by simp
qed

lemma split_ws_one: "split_ws [c] = (if is_ws c then [[], []] else [[c]])"
  by simp

lemma split_ws_not_Nil: "split_ws s \<noteq> []"
proof (induction s)
  case (Cons c cs)
  then show ?case
    by (subst split_ws.simps(2)) (auto simp del: split_ws.simps split: list.split)
qed simp

lemma split_ws_step: "split_ws (c # d # ds) =
    (if is_ws c then (if is_ws d then [] else [[]]) @ split_ws (d # ds)
     else (c # hd (split_ws (d # ds))) # tl (split_ws (d # ds)))"
  using split_ws_not_Nil [of "d # ds"]
  by (simp only: split_ws.simps(2) [of c "d # ds"] list.case) (simp del: split_ws.simps split: list.split)

lemma hd_split_ws: "hd (split_ws s) = [] \<longleftrightarrow> s = [] \<or> is_ws (hd s)"
proof (induction s)
  case (Cons c cs)
  then show ?case by (cases cs) (simp_all del: split_ws.simps add: split_ws_one split_ws_step)
qed simp

lemma tl_split_ws: "[] \<in> set (tl (split_ws s)) \<longleftrightarrow> s \<noteq> [] \<and> is_ws (last s)"
proof (induction s)
  case (Cons c cs)
  obtain w ws where w: "split_ws cs = w # ws" using split_ws_not_Nil [of cs] by (cases "split_ws cs") auto
  show ?case
  proof (cases cs)
    case ds: (Cons d ds)
    have "w = [] \<longleftrightarrow> is_ws d" using hd_split_ws [of cs] w ds by simp
    then show ?thesis using Cons.IH w ds by (auto simp del: split_ws.simps simp add: split_ws_step)
  qed simp
qed simp

lemma split_ws_empty_word: "[] \<in> set (split_ws s) \<longleftrightarrow> s = [] \<or> is_ws (hd s) \<or> is_ws (last s)"
proof -
  have "[] \<in> set ws \<longleftrightarrow> hd ws = [] \<or> [] \<in> set (tl ws)" if "ws \<noteq> []" for ws :: "string list"
    using that by (cases ws) auto
  from this [OF split_ws_not_Nil] show ?thesis
    by (cases "s = []") (simp_all only: hd_split_ws tl_split_ws simp_thms)
qed

lemma search_words_empty: "q \<noteq> [] \<Longrightarrow> [] \<in> set (search_words q) \<longleftrightarrow> is_ws (hd q) \<or> is_ws (last q)"
  by (simp add: search_words_def split_ws_empty_word js_lower_def hd_map last_map del: split_ws.simps)


section \<open>The page\<close>

lemma hl_value:
  "t = [] \<or> [] \<notin> set ws \<Longrightarrow> \<exists>r. hl t ws = Some r"
  "t \<noteq> [] \<Longrightarrow> [] \<in> set ws \<Longrightarrow> hl t ws = None"
  using hl_words_ends hl_words_diverges by (auto simp: hl_def)

lemma first_of_url: "u \<noteq> [] \<Longrightarrow> first_of [a, b, u] \<noteq> []"
  by (simp add: first_of_def)

lemma show_hit_value:
  "[] \<notin> set ws \<Longrightarrow> \<exists>h. show_hit ws r = Some h"
  "h_url r \<noteq> [] \<Longrightarrow> [] \<in> set ws \<Longrightarrow> show_hit ws r = None"
proof -
  assume ws: "[] \<notin> set ws"
  have "\<exists>t. hl x ws = Some t" for x using hl_value(1) ws by blast
  then show "\<exists>h. show_hit ws r = Some h" unfolding show_hit_def Let_def by (metis bind.bind_lunit)
next
  assume "h_url r \<noteq> []" "[] \<in> set ws"
  then show "show_hit ws r = None" using hl_value(2) [OF first_of_url] by (simp add: show_hit_def Let_def)
qed

lemma show_hits_value: "[] \<notin> set ws \<Longrightarrow> \<exists>h. show_hits ws rs = Some h"
proof (induction rs)
  case (Cons r rs)
  obtain h where "show_hit ws r = Some h" using show_hit_value(1) Cons.prems by blast
  then show ?case using Cons by auto
qed simp

text \<open>C16. What the search page inserts as HTML for a text t and a query q, when it inserts anything:
  the escaped text is kept in order, tags are only added, and whatever stands after a < up to
  the next < or > consists of the letters of </em>. So neither a crawled title or description
  nor the query can bring a script, a link or any attribute with a value into the page.
\<close>

theorem search_page_highlight:
  assumes "hl t (search_words q) = Some r"
  shows "tag_safe False r \<and> (t \<noteq> [] \<longrightarrow> subseq (esc t) r)"
proof (cases "t = []")
  case False
  then have words: "hl_words (search_words q) (esc t) = Some r" using assms by (simp add: hl_def)
  show ?thesis using tag_safe_words [OF words tag_safe_esc] subseq_words [OF words] by blast
qed (use assms in \<open>simp add: hl_def\<close>)

theorem search_page_highlight_witness:
  "tag_safe False ''A&lt;<em>b</em>'' \<and> subseq (esc ''A<b'') ''A&lt;<em>b</em>''"
proof -
  have "hl ''A<b'' (search_words ''b'') = Some ''A&lt;<em>b</em>''" by code_simp
  from search_page_highlight [OF this] show ?thesis by simp
qed

text \<open>C17. A search from the form always shows something, whatever the server answers. A search from
  the address of the page shows something when its query has no white space at either end;
  with white space at an end and at least one result the script never ends, since an empty
  word is found at every place of a text.
\<close>

theorem search_page_answers:
  "submit_form api box \<noteq> None \<and>
   (js_trim q = q \<longrightarrow> open_page api (Some q) \<noteq> None) \<and>
   (q \<noteq> [] \<and> (is_ws (hd q) \<or> is_ws (last q)) \<and> api q = Results (r # rs) \<and> h_url r \<noteq> [] \<longrightarrow>
      open_page api (Some q) = None)"
proof -
  have words: "[] \<notin> set (search_words x)" if "js_trim x = x" "x \<noteq> []" for x
    using that js_trim_starts [of x] js_trim_ends [of x] by (simp add: search_words_empty)
  have shown: "doSearch api x \<noteq> None" if "js_trim x = x" "x \<noteq> []" for x
    using show_hits_value [OF words [OF that]] by (auto simp: doSearch_def show_answer_def split: answer.split)
  have "open_page api (Some q) = None"
    if "q \<noteq> []" "is_ws (hd q) \<or> is_ws (last q)" "api q = Results (r # rs)" "h_url r \<noteq> []"
    using that by (simp add: open_page_def doSearch_def show_answer_def search_words_empty show_hit_value(2))
  moreover have "submit_form api box \<noteq> None" using shown [of "js_trim box"] by (simp add: submit_form_def Let_def)
  moreover have "js_trim q = q \<longrightarrow> open_page api (Some q) \<noteq> None" using shown [of q] by (simp add: open_page_def)
  ultimately show ?thesis by blast
qed

theorem search_page_answers_witness:
  "open_page (\<lambda>q. Results [\<lparr>h_url = ''http://a/'', h_domain = ''a'', h_title = ''A'', h_ogTitle = [],
     h_metaDescription = [], h_ogDescription = []\<rparr>]) (Some '' a'') = None"
proof -
  define r where "r = \<lparr>h_url = ''http://a/'', h_domain = ''a'', h_title = ''A'', h_ogTitle = [],
     h_metaDescription = [], h_ogDescription = []\<rparr>"
  have "is_ws (hd '' a'')" "'' a'' \<noteq> []" "h_url r \<noteq> []" by (simp_all add: is_ws_def r_def)
  with search_page_answers [of "\<lambda>q. Results [r]" _ "'' a''" r "[]"] show ?thesis
    unfolding r_def by blast
qed


text \<open>
  The second place of a word is looked up in the text without the tags of the first, and marked
  in the text that has them: the mark lands nine characters too early.
\<close>

lemma highlight_misplaced:
  "hl ''web crawler, web index'' [''web''] = Some ''<em>web</em> <em>cra</em>wler, web index''"
  by code_simp

section \<open>From the form to the backends and back\<close>

text \<open>
  What the columns of each backend become in the results. PostgreSQL folds the unquoted column
  names of the query to lower case, so that the script finds none of the three that have a
  capital letter; SQLite's full-text table and Elasticsearch keep the names.
\<close>

definition sqlite_hit :: "fts_row \<Rightarrow> hit" where
  "sqlite_hit r = \<lparr>h_url = t_url r, h_domain = t_domain r, h_title = t_title r, h_ogTitle = t_ogTitle r,
     h_metaDescription = t_metaDescription r, h_ogDescription = t_ogDescription r\<rparr>"

definition pg_hit :: "node_row \<Rightarrow> hit" where
  "pg_hit n = \<lparr>h_url = n_url n, h_domain = n_domain n, h_title = n_title n, h_ogTitle = [],
     h_metaDescription = [], h_ogDescription = []\<rparr>"

definition es_hit :: "'score es_result \<Rightarrow> hit" where
  "es_hit r = \<lparr>h_url = rs_url r, h_domain = rs_domain r, h_title = rs_title r, h_ogTitle = rs_ogTitle r,
     h_metaDescription = rs_metaDescription r, h_ogDescription = rs_ogDescription r\<rparr>"

text \<open>
  The query of the PostgreSQL branch: \<open>matches\<close> and \<open>rank\<close> are its text search on a document and
  a query, \<open>ord\<close> the order of equal ranks. \<open>searchFts\<close> of src/db-pg.ts is the same on other columns.
\<close>

definition pg_text_search ::
  "(node_row \<Rightarrow> string) \<Rightarrow> (string \<Rightarrow> string \<Rightarrow> bool) \<Rightarrow> (string \<Rightarrow> string \<Rightarrow> int) \<Rightarrow>
   (node_row list \<Rightarrow> node_row list) \<Rightarrow> string \<Rightarrow> nat \<Rightarrow> node_row list \<Rightarrow> node_row list" where
  "pg_text_search doc matches rank ord query limit ns =
    take limit (sort_key (\<lambda>n. - rank (doc n) query) (filter (\<lambda>n. matches (doc n) query) (ord ns)))"

definition pg_search_doc :: "node_row \<Rightarrow> string" where
  "pg_search_doc n = n_title n @ '' '' @ n_metaDescription n @ '' '' @ n_ogTitle n @ '' '' @ n_domain n"

definition pg_searchFts where
  "pg_searchFts = pg_text_search (\<lambda>n. n_title n @ '' '' @ n_description n)"

text \<open>
  The answer of \<open>/api/search\<close> as the script reads it. A text is always replied to, so that the
  first case, a connection that is given up, does not arise from the page.
\<close>

definition answer_of :: "hit search_outcome \<Rightarrow> answer" where
  "answer_of out =
    (case out of
       NoReply \<Rightarrow> Failed ''Failed to fetch''
     | Reply r \<Rightarrow> (case reply_error r of Some e \<Rightarrow> Failed e | None \<Rightarrow> Results (results r)))"

definition browse ::
  "('h, hit) search_env \<Rightarrow> time_ms \<Rightarrow> time_ms \<Rightarrow> CircuitBreaker \<times> 'h search_db \<Rightarrow> string \<Rightarrow> answer" where
  "browse env t0 t1 st q = answer_of (fst (search_handler env t0 t1 (Text q) st))"


definition demo_browser :: "(string, hit) search_env" where
  "demo_browser = \<lparr> es_enabled = False, es_connected = False, es_search = (\<lambda>_. None), se_backend = Pg,
     pg_query = (\<lambda>_. Inr []), db_open = OpenFails, fts_query = (\<lambda>_ _. Inl ()) \<rparr>"


text \<open>On PostgreSQL a result never shows a description: what the columns hold does not matter.\<close>

lemma pg_hides_descriptions:
  "show_hit ws (pg_hit (n\<lparr>n_metaDescription := m, n_ogDescription := g, n_ogTitle := t\<rparr>)) = show_hit ws (pg_hit n)"
  by (simp add: pg_hit_def)

lemma sqlite_shows_descriptions:
  assumes "[] \<notin> set ws" and "t_metaDescription r \<noteq> []"
  shows "\<exists>d h. hl (take 250 (t_metaDescription r)) ws = Some d \<and> show_hit ws (sqlite_hit r) = Some h \<and>
    suffix (''<div class=\"res-s\">'' @ d @ ''</div></div>'') h"
proof -
  obtain d t where "hl (take 250 (t_metaDescription r)) ws = Some d"
    "hl (first_of [t_title r, t_ogTitle r, t_url r]) ws = Some t" using hl_value(1) [OF disjI2 [OF assms(1)]] by blast
  moreover have "first_of [t_metaDescription r, x, []] = t_metaDescription r" for x
    using assms(2) by (simp add: first_of_def)
  ultimately show ?thesis
    by (intro exI [of _ d] exI conjI) (assumption, simp add: show_hit_def sqlite_hit_def Let_def, simp add: suffix_def)
qed

section \<open>Searching an index that nothing fills\<close>

text \<open>The calls of src/elasticsearch.ts that the program makes; nothing calls the two that index pages.\<close>

inductive es_call :: "es_state \<Rightarrow> es_state \<Rightarrow> bool" where
  connect: "es_call s (snd (connectElasticsearch cc ok s))"
| create: "es_call s (fst (snd (initEsIndex cc f g (s, index))))"
| search: "es_call s (snd (searchPages index cc (engine :: int es_engine) q n s))"
| stats: "es_call s (snd (es_getStats cc reply s))"
| close: "es_call s (closeEs s)"

lemma es_call_docs: "es_call s t \<Longrightarrow> es_docs t = es_docs s"
  by (erule es_call.cases)
    (auto simp: connectElasticsearch_def initEsIndex_def searchPages_def es_getStats_def closeEs_def getEsClient_def
      split: if_splits)

interpretation es_program: invariant_system es_call "\<lambda>s. es_docs s = Map.empty" "\<lambda>s. es_docs s = Map.empty"
  by unfold_locales (simp_all add: es_call_docs)

text \<open>With Elasticsearch switched on the search finds nothing: starting from an empty index,
  whatever calls the program makes, every search that reaches a connected Elasticsearch is
  answered with no rows, so that no other backend is asked and the page reports no results,
  however many pages are crawled. The server is assumed to return documents of the index only.
\<close>

theorem es_search_finds_nothing:
  fixes env :: "('h, hit) search_env" and engine :: "'score es_engine"
  assumes reach: "reaches es_call (\<lambda>s. es_docs s = Map.empty) s"
    and engine: "\<And>rq docs. \<exists>hits. engine rq docs = Some hits \<and> fst ` set hits \<subseteq> ran docs"
    and es: "es_enabled env" "es_connected env" "es_isConnected s" "es_client s"
      "es_search env = (\<lambda>q. map_option (map es_hit) (fst (searchPages index cc engine q 30 s)))"
    and q: "js_trim box \<noteq> []"
  shows "submit_form (browse env t0 t1 st) box =
    Some (Some ([], ''<div class=\"nf\">No results for \"'' @ esc (js_trim box) @ ''\"</div>''))"
proof -
  have "es_docs s = Map.empty" using es_program.reaches_inv [OF reach] .
  then have none: "es_search env x = Some []" for x
    using engine [of "es_request_of index x 30" Map.empty] es(3-5) by (auto simp: searchPages_def getEsClient_def)
  have "browse env t0 t1 st (js_trim box) = Results []"
    using none es(1,2) by (simp add: browse_def search_handler_def answer_of_def reply_defs Let_def)
  then show ?thesis using q by (simp add: submit_form_def doSearch_def show_answer_def Let_def)
qed

lemma es_search_finds_nothing_witness:
  "submit_form (browse (demo_browser\<lparr>es_enabled := True, es_connected := True,
      es_search := (\<lambda>q. map_option (map es_hit) (fst (searchPages ''pages'' True (\<lambda>_ _. Some ([] :: (es_document \<times> nat) list)) q 30
        \<lparr>es_client = True, es_isConnected = True, es_docs = Map.empty\<rparr>)))\<rparr>) 0 0 (dbBreaker 0, no_search_db)) ''a'' =
     Some (Some ([], ''<div class=\"nf\">No results for \"a\"</div>''))"
proof -
  let ?s = "\<lparr>es_client = True, es_isConnected = True, es_docs = Map.empty\<rparr>"
  let ?e = "(\<lambda>_ _. Some []) :: nat es_engine"
  let ?env = "demo_browser\<lparr>es_enabled := True, es_connected := True,
    es_search := (\<lambda>q. map_option (map es_hit) (fst (searchPages ''pages'' True ?e q 30 ?s)))\<rparr>"
  have r: "reaches es_call (\<lambda>s. es_docs s = Map.empty) ?s" by (rule reaches_init) simp
  have t: "js_trim ''a'' \<noteq> []" "esc (js_trim ''a'') = ''a''" by code_simp+
  have "submit_form (browse ?env 0 0 (dbBreaker 0, no_search_db)) ''a'' =
      Some (Some ([], ''<div class=\"nf\">No results for \"'' @ esc (js_trim ''a'') @ ''\"</div>''))"
    by (rule es_search_finds_nothing [OF r, where engine = ?e]) (simp_all add: t)
  then show ?thesis unfolding t(2) by simp
qed

end
