(* ===== verification/Dashboard.thy ===== *)
theory Dashboard
  imports Routes Tree CrawlLoop Regex
begin

text \<open>
  The way of the statistics from the crawl loop (the message of src/queue.ts) over the server
  to the two pages that poll it: the scripts of src/dashboard.ts and src/status.ts, which run in
  the browser. How the graph moves and what is drawn is in theory Physics.
\<close>

section \<open>The statistics message\<close>

text \<open>
  \<open>elapsed\<close> and \<open>elapsed'\<close> are the two readings of the clock since the start, in milliseconds.
  A quotient by 0 is not a number, or infinite.
\<close>

definition stats_rate :: "nat \<Rightarrow> nat \<Rightarrow> string" where
  "stats_rate success elapsed =
    (if elapsed = 0 then (if success = 0 then ''NaN'' else ''Infinity'')
     else js_toFixed 1 (double_mul (double_of success elapsed) 1000))"

definition stats_uptime :: "nat \<Rightarrow> nat" where
  "stats_uptime elapsed = fixed_num 1 (double_of elapsed 1000) div 10"

definition stats_message :: "nat \<Rightarrow> nat \<Rightarrow> 's loop \<Rightarrow> stats_msg" where
  "stats_message elapsed elapsed' s =
    (let cs = lp_cs s in
     \<lparr>m_total = Some (cs_nodeCount cs), m_frontier = Some (cs_frontierCount cs),
      m_success = Some (cs_success cs), m_fail = Some (cs_fail cs),
      m_uptime = Some (int (stats_uptime elapsed)), m_domainsChecked = Some (int (card (domainsChecked s))),
      m_rate = Some (stats_rate (nat (cs_success cs)) elapsed'),
      m_domainsBlacklisted = Some (int (card (domainBlacklist cs))),
      m_totalFetchTime = Some (totalFetchTime s), m_concurrency = Some (active s),
      m_domains = Some (domainPop cs)\<rparr>)"

section \<open>The status page\<close>

record check_view =
  hc_live :: bool
  hc_ready :: bool
  hc_db :: bool
  hc_mem :: bool
  hc_crawler :: bool
  statusText :: string
  banner :: string
  memDetail :: "string option"

text \<open>
  The first half of \<open>updateChecks\<close>, on the answer of \<open>/health/ready\<close>; \<open>None\<close> is a failed
  request. The detail of the memory check keeps its text then.
\<close>

definition status_checks :: "(int \<times> (string \<times> bool) list) option \<Rightarrow> check_view" where
  "status_checks ans =
    (case ans of
       Some (code, checks) \<Rightarrow>
         (let ready = (code = 200); check = (\<lambda>k. map_of checks k = Some True) in
          \<lparr>hc_live = True, hc_ready = ready, hc_db = check ''db'', hc_mem = check ''memory'',
           hc_crawler = check ''crawler'',
           statusText = (if ready then ''ALL SYSTEMS OPERATIONAL'' else ''DEGRADED PERFORMANCE''),
           banner = ''status-banner '' @ (if ready then ''ok'' else ''warn''),
           memDetail = Some (if check ''memory'' then ''< 350MB'' else ''Over limit'')\<rparr>)
     | None \<Rightarrow>
         \<lparr>hc_live = False, hc_ready = False, hc_db = False, hc_mem = False, hc_crawler = False,
          statusText = ''SERVICE UNAVAILABLE'', banner = ''status-banner err'', memDetail = None\<rparr>)"

text \<open>Seconds as both pages write them.\<close>

definition uptime_text :: "nat \<Rightarrow> string" where
  "uptime_text up =
    (let m = up div 60; h = m div 60; dd = h div 24 in
     if dd > 0 then js_digits dd @ ''d '' @ js_digits (h mod 24) @ ''h''
     else if h > 0 then js_digits h @ ''h '' @ js_digits (m mod 60) @ ''m''
     else js_digits m @ ''m '' @ js_digits (up mod 60) @ ''s'')"

text \<open>\<open>loc\<close> is \<open>toLocaleString\<close>. The error percentage of a page that saw no fetch differs.\<close>

definition err_pct :: "string \<Rightarrow> cached_stats \<Rightarrow> string" where
  "err_pct none c =
    (let total = cachedSuccess c + cachedFail c in
     if total > 0 then js_toFixed 1 (double_mul (double_of (nat (cachedFail c)) (nat total)) 100) else none)"

record slo_view =
  slo_err :: string
  slo_err_detail :: string
  slo_throughput :: string
  slo_throughput_detail :: string
  slo_domains :: string
  slo_domains_detail :: string
  slo_rss :: "string option"
  sys_uptime :: string
  crawlerDetail :: string

definition mebibytes :: "nat \<Rightarrow> string" where
  "mebibytes bytes = js_digits ((bytes + 524288) div 1048576) @ ''MB''"

definition status_stats :: "(int \<Rightarrow> string) \<Rightarrow> nat \<Rightarrow> stats_body \<Rightarrow> slo_view" where
  "status_stats loc rssBytes b =
    (let c = sb_stats b; rate = cachedRate c in
     \<lparr>slo_err = err_pct ''0.0'' c @ ''%'',
      slo_err_detail = js_int (cachedFail c) @ '' errors / '' @ js_int (cachedSuccess c + cachedFail c) @ '' total'',
      slo_throughput = (if rate = [] then ''0'' else rate) @ '' pg/s'',
      slo_throughput_detail = loc (cachedNodeCount c) @ '' pages indexed'',
      slo_domains = loc (cachedDomainsChecked c),
      slo_domains_detail = js_int (cachedDomainsBlacklisted c) @ '' blacklisted'',
      slo_rss = (if rssBytes = 0 then None else Some (mebibytes rssBytes)),
      sys_uptime = uptime_text (nat (cachedUptime c)),
      crawlerDetail = rate @ '' pg/s, '' @ loc (cachedNodeCount c) @ '' pages''\<rparr>)"

section \<open>The dashboard\<close>

text \<open>\<open>parseFloat\<close> on texts without sign and exponent, as a fraction; \<open>None\<close> is not a number.\<close>

definition js_parseFloat :: "string \<Rightarrow> fraction option" where
  "js_parseFloat s =
    (let t = dropWhile is_ws s; a = takeWhile is_digit t;
         b = (case dropWhile is_digit t of c # r \<Rightarrow> if c = CHR ''.'' then takeWhile is_digit r else [] | [] \<Rightarrow> [])
     in if a = [] \<and> b = [] then None else Some (nat (digits_value 0 (a @ b)), 10 ^ length b))"

text \<open>
  The variables of the script. \<open>'p\<close> is a pair of coordinates; \<open>g_last\<close> is \<open>buildG._l\<close>, undefined
  before the first graph. Names of domains do not collide with properties of every object.
\<close>

record 'p dashboard =
  allN :: "node_row list"
  allEdges :: "TreeEdge list"
  prevU :: "domain set"
  lastA :: "domain set"
  selRoot :: "domain option"
  d_pos :: "domain \<Rightarrow> 'p option"
  d_vel :: "domain \<Rightarrow> 'p option"
  d_nodes :: "node_row list"
  d_edges :: "(domain \<times> domain) list"
  g_last :: "string option"
  errHistory :: "fraction list"
  rateHistory :: "fraction list"
  memHistory :: "nat list"
  s_pages :: string
  s_domains :: int
  memVal :: string

definition load_tree :: "(int \<Rightarrow> string) \<Rightarrow> TreeData \<Rightarrow> 'p dashboard \<Rightarrow> 'p dashboard" where
  "load_tree loc d s =
    (if t_nodes d = [] then s
     else s\<lparr>lastA := n_domain ` set (t_nodes d) - prevU s, allN := t_nodes d, allEdges := t_edges d,
            prevU := n_domain ` set (t_nodes d), s_pages := loc (t_total d),
            s_domains := (if t_domains d = 0 then int (length (t_nodes d)) else t_domains d)\<rparr>)"

text \<open>A click on a node or on a line of the list, and \<open>Show All Sites\<close>.\<close>

definition select_site :: "domain \<Rightarrow> 'p dashboard \<Rightarrow> 'p dashboard" where
  "select_site d s = s\<lparr>selRoot := (if selRoot s = Some d then None else Some d), g_last := Some []\<rparr>"

definition show_all :: "'p dashboard \<Rightarrow> 'p dashboard" where
  "show_all s = s\<lparr>selRoot := None, g_last := Some []\<rparr>"

text \<open>\<open>renderR\<close>: the lines of the list, each with its domain and popularity, and which is marked.\<close>

definition site_list :: "string \<Rightarrow> 'p dashboard \<Rightarrow> (domain \<times> int \<times> bool) list" where
  "site_list filter_text s =
    (let f = js_lower filter_text;
         filt = filter (\<lambda>n. f = [] \<or> js_includes (js_lower (n_domain n)) f \<or> js_includes (js_lower (n_title n)) f) (allN s)
     in map (\<lambda>n. (n_domain n, n_popularity n, selRoot s = Some (n_domain n))) filt)"

text \<open>\<open>buildG\<close>: \<open>spot\<close> gives the random place of a new node, \<open>rest\<close> is the velocity 0.\<close>

definition buildG :: "(domain \<Rightarrow> 'p) \<Rightarrow> 'p \<Rightarrow> node_row list \<Rightarrow> 'p dashboard \<Rightarrow> 'p dashboard" where
  "buildG spot rest dn s =
    (let nm = n_domain ` set dn;
         known = (\<lambda>d. d \<in> nm \<and> d_pos s d \<noteq> None)
     in s\<lparr>d_edges := map (\<lambda>e. (e_src e, e_dst e)) (filter (\<lambda>e. e_src e \<in> nm \<and> e_dst e \<in> nm) (allEdges s)),
          d_pos := (\<lambda>d. if known d then d_pos s d else if d \<in> nm then Some (spot d) else None),
          d_vel := (\<lambda>d. if known d then d_vel s d else if d \<in> nm then Some rest else None),
          d_nodes := dn\<rparr>)"

definition linked :: "TreeEdge list \<Rightarrow> domain \<Rightarrow> domain \<Rightarrow> bool" where
  "linked es a b \<longleftrightarrow> (\<exists>e \<in> set es. (e_src e = a \<and> e_dst e = b) \<or> (e_dst e = a \<and> e_src e = b))"

definition shown_nodes :: "'p dashboard \<Rightarrow> node_row list" where
  "shown_nodes s =
    (case selRoot s of
       Some r \<Rightarrow> take 50 (filter (\<lambda>n. n_domain n = r \<or> linked (allEdges s) r (n_domain n)) (allN s))
     | None \<Rightarrow> take 100 (allN s))"

definition join_comma :: "string list \<Rightarrow> string" where
  "join_comma ds = (case ds of [] \<Rightarrow> [] | d # ds \<Rightarrow> d @ concat (map (\<lambda>x. CHR '','' # x) ds))"

text \<open>\<open>animate\<close> up to the call of \<open>tick\<close>, which moves the nodes.\<close>

definition animate :: "(domain \<Rightarrow> 'p) \<Rightarrow> 'p \<Rightarrow> 'p dashboard \<Rightarrow> 'p dashboard" where
  "animate spot rest s =
    (let dn = shown_nodes s in
     if dn = [] then s
     else (let cu = join_comma (map n_domain dn) in
           if Some cu \<noteq> g_last s then (buildG spot rest dn s)\<lparr>g_last := Some cu\<rparr> else s))"

definition push_history :: "'a \<Rightarrow> 'a list \<Rightarrow> 'a list" where
  "push_history x h = (let h = h @ [x] in if length h > 60 then tl h else h)"

record top_view =
  tb_frontier :: string
  tb_rate :: string
  tb_nodes :: string
  tb_err :: string
  tb_up :: string
  err_colour :: string

definition or_zero :: "fraction option \<Rightarrow> fraction" where
  "or_zero x = (case x of None \<Rightarrow> (0, 1) | Some f \<Rightarrow> f)"

definition above :: "fraction \<Rightarrow> nat \<Rightarrow> bool" where
  "above x n \<longleftrightarrow> n * snd x < fst x"

definition loadStats :: "(int \<Rightarrow> string) \<Rightarrow> stats_body \<Rightarrow> 'p dashboard \<Rightarrow> top_view \<times> 'p dashboard" where
  "loadStats loc b s =
    (let c = sb_stats b; rate = (if cachedRate c = [] then ''0'' else cachedRate c);
         errPct = err_pct ''0'' c; e = or_zero (js_parseFloat errPct)
     in (\<lparr>tb_frontier = loc (cachedFrontierCount c), tb_rate = rate @ '' pg/s'', tb_nodes = loc (cachedNodeCount c),
          tb_err = errPct @ ''%'', tb_up = uptime_text (nat (cachedUptime c)),
          err_colour = (if above e 20 then ''#ff4141'' else if above e 10 then ''#ffaa00'' else ''#00ff41'')\<rparr>,
         s\<lparr>errHistory := push_history e (errHistory s),
           rateHistory := push_history (or_zero (js_parseFloat (cachedRate c))) (rateHistory s)\<rparr>))"

text \<open>The expression of \<open>loadMetrics\<close> is case-sensitive.\<close>

definition exact :: "string \<Rightarrow> rx list" where
  "exact s = map (\<lambda>c. One (\<lambda>x. x = c)) s"

definition rss_name :: string where
  "rss_name = ''webindexer_memory_rss_bytes''"

definition rx_rss :: "rx list" where
  "rx_rss = exact rss_name @ [Many 1 None is_ws, CapBegin, Many 1 None is_digit, CapEnd]"

definition loadMetrics :: "string \<Rightarrow> 'p dashboard \<Rightarrow> 'p dashboard" where
  "loadMetrics t s =
    (case rx_search rx_rss t of
       None \<Rightarrow> s
     | Some (m, _) \<Rightarrow>
         (let mb = (nat (digits_value 0 m) + 524288) div 1048576
          in s\<lparr>memVal := js_digits mb @ ''MB'', memHistory := push_history mb (memHistory s)\<rparr>))"


section \<open>Reading numbers and memory back\<close>

lemma digits_prefix:
  "list_all is_digit a \<Longrightarrow> takeWhile is_digit (a @ s) = a @ takeWhile is_digit s"
  "list_all is_digit a \<Longrightarrow> dropWhile is_digit (a @ s) = dropWhile is_digit s"
  by (induction a) auto

lemma parseFloat_toFixed: "js_parseFloat (js_toFixed (Suc f) x) = Some (fixed_num (Suc f) x, 10 ^ Suc f)"
proof -
  let ?n = "fixed_num (Suc f) x"
  let ?a = "js_digits (?n div 10 ^ Suc f)" and ?b = "low_digits (Suc f) ?n"
  have a: "list_all is_digit ?a" "?a \<noteq> []" and b: "list_all is_digit ?b" "length ?b = Suc f"
    using js_digits_spec low_digits_spec [of "Suc f" ?n 0] by blast+
  have point: "\<not> is_digit CHR ''.''" by (simp add: is_digit_def)
  have "\<not> is_ws (hd ?a)" using a digit_not_ws by (cases ?a) auto
  then have ws: "dropWhile is_ws (?a @ CHR ''.'' # ?b) = ?a @ CHR ''.'' # ?b"
    using a(2) by (intro dropWhile_idem_hd) simp
  have "takeWhile is_digit ?b = ?b" using digits_prefix(1) [OF b(1), of "[]"] by simp
  then have "js_parseFloat (?a @ CHR ''.'' # ?b) = Some (nat (digits_value 0 (?a @ ?b)), 10 ^ length ?b)"
    using a point by (simp only: js_parseFloat_def Let_def ws digits_prefix [OF a(1)]) simp
  moreover have "js_toFixed (Suc f) x = ?a @ CHR ''.'' # ?b" by (simp only: js_toFixed_def Let_def) simp
  ultimately show ?thesis by (simp only: split_digits b(2)) simp
qed


lemma match_exact:
  "rx_match (exact w @ rs) False cap s =
    (if js_startsWith s w then rx_match rs False cap (drop (length w) s) else None)"
proof (induction w arbitrary: s)
  case (Cons c w)
  then show ?case by (cases s) (auto simp: exact_def js_startsWith_def)
qed (simp add: exact_def js_startsWith_def)

lemma search_skip:
  assumes "\<not> js_includes x w" and "w \<noteq> []" and "c \<notin> set w"
  shows "rx_search (exact w @ rs) (x @ c # t) = rx_search (exact w @ rs) t"
  using assms(1)
proof (induction x)
  case Nil
  have "\<not> js_startsWith (c # t) w" using assms(2,3) by (cases w) (auto simp: js_startsWith_def)
  then show ?case by (simp add: match_exact)
next
  case (Cons d x)
  have "\<not> js_startsWith (d # x @ c # t) w"
  proof
    assume starts: "js_startsWith (d # x @ c # t) w"
    have "\<not> js_startsWith (d # x) w" using Cons.prems by simp
    with starts have "length (d # x) < length w"
      by (auto simp: js_startsWith_def take_Cons' split: if_splits)
    then have "take (length w) ((d # x) @ c # t) = (d # x) @ c # take (length w - Suc (length (d # x))) t"
      using assms(2) by (simp add: take_Cons')
    then have "c \<in> set (take (length w) ((d # x) @ c # t))" by simp
    then show False using starts assms(3) by (simp add: js_startsWith_def)
  qed
  then show ?case using Cons by (simp add: match_exact)
qed

lemma search_skip_lines:
  assumes "\<forall>l \<in> set ls. \<not> js_includes l w" and "w \<noteq> []" and "CHR 0x0A \<notin> set w"
  shows "rx_search (exact w @ rs) (concat (map (\<lambda>l. l @ [CHR 0x0A]) ls) @ t) = rx_search (exact w @ rs) t"
  using assms(1)
proof (induction ls)
  case (Cons l ls)
  then show ?case using search_skip [OF _ assms(2,3), of l rs "concat (map (\<lambda>l. l @ [CHR 0x0A]) ls) @ t"] by simp
qed simp

lemma join_lines_app: "ys \<noteq> [] \<Longrightarrow> join_lines (xs @ ys) = concat (map (\<lambda>l. l @ [CHR 0x0A]) xs) @ join_lines ys"
proof (induction xs)
  case (Cons x xs)
  have "join_lines (x # zs) = x @ CHR 0x0A # join_lines zs" if "zs \<noteq> []" for zs
    using that by (cases zs) (simp_all add: join_lines_def)
  then show ?case using Cons by simp
qed simp

text \<open>A value whose characters do not end the word cannot complete an occurrence of it.\<close>

lemma includes_value:
  assumes "last w \<notin> set v" and "w \<noteq> []" and "js_includes (x @ v) w"
  shows "js_includes x w"
  using assms(3)
proof (induction x)
  case Nil
  have "\<not> js_includes v w" using assms(1)
  proof (induction v)
    case (Cons c v)
    have "last w \<in> set (c # v)" if "js_startsWith (c # v) w"
      using that assms(2) last_in_set [of w] set_take_subset [of "length w" "c # v"]
      unfolding js_startsWith_def by (metis subsetD)
    then have "\<not> js_startsWith (c # v) w" using Cons.prems by blast
    then show ?case using Cons by simp
  qed (use assms(2) in simp)
  then show ?case using Nil by simp
next
  case (Cons c x)
  have "js_startsWith (c # x) w" if "js_startsWith (c # x @ v) w"
  proof -
    have "prefix w ((c # x) @ v)" using that by (simp add: js_startsWith_prefix)
    then obtain r where r: "(c # x) @ v = w @ r" by (rule prefixE)
    then consider us where "c # x = w @ us" | us where "(c # x) @ us = w" "v = us @ r" "us \<noteq> []"
      unfolding append_eq_append_conv2 by (metis append_Nil2)
    then show ?thesis
    proof cases
      case 2
      then have "last w \<in> set v" by (metis Un_iff last_appendR last_in_set set_append)
      then show ?thesis using assms(1) by simp
    qed (simp add: js_startsWith_prefix)
  qed
  then show ?case using Cons by auto
qed


definition early_metrics :: "(string \<times> string \<times> string) list" where
  "early_metrics =
    [(''webindexer_nodes_total'', ''Total indexed nodes'', ''gauge''),
     (''webindexer_frontier_total'', ''URLs in frontier'', ''gauge''),
     (''webindexer_success_total'', ''Total successful fetches'', ''counter''),
     (''webindexer_fail_total'', ''Total failed fetches'', ''counter''),
     (''webindexer_error_rate_pct'', ''Error rate percentage'', ''gauge''),
     (''webindexer_domains_total'', ''Total unique domains checked'', ''gauge''),
     (''webindexer_domains_blacklisted'', ''Auto-blacklisted domains'', ''gauge''),
     (''webindexer_pages_per_second'', ''Crawl throughput'', ''gauge''),
     (''webindexer_avg_fetch_latency_ms'', ''Average fetch latency'', ''gauge''),
     (''webindexer_concurrency'', ''Current concurrent fetches'', ''gauge''),
     (''webindexer_uptime_seconds'', ''Uptime in seconds'', ''gauge''),
     (''webindexer_cpu_load'', ''Average CPU load'', ''gauge'')]"

lemma early_metrics_free:
  "list_all (\<lambda>(name, descr, kind).
     \<not> js_includes (''# HELP '' @ name @ '' '' @ descr) rss_name \<and>
     \<not> js_includes (''# TYPE '' @ name @ '' '' @ kind) rss_name \<and> \<not> js_includes (name @ '' '') rss_name) early_metrics"
  by code_simp

lemma crawl_metrics_split:
  "\<exists>vs kb. crawl_metrics now p c = map (\<lambda>((name, descr, kind), v). (name, descr, kind, v)) (zip early_metrics vs) @
      [(rss_name, ''Resident set size in bytes'', ''gauge'', js_digits (mem_rss p)),
       (''webindexer_memory_heap_used_bytes'', ''Heap used in bytes'', ''gauge'', kb)] \<and>
    (\<forall>v \<in> set vs. CHR ''s'' \<notin> set v)"
proof -
  have val: "CHR ''s'' \<notin> set v" if "list_all num_char v" for v
    using that by (auto simp: list_all_iff num_char_def is_digit_def)
  let ?up = "(now - startTime p) div 1000"
  let ?vs = "[js_int (cachedNodeCount c), js_int (cachedFrontierCount c), js_int (cachedSuccess c),
    js_int (cachedFail c), metric_errPct c, js_int (cachedDomainsChecked c), js_int (cachedDomainsBlacklisted c),
    metric_rate ?up c, metric_avgLatency c, js_int (cachedConcurrency c), js_int ?up, cpu_usage p]"
  have "\<forall>v \<in> set ?vs. CHR ''s'' \<notin> set v"
    using val [OF num_chars(2)] val [OF num_chars(3)]
    by (simp add: cpu_usage_def metric_rate_def metric_errPct_def metric_avgLatency_def Let_def)
  moreover have "crawl_metrics now p c = map (\<lambda>((name, descr, kind), v). (name, descr, kind, v)) (zip early_metrics ?vs) @
      [(rss_name, ''Resident set size in bytes'', ''gauge'', js_digits (mem_rss p)),
       (''webindexer_memory_heap_used_bytes'', ''Heap used in bytes'', ''gauge'', js_digits (mem_heapUsed p))]"
    by (simp only: crawl_metrics_def early_metrics_def rss_name_def Let_def zip_Cons_Cons zip_Nil list.map
        prod.case append_Cons append_Nil)
  ultimately show ?thesis by blast
qed

lemma early_lines_free:
  assumes "\<forall>v \<in> set vs. CHR ''s'' \<notin> set v"
    and "m \<in> set (map (\<lambda>((name, descr, kind), v). (name, descr, kind, v)) (zip early_metrics vs))"
    and "l \<in> set (metric_lines m)"
  shows "\<not> js_includes l rss_name"
proof -
  obtain name descr kind v where "m = (name, descr, kind, v)"
    and z: "((name, descr, kind), v) \<in> set (zip early_metrics vs)"
    using assms(2) by auto
  then have m: "m = (name, descr, kind, v)" "(name, descr, kind) \<in> set early_metrics" "v \<in> set vs"
    using set_zip_leftD [OF z] set_zip_rightD [OF z] by simp_all
  have "last rss_name \<notin> set v" "rss_name \<noteq> []" using assms(1) m(3) by (auto simp: rss_name_def)
  then have "js_includes (name @ '' '') rss_name" if "js_includes ((name @ '' '') @ v) rss_name"
    using includes_value that by blast
  moreover have "\<not> js_includes (''# HELP '' @ name @ '' '' @ descr) rss_name"
     "\<not> js_includes (''# TYPE '' @ name @ '' '' @ kind) rss_name" "\<not> js_includes (name @ '' '') rss_name"
    using early_metrics_free m(2) unfolding list_all_iff by blast+
  moreover have "l = ''# HELP '' @ name @ '' '' @ descr \<or> l = ''# TYPE '' @ name @ '' '' @ kind \<or> l = (name @ '' '') @ v"
    using assms(3) by (simp add: m(1) metric_lines_def)
  ultimately show ?thesis by blast
qed


lemma separated_app:
  "separated (map metric_lines ms @ b # bs) = concat (map (\<lambda>m. metric_lines m @ [[]]) ms) @ separated (b # bs)"
proof (induction ms)
  case (Cons m ms)
  then show ?case by (cases "map metric_lines ms @ b # bs") simp_all
qed simp

lemma separated_two:
  "separated (map metric_lines (ms @ [a, b])) =
    concat (map (\<lambda>m. metric_lines m @ [[]]) ms) @ metric_lines a @ [] # metric_lines b"
  using separated_app [of ms "metric_lines a" "[metric_lines b]"] by simp

lemma lines_all:
  "(\<And>m l. m \<in> set ms \<Longrightarrow> l \<in> set (metric_lines m) \<Longrightarrow> P l) \<Longrightarrow> P [] \<Longrightarrow>
    \<forall>l \<in> set (concat (map (\<lambda>m. metric_lines m @ [[]]) ms)). P l"
  by auto

lemma rss_sample:
  assumes "list_all is_digit v" and "v \<noteq> []"
  shows "rx_search rx_rss (rss_name @ CHR '' '' # v @ CHR 0x0A # t) = Some (v, CHR 0x0A # t)"
proof -
  have d: "takeWhile is_digit (v @ CHR 0x0A # t) = v"
    using digits_prefix(1) [OF assms(1), of "CHR 0x0A # t"] by (simp add: is_digit_def)
  have ws: "takeWhile is_ws (v @ CHR 0x0A # t) = []" using assms digit_not_ws by (cases v) auto
  obtain k where k: "length v = Suc k" using assms(2) by (cases v) auto
  have "rx_match [Many 1 None is_digit, CapEnd] True [] (v @ CHR 0x0A # t) = Some (v, CHR 0x0A # t)"
    by (simp add: greedy_len_def d k)
  then have "rx_match [Many 1 None is_ws, CapBegin, Many 1 None is_digit, CapEnd] False [] (CHR '' '' # v @ CHR 0x0A # t) =
      Some (v, CHR 0x0A # t)"
    by (simp add: greedy_len_def ws is_ws_def)
  then have "rx_match rx_rss False [] (rss_name @ CHR '' '' # v @ CHR 0x0A # t) = Some (v, CHR 0x0A # t)"
    unfolding rx_rss_def match_exact by (simp add: js_startsWith_def)
  then show ?thesis by (simp add: rss_name_def)
qed

lemma rss_comment:
  assumes "\<not> is_ws d" and "\<not> is_digit d" and "\<not> js_includes x rss_name"
    and "\<not> js_includes (tl rss_name @ CHR '' '' # d # y) rss_name"
  shows "rx_search rx_rss (x @ CHR '' '' # rss_name @ CHR '' '' # d # y @ CHR 0x0A # t) = rx_search rx_rss t"
proof -
  have plain: "rss_name \<noteq> []" "CHR '' '' \<notin> set rss_name" "CHR 0x0A \<notin> set rss_name" by (simp_all add: rss_name_def)
  have "rx_match rx_rss False [] (rss_name @ CHR '' '' # d # y @ CHR 0x0A # t) = None"
    using assms(1,2) unfolding rx_rss_def match_exact
    by (simp add: js_startsWith_def greedy_len_def is_ws_def [of "CHR '' ''"])
  then have "rx_search rx_rss (rss_name @ CHR '' '' # d # y @ CHR 0x0A # t) =
      rx_search rx_rss (tl rss_name @ CHR '' '' # d # y @ CHR 0x0A # t)"
    by (simp add: rss_name_def)
  also have "\<dots> = rx_search rx_rss t"
    using search_skip [OF assms(4) plain(1,3)] unfolding rx_rss_def by simp
  finally show ?thesis using search_skip [OF assms(3) plain(1,2)] unfolding rx_rss_def by simp
qed

lemma rss_of_metrics:
  "\<exists>rest. rx_search rx_rss (fst (getMetrics now p c reg)) = Some (js_digits (mem_rss p), rest)"
proof -
  obtain vs kb where cm: "crawl_metrics now p c =
      map (\<lambda>((name, descr, kind), v). (name, descr, kind, v)) (zip early_metrics vs) @
      [(rss_name, ''Resident set size in bytes'', ''gauge'', js_digits (mem_rss p)),
       (''webindexer_memory_heap_used_bytes'', ''Heap used in bytes'', ''gauge'', kb)]"
    and vs: "\<forall>v \<in> set vs. CHR ''s'' \<notin> set v" using crawl_metrics_split by blast
  let ?ms = "map (\<lambda>((name, descr, kind), v). (name, descr, kind, v)) (zip early_metrics vs)"
  let ?early = "concat (map (\<lambda>m. metric_lines m @ [[]]) ?ms)"
  let ?v = "js_digits (mem_rss p)"
  obtain bl where bl: "fst (getMetrics now p c reg) = join_lines (separated (map metric_lines (crawl_metrics now p c)) @ bl)"
    by (auto simp: getMetrics_def split_beta)
  define tail where "tail = [] # metric_lines (''webindexer_memory_heap_used_bytes'', ''Heap used in bytes'', ''gauge'', kb) @ bl"
  define rest where "rest = join_lines tail"
  let ?hlp = "''# HELP '' @ rss_name @ '' '' @ ''Resident set size in bytes''"
  let ?type = "''# TYPE '' @ rss_name @ '' '' @ ''gauge''"
  let ?here = "[?hlp, ?type, rss_name @ '' '' @ ?v]"
  have rss_lines: "metric_lines (rss_name, ''Resident set size in bytes'', ''gauge'', ?v) = ?here"
    by (simp add: metric_lines_def)
  have "separated (map metric_lines (crawl_metrics now p c)) @ bl = ?early @ ?here @ tail"
    unfolding cm separated_two tail_def rss_lines by simp
  then have page: "fst (getMetrics now p c reg) = concat (map (\<lambda>l. l @ [CHR 0x0A]) ?early) @
      ?hlp @ CHR 0x0A # ?type @ CHR 0x0A # rss_name @ CHR '' '' # ?v @ CHR 0x0A # rest"
    using join_lines_app [of "?here @ tail" ?early] join_lines_app [of tail ?here]
    unfolding bl by (simp add: tail_def rest_def)
  have plain: "rss_name \<noteq> []" "CHR 0x0A \<notin> set rss_name" "\<not> js_includes [] rss_name" by (simp_all add: rss_name_def)
  have comment: "\<not> is_ws CHR ''R''" "\<not> is_digit CHR ''R''" "\<not> js_includes ''# HELP'' rss_name"
    "\<not> js_includes (tl rss_name @ CHR '' '' # CHR ''R'' # ''esident set size in bytes'') rss_name"
    "\<not> is_ws CHR ''g''" "\<not> is_digit CHR ''g''" "\<not> js_includes ''# TYPE'' rss_name"
    "\<not> js_includes (tl rss_name @ CHR '' '' # CHR ''g'' # ''auge'') rss_name"
    by code_simp+
  have "\<forall>l \<in> set ?early. \<not> js_includes l rss_name"
    using lines_all [of ?ms "\<lambda>l. \<not> js_includes l rss_name"] early_lines_free [OF vs] plain(3) by blast
  then have "rx_search rx_rss (fst (getMetrics now p c reg)) =
      rx_search rx_rss (?hlp @ CHR 0x0A # ?type @ CHR 0x0A # rss_name @ CHR '' '' # ?v @ CHR 0x0A # rest)"
    unfolding page rx_rss_def by (intro search_skip_lines) (use plain in auto)
  also have "\<dots> = rx_search rx_rss (?type @ CHR 0x0A # rss_name @ CHR '' '' # ?v @ CHR 0x0A # rest)"
    using rss_comment [OF comment(1-4)] by simp
  also have "\<dots> = rx_search rx_rss (rss_name @ CHR '' '' # ?v @ CHR 0x0A # rest)"
    using rss_comment [OF comment(5-8)] by simp
  also have "\<dots> = Some (?v, CHR 0x0A # rest)"
    using js_digits_spec by (intro rss_sample) blast+
  finally show ?thesis by blast
qed


section \<open>The graph\<close>

definition new_dashboard :: "'p dashboard \<Rightarrow> bool" where
  "new_dashboard s \<longleftrightarrow> allN s = [] \<and> allEdges s = [] \<and> selRoot s = None \<and> d_pos s = (\<lambda>_. None) \<and>
    d_vel s = (\<lambda>_. None) \<and> d_nodes s = [] \<and> d_edges s = [] \<and> g_last s = None \<and>
    errHistory s = [] \<and> rateHistory s = [] \<and> memHistory s = []"

text \<open>Answers, clicks and frames; the last rule is any movement of the nodes that \<open>tick\<close> can make.\<close>

inductive dash_step :: "'p dashboard \<Rightarrow> 'p dashboard \<Rightarrow> bool" where
  tree: "dash_step s (load_tree loc d s)"
| stats: "dash_step s (snd (loadStats loc b s))"
| metrics: "dash_step s (loadMetrics t s)"
| click: "dash_step s (select_site x s)"
| all: "dash_step s (show_all s)"
| frame: "dash_step s (animate spot rest s)"
| move: "dom p = dom (d_pos s) \<Longrightarrow> dom v = dom (d_vel s) \<Longrightarrow> dash_step s (s\<lparr>d_pos := p, d_vel := v\<rparr>)"

inductive_cases dash_stepE: "dash_step s t"

definition graph_ok :: "'p dashboard \<Rightarrow> bool" where
  "graph_ok s \<longleftrightarrow>
    dom (d_pos s) = n_domain ` set (d_nodes s) \<and> dom (d_vel s) = n_domain ` set (d_nodes s) \<and>
    (\<forall>(a, b) \<in> set (d_edges s). a \<in> n_domain ` set (d_nodes s) \<and> b \<in> n_domain ` set (d_nodes s)) \<and>
    length (d_nodes s) \<le> 100 \<and> length (errHistory s) \<le> 60 \<and> length (rateHistory s) \<le> 60 \<and>
    length (memHistory s) \<le> 60"

lemma push_history_length: "length h \<le> 60 \<Longrightarrow> length (push_history x h) \<le> 60"
  by (simp add: push_history_def Let_def)

lemma push_history_last: "last (push_history x h) = x"
  by (cases h) (simp_all add: push_history_def Let_def)

lemma shown_nodes_length: "length (shown_nodes s) \<le> 100"
  by (auto simp: shown_nodes_def split: option.split)

lemma buildG_ok: "graph_ok s \<Longrightarrow> length dn \<le> 100 \<Longrightarrow> graph_ok (buildG spot rest dn s)"
  by (auto simp: graph_ok_def buildG_def Let_def dom_def set_eq_iff)

lemma graph_ok_step: "graph_ok s \<Longrightarrow> dash_step s t \<Longrightarrow> graph_ok t"
proof (erule dash_step.cases)
  fix spot rest and s' :: "'a dashboard"
  assume "graph_ok s" "s = s'" "t = animate spot rest s'"
  then show "graph_ok t"
    using buildG_ok [OF _ shown_nodes_length, of s spot rest s]
    by (auto simp: animate_def Let_def graph_ok_def [of "_\<lparr>g_last := _\<rparr>"] graph_ok_def [of "buildG _ _ _ _"])
qed (auto simp: graph_ok_def load_tree_def loadStats_def loadMetrics_def select_site_def show_all_def Let_def
  push_history_length split: option.split)

interpretation dash: invariant_system dash_step new_dashboard graph_ok
  by unfold_locales (simp add: new_dashboard_def graph_ok_def, rule graph_ok_step)

definition demo_dashboard :: "int dashboard" where
  "demo_dashboard = \<lparr>allN = [], allEdges = [], prevU = {}, lastA = {}, selRoot = None, d_pos = (\<lambda>_. None),
     d_vel = (\<lambda>_. None), d_nodes = [], d_edges = [], g_last = None, errHistory = [], rateHistory = [],
     memHistory = [], s_pages = [], s_domains = 0, memVal = []\<rparr>"

definition demo_tree :: "TreeEdge list \<Rightarrow> TreeData" where
  "demo_tree es = \<lparr>t_nodes = nodes demo_pages, t_edges = es, t_total = 2, t_domains = 2\<rparr>"

lemma demo_start: "reaches dash_step new_dashboard demo_dashboard"
  by (rule reaches_init) (simp add: new_dashboard_def demo_dashboard_def)

lemma demo_tree_domains:
  "map n_domain (t_nodes (demo_tree es)) = [''a.org'', ''b.org'']" "t_nodes (demo_tree es) \<noteq> []"
  by (simp_all add: demo_tree_def demo_pages_def node_of_page_def demo_page_def empty_sqlite_def)

text \<open>The graph on the dashboard is always well formed: whatever answers, clicks, frames and
  movements happen, at most 100 sites are drawn, each with a place and a velocity, every line
  joins two of them, and the histories behind the charts stay at 60 values. A new frame does
  not move a site that it keeps.
\<close>

theorem dashboard_graph:
  assumes "reaches dash_step new_dashboard s"
  shows "length (d_nodes s) \<le> 100 \<and>
    (\<forall>n \<in> set (d_nodes s). d_pos s (n_domain n) \<noteq> None \<and> d_vel s (n_domain n) \<noteq> None) \<and>
    (\<forall>(a, b) \<in> set (d_edges s). d_pos s a \<noteq> None \<and> d_pos s b \<noteq> None) \<and>
    length (errHistory s) \<le> 60 \<and> length (rateHistory s) \<le> 60 \<and> length (memHistory s) \<le> 60 \<and>
    (\<forall>d \<in> n_domain ` set (d_nodes s) \<inter> n_domain ` set (d_nodes (animate spot rest s)).
       d_pos (animate spot rest s) d = d_pos s d \<and> d_vel (animate spot rest s) d = d_vel s d)"
proof -
  have ok: "graph_ok s" using dash.reaches_inv [OF assms] .
  then have pos: "d_pos s d \<noteq> None \<longleftrightarrow> d \<in> n_domain ` set (d_nodes s)"
    and vel: "d_vel s d \<noteq> None \<longleftrightarrow> d \<in> n_domain ` set (d_nodes s)" for d
    unfolding graph_ok_def by (metis domIff)+
  have "\<forall>d \<in> n_domain ` set (d_nodes s) \<inter> n_domain ` set (d_nodes (animate spot rest s)).
      d_pos (animate spot rest s) d = d_pos s d \<and> d_vel (animate spot rest s) d = d_vel s d"
    using pos by (auto simp: animate_def buildG_def Let_def)
  moreover have "\<forall>(a, b) \<in> set (d_edges s). d_pos s a \<noteq> None \<and> d_pos s b \<noteq> None"
    using ok unfolding graph_ok_def pos by blast
  moreover have "\<forall>n \<in> set (d_nodes s). d_pos s (n_domain n) \<noteq> None \<and> d_vel s (n_domain n) \<noteq> None"
    unfolding pos vel by blast
  ultimately show ?thesis using ok unfolding graph_ok_def by blast
qed

lemma animate_same: "g_last s = Some (join_comma (map n_domain (shown_nodes s))) \<Longrightarrow> animate spot rest s = s"
  by (simp add: animate_def Let_def)

lemma dashboard_graph_witness:
  "d_pos (animate (\<lambda>_. 7) 0 (load_tree (\<lambda>_. []) (demo_tree []) demo_dashboard)) ''a.org'' \<noteq> None"
proof -
  let ?s = "animate (\<lambda>_. 7) 0 (load_tree (\<lambda>_. []) (demo_tree []) demo_dashboard)"
  have r: "reaches dash_step new_dashboard ?s"
    using reaches_step [OF reaches_step [OF demo_start dash_step.tree] dash_step.frame] .
  have pos: "d_pos ?s (n_domain n) \<noteq> None" if "n \<in> set (d_nodes ?s)" for n
    using dashboard_graph [OF r, of "\<lambda>_. 7" 0] that by blast
  have "d_nodes ?s = take 100 (t_nodes (demo_tree []))"
    using demo_tree_domains [of "[]"]
    by (auto simp: animate_def load_tree_def shown_nodes_def buildG_def Let_def demo_dashboard_def)
  then have "map n_domain (d_nodes ?s) = [''a.org'', ''b.org'']"
    unfolding take_map [symmetric] by (simp add: take_map [symmetric] demo_tree_domains)
  then have "''a.org'' \<in> set (map n_domain (d_nodes ?s))" by (simp only: list.set_intros)
  then obtain n where "n \<in> set (d_nodes ?s)" "n_domain n = ''a.org''" unfolding set_map by force
  with pos show ?thesis by metis
qed

text \<open>New links stay invisible: once a frame has drawn the sites, an answer of /api/tree with the
  same first 100 sites changes no line of the graph, however its links differ, until the list
  of sites changes or somebody clicks; after \<open>Show All Sites\<close> the links of the answer are drawn.
\<close>

theorem dashboard_stale_edges:
  fixes s :: "'p dashboard"
  assumes "g_last s = Some (join_comma (map n_domain (shown_nodes s)))" and "selRoot s = None"
    and "t_nodes d \<noteq> []" and "map n_domain (take 100 (t_nodes d)) = map n_domain (take 100 (allN s))"
    and "n_domain (hd (t_nodes d)) \<noteq> []"
  shows "animate spot rest (load_tree loc d s) = load_tree loc d s \<and>
    d_edges (animate spot rest (load_tree loc d s)) = d_edges s \<and>
    d_edges (animate spot rest (show_all (load_tree loc d s))) =
      map (\<lambda>e. (e_src e, e_dst e)) (filter (\<lambda>e. e_src e \<in> n_domain ` set (take 100 (t_nodes d)) \<and>
        e_dst e \<in> n_domain ` set (take 100 (t_nodes d))) (t_edges d))"
proof -
  let ?t = "load_tree loc d s"
  have t: "allN ?t = t_nodes d" "allEdges ?t = t_edges d" "selRoot ?t = None" "g_last ?t = g_last s" "d_edges ?t = d_edges s"
    using assms(2,3) by (simp_all add: load_tree_def)
  have "g_last ?t = Some (join_comma (map n_domain (shown_nodes ?t)))"
    using assms(1,2,4) t by (simp add: shown_nodes_def)
  then have same: "animate spot rest ?t = ?t" by (rule animate_same)
  have "join_comma (map n_domain (take 100 (t_nodes d))) \<noteq> []"
    using assms(3,5) by (cases "t_nodes d") (simp_all add: join_comma_def)
  then have "d_edges (animate spot rest (show_all ?t)) =
      d_edges (buildG spot rest (take 100 (t_nodes d)) (show_all ?t))"
    using assms(3) t by (simp add: animate_def shown_nodes_def show_all_def Let_def)
  then show ?thesis using same t by (simp add: buildG_def show_all_def Let_def)
qed

lemma dashboard_stale_edges_witness:
  "d_edges (animate (\<lambda>_. 7) 0 (load_tree (\<lambda>_. []) (demo_tree [\<lparr>e_src = ''a.org'', e_dst = ''b.org'', e_w = 1\<rparr>])
     (animate (\<lambda>_. 7) 0 (load_tree (\<lambda>_. []) (demo_tree []) demo_dashboard)))) = []"
proof -
  let ?s = "animate (\<lambda>_. 7) 0 (load_tree (\<lambda>_. []) (demo_tree []) demo_dashboard)"
  let ?d = "demo_tree [\<lparr>e_src = ''a.org'', e_dst = ''b.org'', e_w = 1\<rparr>]"
  have sel: "selRoot ?s = None" "allN ?s = t_nodes (demo_tree [])" "d_edges ?s = []"
    and last: "g_last ?s = Some (join_comma (map n_domain (shown_nodes ?s)))"
    using demo_tree_domains [of "[]"]
    by (auto simp: animate_def load_tree_def shown_nodes_def buildG_def Let_def demo_dashboard_def demo_tree_def)
  have "n_domain (hd (t_nodes ?d)) \<noteq> []"
    using hd_map [OF demo_tree_domains(2), of n_domain] unfolding demo_tree_domains(1) by simp
  moreover have "map n_domain (take 100 (t_nodes ?d)) = map n_domain (take 100 (allN ?s))"
    unfolding sel(2) take_map [symmetric] demo_tree_domains(1) ..
  ultimately show ?thesis
    using dashboard_stale_edges [OF last sel(1) demo_tree_domains(2), of "[\<lparr>e_src = ''a.org'', e_dst = ''b.org'', e_w = 1\<rparr>]"
      "\<lambda>_. 7" 0 "\<lambda>_. []"] unfolding sel(3) by blast
qed

section \<open>From the crawler to the pages\<close>

text \<open>The memory on the dashboard is the server's: whatever the counters, the breakers and their
  names, the expression that the dashboard searches the text of /metrics with passes over
  every other metric and every comment and finds the resident size, so that the page shows
  it in megabytes, rounded to the nearest.
\<close>

theorem dashboard_memory:
  "memVal (loadMetrics (fst (getMetrics now p c reg)) s) = js_digits ((mem_rss p + 524288) div 1048576) @ ''MB'' \<and>
   last (memHistory (loadMetrics (fst (getMetrics now p c reg)) s)) = (mem_rss p + 524288) div 1048576"
proof -
  obtain rest where "rx_search rx_rss (fst (getMetrics now p c reg)) = Some (js_digits (mem_rss p), rest)"
    using rss_of_metrics by blast
  moreover have "nat (digits_value 0 (js_digits (mem_rss p))) = mem_rss p" using js_digits_spec [of "mem_rss p"] by simp
  ultimately show ?thesis by (simp add: loadMetrics_def Let_def push_history_last)
qed

text \<open>The status page tells what the readiness check found, and nothing about the rest: its banner
  is green exactly when the server answers 200, its database and crawler lights are those of
  the check, and a failed request turns everything off. Its memory light is on below 500 MB, next
  to the words \<open>< 350MB\<close>. A breaker or a backend that is down changes the banner and the light
  of readiness only.
\<close>

theorem status_page_truth:
  fixes backend now out select_ok env w reg sdb
  defines "ans \<equiv> fst (health_ready backend now out select_ok env w (reg, sdb))"
  defines "v \<equiv> status_checks (Some ans)"
  shows "(hc_ready v \<longleftrightarrow> fst ans = 200) \<and> (statusText v = ''ALL SYSTEMS OPERATIONAL'' \<longleftrightarrow> fst ans = 200) \<and>
    hc_live v \<and> hc_db v = fst (checkDbHealth backend now out select_ok sdb) \<and> hc_crawler v = workerAlive w \<and>
    (hc_mem v \<longleftrightarrow> rss env < 524288000) \<and> (memDetail v = Some ''< 350MB'' \<longleftrightarrow> rss env < 524288000) \<and>
    \<not> hc_live (status_checks None) \<and> \<not> hc_ready (status_checks None) \<and> \<not> hc_db (status_checks None)"
proof -
  have keys: "map_of (snd ans) ''db'' = Some (fst (checkDbHealth backend now out select_ok sdb))"
    "map_of (snd ans) ''crawler'' = Some (workerAlive w)" "map_of (snd ans) ''memory'' = Some (rss env < 524288000)"
    by (simp_all add: ans_def health_ready_def split_beta Let_def)
  show ?thesis
    unfolding v_def by (simp add: status_checks_def split_beta Let_def keys)
qed


definition demo_counts :: "sqlite_store loop" where
  "demo_counts = startCrawlLoop sqlite_statements empty_sqlite
     (new_CrawlState\<lparr>cs_success := 3, cs_fail := 1, cs_nodeCount := 3\<rparr>)"


end
