(* ===== verification/Deploy.thy ===== *)
theory Deploy
  imports Prelude
begin

text \<open>
  vps.ts: the deployment over SSH. The local files are a tree; the remote machine is a set of
  directories, the files, and the commands it was told to run, newest last. What fails there is
  an argument: \<open>run\<close> never reports it, an upload does. The pauses between the steps are left out.
\<close>

section \<open>Files and the remote machine\<close>

type_synonym path = "string list"

datatype local_file = File string | Folder "(string \<times> local_file) list"

type_synonym folder = "(string \<times> local_file) list"

fun at_path :: "folder \<Rightarrow> path \<Rightarrow> local_file option" where
  "at_path es [] = Some (Folder es)"
| "at_path es [n] = map_of es n"
| "at_path es (n # m # p) = (case map_of es n of Some (Folder sub) \<Rightarrow> at_path sub (m # p) | _ \<Rightarrow> None)"

record vps =
  v_dirs :: "path set"
  v_files :: "path \<rightharpoonup> string"
  v_log :: "string list"

text \<open>\<open>put_fails\<close> is the connection: writing a file also fails when its directory is missing.\<close>

record vps_env =
  mkdir_fails :: "path \<Rightarrow> bool"
  put_fails :: "path \<Rightarrow> bool"

definition path_text :: "path \<Rightarrow> string" where
  "path_text p = concat (map (\<lambda>n. CHR ''/'' # n) p)"

definition run_cmd :: "string \<Rightarrow> vps \<Rightarrow> vps" where
  "run_cmd cmd s = s\<lparr>v_log := v_log s @ [cmd]\<rparr>"

definition mkdir_p :: "vps_env \<Rightarrow> path \<Rightarrow> vps \<Rightarrow> vps" where
  "mkdir_p env p s =
    (let s = run_cmd (''mkdir -p '' @ path_text p) s
     in if mkdir_fails env p then s else s\<lparr>v_dirs := v_dirs s \<union> {q. prefix q p}\<rparr>)"

text \<open>The result of an asynchronous function: done, rejected, or the whole process gone.\<close>

datatype step_end = Done | Rejected | Exited int

definition upload :: "vps_env \<Rightarrow> local_file option \<Rightarrow> path \<Rightarrow> vps \<Rightarrow> step_end \<times> vps" where
  "upload env local remote s =
    (case local of
       Some (File c) \<Rightarrow>
         if put_fails env remote \<or> butlast remote \<notin> v_dirs s then (Rejected, s)
         else (Done, s\<lparr>v_files := (v_files s)(remote \<mapsto> c)\<rparr>)
     | _ \<Rightarrow> (Rejected, s))"

definition and_then :: "step_end \<times> vps \<Rightarrow> (vps \<Rightarrow> step_end \<times> vps) \<Rightarrow> step_end \<times> vps" where
  "and_then r k = (case r of (Done, s) \<Rightarrow> k s | (e, s) \<Rightarrow> (e, s))"

section \<open>Uploading\<close>

definition skipped :: "string \<Rightarrow> bool" where
  "skipped n \<longleftrightarrow> n = ''node_modules'' \<or> n = ''.git''"

text \<open>The entries of a folder, in the order of the directory.\<close>

function upload_entries :: "vps_env \<Rightarrow> path \<Rightarrow> folder \<Rightarrow> vps \<Rightarrow> step_end \<times> vps" where
  "upload_entries env r [] s = (Done, s)"
| "upload_entries env r ((n, f) # es) s =
    (if skipped n then upload_entries env r es s
     else and_then
       (case f of
          Folder sub \<Rightarrow> upload_entries env (r @ [n]) sub (mkdir_p env (r @ [n]) s)
        | File c \<Rightarrow> upload env (Some f) (r @ [n]) s)
       (upload_entries env r es))"
  by pat_completeness auto
termination
  by (relation "measure (\<lambda>(env, r, es, s). size_list (size_prod (\<lambda>_. 0) size) es)") auto

definition uploadDir :: "vps_env \<Rightarrow> local_file option \<Rightarrow> path \<Rightarrow> vps \<Rightarrow> step_end \<times> vps" where
  "uploadDir env local r s = (case local of Some (Folder es) \<Rightarrow> upload_entries env r es s | _ \<Rightarrow> (Rejected, s))"

section \<open>Commands\<close>

definition REMOTE_DIR :: path where
  "REMOTE_DIR = [''home'', ''crawler'', ''app'']"

fun in_turn :: "(vps \<Rightarrow> step_end \<times> vps) list \<Rightarrow> vps \<Rightarrow> step_end \<times> vps" where
  "in_turn [] s = (Done, s)"
| "in_turn (k # ks) s = and_then (k s) (in_turn ks)"

definition run :: "string \<Rightarrow> vps \<Rightarrow> step_end \<times> vps" where
  "run cmd s = (Done, run_cmd cmd s)"

definition deployFiles :: "vps_env \<Rightarrow> folder \<Rightarrow> vps \<Rightarrow> step_end \<times> vps" where
  "deployFiles env root s =
    (if at_path root [''dist'', ''server.js''] = None then (Exited 1, s)
     else in_turn
       [upload env (at_path root [''dist'', ''server.js'']) (REMOTE_DIR @ [''server.js'']),
        upload env (at_path root [''dist'', ''crawler.js'']) (REMOTE_DIR @ [''crawler.js'']),
        upload env (at_path root [''package.json'']) (REMOTE_DIR @ [''package.json'']),
        (\<lambda>s. (Done, mkdir_p env (REMOTE_DIR @ [''src'']) s)),
        uploadDir env (at_path root [''dist'', ''src'']) (REMOTE_DIR @ [''src'']),
        (\<lambda>s. (Done, mkdir_p env (REMOTE_DIR @ [''migrations'']) s)),
        uploadDir env (at_path root [''migrations'']) (REMOTE_DIR @ [''migrations'']),
        (\<lambda>s. (Done, mkdir_p env (REMOTE_DIR @ [''environments'']) s)),
        uploadDir env (at_path root [''environments'']) (REMOTE_DIR @ [''environments'']),
        run (''cd '' @ path_text REMOTE_DIR @ '' && npm install --production 2>&1 | tail -5'')] s)"

definition pm2_start :: "string \<Rightarrow> string" where
  "pm2_start mem = ''pm2 start server.js --name webindexer --max-memory-restart '' @ mem @ '' --node-args=\"--expose-gc\"''"

definition curl_code :: "string \<Rightarrow> string \<Rightarrow> string" where
  "curl_code what page = ''curl -s -o /dev/null -w \"'' @ what @ '': %{http_code}'' @ [CHR 0x5C] @ ''n\" http://127.0.0.1:3000'' @ page"

definition restart_cmds :: "string list" where
  "restart_cmds =
    [''cd '' @ path_text REMOTE_DIR @ '' && pm2 restart webindexer 2>/dev/null || (pm2 kill 2>/dev/null; sleep 1; '' @
       pm2_start ''450M'' @ '')'',
     ''sleep 3'', curl_code ''dashboard'' ''/'', curl_code ''search'' ''/search'', ''pm2 list'']"

definition restart :: "vps \<Rightarrow> step_end \<times> vps" where
  "restart = in_turn (map run restart_cmds)"

definition kill_cmds :: "string list" where
  "kill_cmds = [''pm2 kill 2>/dev/null; sleep 1'', ''fuser -k 3000/tcp 3443/tcp 2>/dev/null; sleep 1'']"

definition fix_cmds :: "string list" where
  "fix_cmds =
    [''cd '' @ path_text REMOTE_DIR @ '' && '' @ pm2_start ''350M'', ''sleep 4'', ''pm2 list'',
     curl_code ''dashboard'' ''/'', curl_code ''search'' ''/search'', ''pm2 logs --lines 5 --nostream'']"

definition status_cmds :: "string list" where
  "status_cmds = [''pm2 list'', ''curl -s http://127.0.0.1:3000/api/stats 2>/dev/null || echo \"server down\"'',
     ''pm2 logs --lines 5 --nostream'']"

definition page_cmd :: "string \<Rightarrow> string \<Rightarrow> string" where
  "page_cmd url tool = ''curl -s \"http://127.0.0.1:3000'' @ url @ ''\" | '' @ tool"

text \<open>The \<open>switch\<close> of \<open>main\<close>; the arguments after the command are absent or empty alike.\<close>

definition vps_switch :: "vps_env \<Rightarrow> folder \<Rightarrow> string \<Rightarrow> string option \<Rightarrow> string option \<Rightarrow> vps \<Rightarrow> step_end \<times> vps" where
  "vps_switch env root CMD a3 a4 =
    (if CMD = ''deploy'' then in_turn [deployFiles env root, restart]
     else if CMD = ''status'' then in_turn (map run status_cmds)
     else if CMD = ''logs'' then run (''pm2 logs --lines '' @ or_str a3 ''30'' @ '' --nostream'')
     else if CMD = ''fix'' then in_turn (map run kill_cmds @ [deployFiles env root] @ map run fix_cmds)
     else if CMD = ''fetch'' then
       run (if or_str a4 [] \<noteq> [] then page_cmd (or_str a3 ''/'') (''sed -n \"'' @ or_str a4 [] @ ''\"'')
            else page_cmd (or_str a3 ''/'') ''cat -n'')
     else if CMD = ''grep'' then
       run (''grep -rn \"'' @ or_str a3 ''onerror'' @ ''\" '' @ path_text REMOTE_DIR @ ''/src/ '' @ path_text REMOTE_DIR @
         ''/server.js '' @ path_text REMOTE_DIR @ ''/crawler.js'')
     else if CMD = ''html'' then run (page_cmd (or_str a3 ''/'') ''cat -n'')
     else Pair Done)"

text \<open>
  The script: its exit code and the machine afterwards. \<open>can_connect\<close> is the connection; a
  missing password ends the commands that need one before they connect.
\<close>

definition vps_main ::
  "vps_env \<Rightarrow> folder \<Rightarrow> bool \<Rightarrow> string option \<Rightarrow> string option \<Rightarrow> string option \<Rightarrow> string option \<Rightarrow> vps \<Rightarrow> int \<times> vps" where
  "vps_main env root can_connect pass cmd a3 a4 s =
    (let CMD = or_str cmd ''deploy'' in
     if or_str pass [] = [] \<and> CMD \<in> set [''deploy'', ''fix'', ''status'', ''logs''] then (1, s)
     else if \<not> can_connect then (1, s)
     else (case vps_switch env root CMD a3 a4 s of
             (Done, s') \<Rightarrow> (0, s') | (Rejected, s') \<Rightarrow> (1, s') | (Exited n, s') \<Rightarrow> (n, s')))"

section \<open>What an upload leaves behind\<close>

text \<open>The names in a folder are distinct, as a file system has them.\<close>

inductive folder_ok :: "folder \<Rightarrow> bool" where
  "distinct (map fst es) \<Longrightarrow> (\<And>n sub. (n, Folder sub) \<in> set es \<Longrightarrow> folder_ok sub) \<Longrightarrow> folder_ok es"

definition below :: "path \<Rightarrow> folder \<Rightarrow> path \<Rightarrow> bool" where
  "below r es q \<longleftrightarrow> (\<exists>n p. n \<in> fst ` set es \<and> q = r @ n # p)"

lemma and_then_Done: "and_then r k = (Done, t) \<longleftrightarrow> (\<exists>s. r = (Done, s) \<and> k s = (Done, t))"
  by (cases r; cases "fst r") (auto simp: and_then_def)

lemma upload_Done: "upload env f r s = (Done, t) \<longleftrightarrow>
    (\<exists>c. f = Some (File c) \<and> \<not> put_fails env r \<and> butlast r \<in> v_dirs s \<and> t = s\<lparr>v_files := (v_files s)(r \<mapsto> c)\<rparr>)"
  by (auto simp: upload_def split: option.splits local_file.splits)

lemma mkdir_files [simp]: "v_files (mkdir_p env p s) = v_files s"
  by (simp add: mkdir_p_def run_cmd_def Let_def)

lemma upload_entries_frame:
  "upload_entries env r es s = (Done, t) \<Longrightarrow> \<not> below r es q \<Longrightarrow> v_files t q = v_files s q"
proof (induction env r es s arbitrary: t rule: upload_entries.induct)
  case (2 env r n f es s)
  have rest: "\<not> below r es q" using 2(5) by (auto simp: below_def)
  have here: "\<not> below (r @ [n]) sub q" "q \<noteq> r @ [n]" for sub using 2(5) by (auto simp: below_def)
  show ?case
  proof (cases "skipped n")
    case True
    then show ?thesis using 2 rest by simp
  next
    case False
    with 2(4) obtain u where
      u: "(case f of Folder sub \<Rightarrow> upload_entries env (r @ [n]) sub (mkdir_p env (r @ [n]) s)
          | File c \<Rightarrow> upload env (Some f) (r @ [n]) s) = (Done, u)"
      and t: "upload_entries env r es u = (Done, t)" by (auto simp: and_then_Done)
    have "v_files t q = v_files u q" using 2(3) [OF False t rest] .
    moreover have "v_files u q = v_files s q"
    proof (cases f)
      case (File c)
      then show ?thesis using u here(2) by (auto simp: upload_Done)
    next
      case (Folder sub)
      then show ?thesis using u 2(2) [OF False Folder _ here(1)] by simp
    qed
    ultimately show ?thesis by simp
  qed
qed simp

lemma at_path_Cons:
  "at_path es (n # p) = (case map_of es n of None \<Rightarrow> None | Some f \<Rightarrow>
     if p = [] then Some f else (case f of Folder sub \<Rightarrow> at_path sub p | File _ \<Rightarrow> None))"
  by (cases p) (auto split: option.split local_file.split)

inductive_cases folder_okE: "folder_ok es"

lemma folder_ok_Cons:
  assumes "folder_ok ((n, f) # es)"
  shows "distinct (map fst ((n, f) # es)) \<and> folder_ok es \<and> (\<forall>sub. f = Folder sub \<longrightarrow> folder_ok sub)"
  using assms by (rule folder_okE) (auto intro: folder_ok.intros)

lemma folder_ok_at: "at_path es d = Some (Folder sub) \<Longrightarrow> folder_ok es \<Longrightarrow> folder_ok sub"
proof (induction es d rule: at_path.induct)
  case (2 es n)
  then show ?case by (auto elim!: folder_okE dest: map_of_SomeD)
next
  case (3 es n m p)
  then show ?case by (auto elim!: folder_okE dest: map_of_SomeD split: option.splits local_file.splits)
qed simp

lemma folder_okI:
  "distinct (map fst es) \<Longrightarrow> (\<forall>(n, f) \<in> set es. case f of Folder sub \<Rightarrow> folder_ok sub | File _ \<Rightarrow> True) \<Longrightarrow> folder_ok es"
  by (rule folder_ok.intros) (auto split: local_file.splits)

lemma upload_entries_complete:
  "upload_entries env r es s = (Done, t) \<Longrightarrow> folder_ok es \<Longrightarrow> at_path es p = Some (File c) \<Longrightarrow>
    list_all (\<lambda>n. \<not> skipped n) p \<Longrightarrow> v_files t (r @ p) = Some c"
proof (induction env r es s arbitrary: t p rule: upload_entries.induct)
  case (1 env r s)
  then show ?case by (cases p) (simp_all add: at_path_Cons)
next
  case (2 env r n f es s)
  obtain m p' where p: "p = m # p'" using 2(6) by (cases p) auto
  have ok: "distinct (map fst ((n, f) # es))" "folder_ok es" and sub: "f = Folder sub \<Longrightarrow> folder_ok sub" for sub
    using folder_ok_Cons [OF 2(5)] by auto
  show ?case
  proof (cases "skipped n")
    case True
    then have "m \<noteq> n" using 2(7) p by auto
    then have "at_path es p = Some (File c)" using 2(6) p by (simp add: at_path_Cons)
    then show ?thesis using 2(1) [OF True _ ok(2)] 2(4,7) True by simp
  next
    case False
    with 2(4) obtain u where
      u: "(case f of Folder sub \<Rightarrow> upload_entries env (r @ [n]) sub (mkdir_p env (r @ [n]) s)
          | File c \<Rightarrow> upload env (Some f) (r @ [n]) s) = (Done, u)"
      and t: "upload_entries env r es u = (Done, t)" by (auto simp: and_then_Done)
    show ?thesis
    proof (cases "m = n")
      case other: False
      then have "at_path es p = Some (File c)" using 2(6) p by (simp add: at_path_Cons)
      then show ?thesis using 2(3) [OF False t ok(2)] 2(7) by blast
    next
      case True
      have "\<not> below r es (r @ p)" using ok(1) p True by (auto simp: below_def)
      then have "v_files t (r @ p) = v_files u (r @ p)" using upload_entries_frame [OF t] by blast
      moreover have "v_files u (r @ p) = Some c"
      proof (cases f)
        case (File d)
        then have "p' = []" "d = c" using 2(6) p True by (simp_all add: at_path_Cons split: if_splits)
        then show ?thesis using u File p True by (auto simp: upload_Done)
      next
        case (Folder sub)
        then have "at_path sub p' = Some (File c)" using 2(6) p True by (auto simp: at_path_Cons split: if_splits)
        then have "v_files u ((r @ [n]) @ p') = Some c"
          using 2(2) [OF False Folder _ sub [OF Folder]] u Folder 2(7) p by simp
        then show ?thesis using p True by simp
      qed
      ultimately show ?thesis by simp
    qed
  qed
qed

lemma uploadDir_frame:
  assumes "uploadDir env f r s = (Done, t)" and "\<not> prefix r q" shows "v_files t q = v_files s q"
  using assms upload_entries_frame [of env r _ s t q]
  by (auto simp: uploadDir_def below_def prefix_def split: option.splits local_file.splits)

definition copied :: "folder \<Rightarrow> path \<Rightarrow> path \<Rightarrow> vps \<Rightarrow> bool" where
  "copied root d r t \<longleftrightarrow> (\<forall>p c. at_path root (d @ p) = Some (File c) \<and> list_all (\<lambda>n. \<not> skipped n) p \<longrightarrow>
     v_files t (r @ p) = Some c)"

lemma at_path_folder: "at_path es d = Some (Folder sub) \<Longrightarrow> d \<noteq> [] \<Longrightarrow> at_path es (d @ p) = at_path sub p"
proof (induction es d rule: at_path.induct)
  case (2 es n)
  then show ?case by (cases p) simp_all
next
  case (3 es n m d)
  then show ?case by (auto simp: at_path_Cons split: option.splits local_file.splits if_splits)
qed simp

lemma at_path_file: "at_path es d = Some (File c) \<Longrightarrow> p \<noteq> [] \<Longrightarrow> at_path es (d @ p) = None"
  by (induction es d rule: at_path.induct) (auto simp: at_path_Cons split: option.splits local_file.splits if_splits)

lemma uploadDir_complete:
  assumes "uploadDir env (at_path root d) r s = (Done, t)" and "d \<noteq> []"
    and "folder_ok root"
  shows "copied root d r t"
proof -
  obtain sub where sub: "at_path root d = Some (Folder sub)" "upload_entries env r sub s = (Done, t)"
    using assms(1) by (auto simp: uploadDir_def split: option.splits local_file.splits)
  show ?thesis
    using upload_entries_complete [OF sub(2) folder_ok_at [OF sub(1) assms(3)]] at_path_folder [OF sub(1) assms(2)]
    by (auto simp: copied_def)
qed

lemma upload_copied: "upload env (at_path root d) r s = (Done, t) \<Longrightarrow> copied root d r t"
proof -
  assume up: "upload env (at_path root d) r s = (Done, t)"
  then obtain c where c: "at_path root d = Some (File c)" "v_files t r = Some c" by (auto simp: upload_Done)
  have "p = [] \<and> b = c" if "at_path root (d @ p) = Some (File b)" for p b
    using at_path_file [OF c(1), of p] c(1) that by (cases "p = []") auto
  then show ?thesis using c(2) unfolding copied_def by (metis append_Nil2)
qed

lemma copied_frame: "copied root d r s \<Longrightarrow> (\<And>p. v_files t (r @ p) = v_files s (r @ p)) \<Longrightarrow> copied root d r t"
  by (simp add: copied_def)

section \<open>What the machine is told\<close>

definition only_mkdirs :: "vps \<Rightarrow> vps \<Rightarrow> bool" where
  "only_mkdirs s t \<longleftrightarrow> (\<exists>new. v_log t = v_log s @ new \<and> list_all (\<lambda>c. js_startsWith c ''mkdir -p '') new)"

lemma only_mkdirs_refl [simp]: "only_mkdirs s s" "v_log t = v_log s \<Longrightarrow> only_mkdirs s t"
  by (simp_all add: only_mkdirs_def)

lemma only_mkdirs_trans: "only_mkdirs s t \<Longrightarrow> only_mkdirs t u \<Longrightarrow> only_mkdirs s u"
  by (auto simp: only_mkdirs_def)

lemma only_mkdirs_mkdir: "only_mkdirs s (mkdir_p env p s)"
  by (auto simp: only_mkdirs_def mkdir_p_def run_cmd_def Let_def js_startsWith_def)

lemma only_mkdirs_upload: "only_mkdirs s (snd (upload env f r s))"
  by (auto simp: upload_def split: option.split local_file.split)

lemma and_then_snd: "snd (and_then r k) = (if fst r = Done then snd (k (snd r)) else snd r)"
  by (cases r; cases "fst r") (auto simp: and_then_def)

lemma and_then_fst: "fst (and_then r k) = (if fst r = Done then fst (k (snd r)) else fst r)"
  by (cases r; cases "fst r") (auto simp: and_then_def)

lemma only_mkdirs_entries: "only_mkdirs s (snd (upload_entries env r es s))"
proof (induction env r es s rule: upload_entries.induct)
  case (2 env r n f es s)
  show ?case
  proof (cases "skipped n")
    case False
    let ?h = "case f of Folder sub \<Rightarrow> upload_entries env (r @ [n]) sub (mkdir_p env (r @ [n]) s)
      | File c \<Rightarrow> upload env (Some f) (r @ [n]) s"
    have "only_mkdirs s (snd ?h)"
    proof (cases f)
      case (Folder sub)
      then show ?thesis using 2(2) [OF False Folder] only_mkdirs_trans [OF only_mkdirs_mkdir] by simp
    qed (simp add: only_mkdirs_upload)
    then show ?thesis using False 2(3) [OF False] only_mkdirs_trans by (auto simp: and_then_snd)
  qed (use 2 in simp)
qed simp

lemma only_mkdirs_dir: "only_mkdirs s (snd (uploadDir env f r s))"
  by (auto simp: uploadDir_def only_mkdirs_entries split: option.split local_file.split)

lemma in_turn_app: "in_turn (xs @ ys) s = and_then (in_turn xs s) (in_turn ys)"
  by (induction xs arbitrary: s) (auto simp: and_then_def split: prod.split step_end.split)

lemma in_turn_runs: "in_turn (map run cs) s = (Done, s\<lparr>v_log := v_log s @ cs\<rparr>)"
  by (induction cs arbitrary: s) (simp_all add: run_def run_cmd_def and_then_def)

text \<open>The step of \<open>deployFiles\<close> that ends it is an upload, and the commands before it make directories.\<close>

lemma upload_no_exit: "fst (upload env f r s) \<in> {Done, Rejected}"
  by (auto simp: upload_def split: option.split local_file.split)

lemma upload_end: "e \<in> {Done, Rejected} \<Longrightarrow> e \<noteq> Done \<Longrightarrow> e = Rejected"
  by simp

lemma entries_no_exit: "fst (upload_entries env r es s) \<in> {Done, Rejected}"
  by (induction env r es s rule: upload_entries.induct)
    (auto simp: and_then_fst split: local_file.splits dest: upload_no_exit [THEN upload_end])

lemma dir_no_exit: "fst (uploadDir env f r s) \<in> {Done, Rejected}"
  using entries_no_exit by (auto simp: uploadDir_def split: option.split local_file.split)

text \<open>A step that only makes directories and uploads.\<close>

definition quiet :: "(vps \<Rightarrow> step_end \<times> vps) \<Rightarrow> bool" where
  "quiet k \<longleftrightarrow> (\<forall>s. only_mkdirs s (snd (k s)) \<and> fst (k s) \<in> {Done, Rejected})"

lemma quiet_steps:
  "quiet (upload env f r)" "quiet (uploadDir env f r)" "quiet (\<lambda>s. (Done, mkdir_p env r s))"
  using upload_no_exit dir_no_exit
  by (simp_all add: quiet_def only_mkdirs_upload only_mkdirs_dir only_mkdirs_mkdir)

lemma quiet_turns: "list_all quiet ks \<Longrightarrow> quiet (in_turn ks)"
proof (induction ks)
  case (Cons k ks)
  then have k: "\<And>s. only_mkdirs s (snd (k s)) \<and> fst (k s) \<in> {Done, Rejected}"
    and ks: "\<And>s. only_mkdirs s (snd (in_turn ks s)) \<and> fst (in_turn ks s) \<in> {Done, Rejected}"
    by (simp_all add: quiet_def)
  have "only_mkdirs s (snd (in_turn (k # ks) s)) \<and> fst (in_turn (k # ks) s) \<in> {Done, Rejected}" for s
    using k [of s] ks [of "snd (k s)"] only_mkdirs_trans by (auto simp: and_then_snd and_then_fst)
  then show ?case unfolding quiet_def by blast
qed (simp add: quiet_def)

lemma upload_frame: "upload env f r s = (Done, t) \<Longrightarrow> q \<noteq> r \<Longrightarrow> v_files t q = v_files s q"
  by (auto simp: upload_Done)

lemma deploy_done:
  assumes "deployFiles env root s = (Done, t)"
    and ok: "folder_ok root"
  shows "copied root [''dist'', ''src''] (REMOTE_DIR @ [''src'']) t \<and>
    copied root [''migrations''] (REMOTE_DIR @ [''migrations'']) t \<and>
    copied root [''environments''] (REMOTE_DIR @ [''environments'']) t \<and>
    copied root [''dist'', ''server.js''] (REMOTE_DIR @ [''server.js'']) t \<and>
    copied root [''dist'', ''crawler.js''] (REMOTE_DIR @ [''crawler.js'']) t \<and>
    copied root [''package.json''] (REMOTE_DIR @ [''package.json'']) t"
proof -
  let ?R = "\<lambda>n. REMOTE_DIR @ [n]"
  obtain s1 s2 s3 s4 s5 s6 where steps:
    "upload env (at_path root [''dist'', ''server.js'']) (?R ''server.js'') s = (Done, s1)"
    "upload env (at_path root [''dist'', ''crawler.js'']) (?R ''crawler.js'') s1 = (Done, s2)"
    "upload env (at_path root [''package.json'']) (?R ''package.json'') s2 = (Done, s3)"
    "uploadDir env (at_path root [''dist'', ''src'']) (?R ''src'') (mkdir_p env (?R ''src'') s3) = (Done, s4)"
    "uploadDir env (at_path root [''migrations'']) (?R ''migrations'') (mkdir_p env (?R ''migrations'') s4) = (Done, s5)"
    "uploadDir env (at_path root [''environments'']) (?R ''environments'') (mkdir_p env (?R ''environments'') s5) = (Done, s6)"
    and t: "v_files t = v_files s6"
    using assms(1) by (auto simp: deployFiles_def and_then_Done run_def run_cmd_def simp del: at_path.simps split: if_splits)
  have f: "v_files s1 q = v_files s q" if "q \<noteq> ?R ''server.js''" for q using upload_frame [OF steps(1)] that .
  note fs = upload_frame [OF steps(2)] upload_frame [OF steps(3)] uploadDir_frame [OF steps(4)]
    uploadDir_frame [OF steps(5)] uploadDir_frame [OF steps(6)]
  have late6: "v_files t (?R n @ p) = v_files s5 (?R n @ p)" if "n \<noteq> ''environments''" for n p
    using fs(5) [of "REMOTE_DIR @ n # p"] that by (simp add: t)
  have late5: "v_files t (?R n @ p) = v_files s4 (?R n @ p)" if "n \<notin> {''migrations'', ''environments''}" for n p
    using fs(4) [of "REMOTE_DIR @ n # p"] that late6 [of n p] by auto
  have late3: "v_files t (?R n @ p) = v_files s3 (?R n @ p)" if "n \<notin> {''src'', ''migrations'', ''environments''}" for n p
    using fs(3) [of "REMOTE_DIR @ n # p"] that late5 [of n p] by auto
  have late2: "v_files t (?R n @ p) = v_files s2 (?R n @ p)"
    if "n \<notin> {''package.json'', ''src'', ''migrations'', ''environments''}" for n p
    using fs(2) [of "REMOTE_DIR @ n # p"] that late3 [of n p] by auto
  have late1: "v_files t (?R n @ p) = v_files s1 (?R n @ p)"
    if "n \<notin> {''crawler.js'', ''package.json'', ''src'', ''migrations'', ''environments''}" for n p
    using fs(1) [of "REMOTE_DIR @ n # p"] that late2 [of n p] by auto
  have "copied root [''environments''] (?R ''environments'') t"
    using uploadDir_complete [OF steps(6) _ ok] t by (auto simp: copied_def simp del: at_path.simps)
  moreover have "copied root [''migrations''] (?R ''migrations'') t"
    by (rule copied_frame [OF uploadDir_complete [OF steps(5) _ ok]]) (assumption | simp add: late6 [simplified])+
  moreover have "copied root [''dist'', ''src''] (?R ''src'') t"
    by (rule copied_frame [OF uploadDir_complete [OF steps(4) _ ok]]) (assumption | simp add: late5 [simplified])+
  moreover have "copied root [''package.json''] (?R ''package.json'') t"
    by (rule copied_frame [OF upload_copied [OF steps(3)]]) (simp add: late3 [simplified])
  moreover have "copied root [''dist'', ''crawler.js''] (?R ''crawler.js'') t"
    by (rule copied_frame [OF upload_copied [OF steps(2)]]) (simp add: late2 [simplified])
  moreover have "copied root [''dist'', ''server.js''] (?R ''server.js'') t"
    by (rule copied_frame [OF upload_copied [OF steps(1)]]) (simp add: late1 [simplified])
  ultimately show ?thesis by blast
qed


lemma deploy_stopped:
  assumes "deployFiles env root s = (e, t)" and "e \<noteq> Done"
  shows "only_mkdirs s t \<and> e \<in> {Rejected, Exited 1}"
proof (cases "at_path root [''dist'', ''server.js''] = None")
  case False
  let ?npm = "run (''cd '' @ path_text REMOTE_DIR @ '' && npm install --production 2>&1 | tail -5'')"
  let ?ks = "[upload env (at_path root [''dist'', ''server.js'']) (REMOTE_DIR @ [''server.js'']),
      upload env (at_path root [''dist'', ''crawler.js'']) (REMOTE_DIR @ [''crawler.js'']),
      upload env (at_path root [''package.json'']) (REMOTE_DIR @ [''package.json'']),
      (\<lambda>s. (Done, mkdir_p env (REMOTE_DIR @ [''src'']) s)),
      uploadDir env (at_path root [''dist'', ''src'']) (REMOTE_DIR @ [''src'']),
      (\<lambda>s. (Done, mkdir_p env (REMOTE_DIR @ [''migrations'']) s)),
      uploadDir env (at_path root [''migrations'']) (REMOTE_DIR @ [''migrations'']),
      (\<lambda>s. (Done, mkdir_p env (REMOTE_DIR @ [''environments'']) s)),
      uploadDir env (at_path root [''environments'']) (REMOTE_DIR @ [''environments''])]"
  have ks: "deployFiles env root s = in_turn (?ks @ [?npm]) s"
    using False by (simp only: deployFiles_def if_False append_Cons append_Nil)
  have "list_all quiet ?ks" by (simp only: list.pred_inject quiet_steps simp_thms)
  from quiet_turns [OF this] have "fst (in_turn ?ks s) \<in> {Done, Rejected}" "only_mkdirs s (snd (in_turn ?ks s))"
    unfolding quiet_def by blast+
  moreover have "(e, t) = and_then (in_turn ?ks s) (in_turn [?npm])" using assms(1) ks in_turn_app by metis
  moreover have "in_turn [?npm] u = (Done, run_cmd (''cd '' @ path_text REMOTE_DIR @ '' && npm install --production 2>&1 | tail -5'') u)" for u
    by (simp add: run_def and_then_def)
  ultimately show ?thesis using assms(2) by (cases "in_turn ?ks s") (auto simp: and_then_def)
qed (use assms in \<open>auto simp: deployFiles_def\<close>)


lemma restart_log: "restart s = (Done, s\<lparr>v_log := v_log s @ restart_cmds\<rparr>)"
  by (simp add: restart_def in_turn_runs)


definition demo_root :: folder where
  "demo_root =
    [(''dist'', Folder [(''server.js'', File ''S''), (''crawler.js'', File ''C''), (''src'', Folder [(''db.js'', File ''D'')])]),
     (''package.json'', File ''P''), (''migrations'', Folder []), (''environments'', Folder [])]"

lemma demo_root_ok: "folder_ok demo_root"
proof -
  have "folder_ok [(''db.js'', File ''D'')]" "folder_ok []" by (rule folder_okI; simp)+
  moreover from this have "folder_ok [(''server.js'', File ''S''), (''crawler.js'', File ''C''), (''src'', Folder [(''db.js'', File ''D'')])]"
    by (intro folder_okI) simp_all
  ultimately show ?thesis unfolding demo_root_def by (intro folder_okI) simp_all
qed


end
