(* ===== verification/Lint.thy ===== *)
theory Lint
  imports Deploy Regex Numbers
begin

text \<open>
  scripts/lint.ts: the files it visits, its rules line by line, and its exit code. The lines it
  prints are left out. \<open>bytes\<close> is the size of a text on disk.
\<close>

section \<open>Rules\<close>

definition word_char :: "char \<Rightarrow> bool" where
  "word_char c \<longleftrightarrow> is_digit c \<or> c = CHR ''_'' \<or>
     65 \<le> (of_char c :: nat) \<and> (of_char c :: nat) \<le> 90 \<or> 97 \<le> (of_char c :: nat) \<and> (of_char c :: nat) \<le> 122"

text \<open>\<open>/\bw\b/\<close> for a word \<open>w\<close>; \<open>inside\<close> says whether a word character stands before.\<close>

fun whole_word :: "string \<Rightarrow> bool \<Rightarrow> string \<Rightarrow> bool" where
  "whole_word w inside [] = False"
| "whole_word w inside (c # cs) =
    ((\<not> inside \<and> js_startsWith (c # cs) w \<and>
       (case drop (length w) (c # cs) of [] \<Rightarrow> True | d # _ \<Rightarrow> \<not> word_char d)) \<or>
     whole_word w (word_char c) cs)"

definition js_quote :: rx where
  "js_quote = One quote_char"

definition require_crypto :: "rx list" where
  "require_crypto = map (\<lambda>c. One (\<lambda>x. x = c)) ''require('' @ [js_quote] @ map (\<lambda>c. One (\<lambda>x. x = c)) ''crypto'' @
     [js_quote, One (\<lambda>x. x = CHR '')'')]"

definition secret_rx :: "string \<Rightarrow> rx list" where
  "secret_rx name = lit name @ [Many 0 None is_ws, One (\<lambda>x. x = CHR '':'' \<or> x = CHR ''=''), Many 0 None is_ws,
     js_quote, Many 1 None (\<lambda>c. \<not> quote_char c), js_quote]"

definition has_secret :: "string \<Rightarrow> bool" where
  "has_secret line \<longleftrightarrow> list_ex (\<lambda>name. rx_search (secret_rx name) line \<noteq> None)
     [''password'', ''secret'', ''token'', ''api_key'']"

text \<open>Errors and warnings of one line, and of one file.\<close>

definition line_warnings :: "string \<Rightarrow> string \<Rightarrow> nat" where
  "line_warnings rel line =
    (if js_includes line ''console.log'' \<and> \<not> js_startsWith rel ''tests'' then 1 else 0) +
    (if rx_search require_crypto line \<noteq> None \<and> js_includes line ''randomUUID'' then 1 else 0) +
    (if whole_word ''var'' False line \<and> \<not> js_includes rel ''min'' then 1 else 0)"

definition line_errors :: "string \<Rightarrow> string \<Rightarrow> nat" where
  "line_errors rel line =
    (if js_includes line ''eval('' then 1 else 0) +
    (if has_secret line \<and> \<not> js_includes rel ''test'' then 1 else 0)"

definition lint :: "(string \<Rightarrow> nat) \<Rightarrow> string \<Rightarrow> string \<Rightarrow> nat \<times> nat" where
  "lint bytes rel content =
    (let ls = js_split CHR 0x0A content in
     (sum_list (map (line_errors rel) ls),
      sum_list (map (line_warnings rel) ls) + (if bytes content > 50000 then 1 else 0)))"

section \<open>Files\<close>

text \<open>\<open>path.extname\<close>: from the last dot on, unless it is the first character.\<close>

definition extname :: "string \<Rightarrow> string" where
  "extname n =
    (if CHR ''.'' \<in> set (tl n) then CHR ''.'' # rev (takeWhile (\<lambda>c. c \<noteq> CHR ''.'') (rev n)) else [])"

definition linted_ext :: "string \<Rightarrow> bool" where
  "linted_ext n \<longleftrightarrow> extname n \<in> {''.ts'', ''.js''}"

text \<open>
  The files below a folder, with their names relative to the root; \<open>src\<close> and \<open>tests\<close> are folders
  where they exist.
\<close>

function walk :: "string \<Rightarrow> folder \<Rightarrow> (string \<times> local_file) list" where
  "walk dir [] = []"
| "walk dir ((n, f) # es) =
    (let full = dir @ ''/'' @ n in
     (case f of
        Folder sub \<Rightarrow>
          if \<not> js_startsWith n ''.'' \<and> n \<noteq> ''node_modules'' then walk full sub
          else if linted_ext n then [(full, f)] else []
      | File _ \<Rightarrow> if linted_ext n then [(full, f)] else []) @ walk dir es)"
  by pat_completeness auto
termination
  by (relation "measure (\<lambda>(dir, es). size_list (size_prod (\<lambda>_. 0) size) es)") auto

definition lint_targets :: "folder \<Rightarrow> (string \<times> local_file) list" where
  "lint_targets root =
    concat (map (\<lambda>d. case map_of root d of Some (Folder es) \<Rightarrow> walk d es | _ \<Rightarrow> []) [''src'', ''tests'']) @
    concat (map (\<lambda>n. case map_of root n of Some f \<Rightarrow> [(n, f)] | None \<Rightarrow> []) [''server.ts'', ''crawler.ts''])"

text \<open>Reading a folder throws: the script ends with 1, as it does when it counted an error.\<close>

fun lint_all :: "(string \<Rightarrow> nat) \<Rightarrow> (string \<times> local_file) list \<Rightarrow> (nat \<times> nat) option" where
  "lint_all bytes [] = Some (0, 0)"
| "lint_all bytes ((rel, Folder es) # fs) = None"
| "lint_all bytes ((rel, File c) # fs) =
    map_option (\<lambda>(e, w). (fst (lint bytes rel c) + e, snd (lint bytes rel c) + w)) (lint_all bytes fs)"

definition lint_exit :: "(string \<Rightarrow> nat) \<Rightarrow> folder \<Rightarrow> int" where
  "lint_exit bytes root =
    (case lint_all bytes (lint_targets root) of None \<Rightarrow> 1 | Some (errors, warnings) \<Rightarrow> if errors > 0 then 1 else 0)"

section \<open>The verdict\<close>

text \<open>A line that counts as an error, and a target that makes the script fail.\<close>

definition bad_line :: "string \<Rightarrow> string \<Rightarrow> bool" where
  "bad_line rel line \<longleftrightarrow> js_includes line ''eval('' \<or> (has_secret line \<and> \<not> js_includes rel ''test'')"

fun bad_target :: "string \<times> local_file \<Rightarrow> bool" where
  "bad_target (rel, Folder es) = True"
| "bad_target (rel, File c) = list_ex (bad_line rel) (js_split CHR 0x0A c)"

lemma lint_errors: "0 < fst (lint bytes rel c) \<longleftrightarrow> bad_target (rel, File c)"
proof -
  have "0 < sum_list (map f xs) \<longleftrightarrow> list_ex (\<lambda>x. 0 < f x) xs" for f :: "string \<Rightarrow> nat" and xs by (induction xs) auto
  moreover have "0 < line_errors rel l \<longleftrightarrow> bad_line rel l" for l by (simp add: line_errors_def bad_line_def)
  ultimately show ?thesis by (simp add: lint_def Let_def)
qed

lemma lint_all_verdict:
  "case lint_all bytes fs of None \<Rightarrow> list_ex bad_target fs | Some (e, w) \<Rightarrow> 0 < e \<longleftrightarrow> list_ex bad_target fs"
proof (induction bytes fs rule: lint_all.induct)
  case (3 bytes rel c fs)
  then show ?case
    using lint_errors [of bytes rel c] by (cases "lint_all bytes fs") (auto simp del: bad_target.simps(2))
qed simp_all

definition visible :: "string \<Rightarrow> bool" where
  "visible n \<longleftrightarrow> \<not> js_startsWith n ''.'' \<and> n \<noteq> ''node_modules''"

lemma walk_finds:
  "at_path es p = Some (File c) \<Longrightarrow> folder_ok es \<Longrightarrow> list_all visible (butlast p) \<Longrightarrow> linted_ext (last p) \<Longrightarrow>
    (dir @ path_text p, File c) \<in> set (walk dir es)"
proof (induction dir es arbitrary: p rule: walk.induct)
  case (1 dir)
  then show ?case by (cases p) (simp_all add: at_path_Cons)
next
  case (2 dir n f es)
  obtain m q where p: "p = m # q" using 2(3) by (cases p) auto
  have ok: "folder_ok es" "\<And>sub. f = Folder sub \<Longrightarrow> folder_ok sub" using folder_ok_Cons [OF 2(4)] by auto
  show ?case
  proof (cases "m = n")
    case False
    then have "at_path es p = Some (File c)" using 2(3) p by (simp add: at_path_Cons)
    then show ?thesis using 2(2) [OF refl _ ok(1) 2(5,6)] by (auto simp: Let_def)
  next
    case True
    show ?thesis
    proof (cases f)
      case (File d)
      then have "q = []" "d = c" using 2(3) p True by (auto simp: at_path_Cons split: if_splits)
      then show ?thesis using File p True 2(6) by (simp add: path_text_def)
    next
      case (Folder sub)
      then have q: "at_path sub q = Some (File c)" "q \<noteq> []" using 2(3) p True by (auto simp: at_path_Cons split: if_splits)
      then have "visible n" "list_all visible (butlast q)" "last q = last p" using 2(5) p True by simp_all
      then have "(((dir @ ''/'' @ n) @ path_text q), File c) \<in> set (walk (dir @ ''/'' @ n) sub)"
        using 2(1) [OF refl Folder _ q(1) ok(2) [OF Folder]] 2(6) visible_def [of n] by simp
      then show ?thesis using Folder p True \<open>visible n\<close> by (simp add: path_text_def visible_def Let_def)
    qed
  qed
qed

text \<open>The linter's verdict: it ends with 1 exactly when one of its targets cannot be read or has a
  line with \<open>eval(\<close>, or, outside test files, one that looks like a secret; warnings never fail
  it. Every source file of src and tests that lies in no hidden folder and no node_modules
  is among the targets, however deep it lies.
\<close>

theorem lint_verdict:
  "lint_exit bytes root = (if list_ex bad_target (lint_targets root) then 1 else 0) \<and>
   (\<forall>d p c. d \<in> {''src'', ''tests''} \<and> folder_ok root \<and> at_path root (d # p) = Some (File c) \<and> p \<noteq> [] \<and>
      list_all visible (butlast p) \<and> linted_ext (last p) \<longrightarrow> (d @ path_text p, File c) \<in> set (lint_targets root))"
proof -
  have "lint_exit bytes root = (if list_ex bad_target (lint_targets root) then 1 else 0)"
    using lint_all_verdict [where bytes = bytes and fs = "lint_targets root"] by (auto simp: lint_exit_def split: option.splits)
  moreover have "(d @ path_text p, File c) \<in> set (lint_targets root)"
    if d: "d \<in> {''src'', ''tests''}" and ok: "folder_ok root" and f: "at_path root (d # p) = Some (File c)" "p \<noteq> []"
      and p: "list_all visible (butlast p)" "linted_ext (last p)" for d p c
  proof -
    obtain sub where sub: "map_of root d = Some (Folder sub)" "at_path sub p = Some (File c)"
      using f by (auto simp: at_path_Cons split: option.splits local_file.splits)
    have "folder_ok sub" using folder_ok_at [of root "[d]"] sub(1) ok by simp
    then have "(d @ path_text p, File c) \<in> set (walk d sub)" using walk_finds [OF sub(2) _ p] by blast
    then show ?thesis using d sub(1) by (auto simp: lint_targets_def)
  qed
  ultimately show ?thesis by blast
qed

lemma lint_verdict_witness:
  "lint_exit length [(''src'', Folder [(''a.ts'', File ''eval(1)'')])] = 1 \<and>
   (''src/a.ts'', File ''eval(1)'') \<in> set (lint_targets [(''src'', Folder [(''a.ts'', File ''eval(1)'')])])"
proof -
  let ?r = "[(''src'', Folder [(''a.ts'', File ''eval(1)'')])]"
  have "list_ex bad_target (lint_targets ?r)" by code_simp
  moreover have "folder_ok [(''a.ts'', File ''eval(1)'')]" by (rule folder_okI) simp_all
  then have "folder_ok ?r" by (intro folder_okI) simp_all
  moreover have "linted_ext ''a.ts''" by code_simp
  then have "linted_ext (last [''a.ts''])" "at_path ?r [''src'', ''a.ts''] = Some (File ''eval(1)'')" by simp_all
  ultimately show ?thesis
    using lint_verdict [of length ?r, THEN conjunct2, THEN spec [of _ "''src''"], THEN spec [of _ "[''a.ts'']"],
        THEN spec [of _ "''eval(1)''"]] lint_verdict [of length ?r, THEN conjunct1]
    by (simp add: path_text_def)
qed

end
