(* ===== verification/Chaos.thy ===== *)
theory Chaos
  imports Prelude
begin

text \<open>
  load-test/chaos.ts: five experiments on the machine of a running server, each ending with a
  look at its health. The machine is what the experiments disturb; how the server behaves
  there, and which commands work, are arguments. Log lines are left out.
\<close>

section \<open>The machine\<close>

record machine =
  junk :: bool
  rules :: "string list"
  hogs :: nat
  clock :: nat

text \<open>
  \<open>serves\<close>: does the server answer 200 on the machine as it is. \<open>wakes\<close>: does a \<open>sleep\<close> that
  starts there end well; \<open>fills\<close>: is the file written in time; \<open>unlinks\<close>: can it be removed.
\<close>

record chaos_env =
  has_iptables :: bool
  fills :: "machine \<Rightarrow> bool"
  unlinks :: "machine \<Rightarrow> bool"
  wakes :: "machine \<Rightarrow> bool"
  serves :: "machine \<Rightarrow> bool"

record chaos_result =
  cr_test :: string
  cr_pass :: bool
  cr_skipped :: bool
  cr_failed :: bool

text \<open>\<open>Inl\<close> is an exception, with the machine as it is then.\<close>

type_synonym 'a run_of = "machine + 'a \<times> machine"

definition sleep :: "chaos_env \<Rightarrow> nat \<Rightarrow> machine \<Rightarrow> unit run_of" where
  "sleep env secs m = (if wakes env m then Inr ((), m\<lparr>clock := clock m + secs\<rparr>) else Inl m)"

definition and_on :: "'a run_of \<Rightarrow> ('a \<Rightarrow> machine \<Rightarrow> 'b run_of) \<Rightarrow> 'b run_of" where
  "and_on r k = (case r of Inl m \<Rightarrow> Inl m | Inr (x, m) \<Rightarrow> k x m)"

definition passed :: "string \<Rightarrow> bool \<Rightarrow> chaos_result" where
  "passed test ok = \<lparr>cr_test = test, cr_pass = ok, cr_skipped = False, cr_failed = False\<rparr>"

definition checkHealth :: "chaos_env \<Rightarrow> machine \<Rightarrow> bool" where
  "checkHealth env m = serves env m"

section \<open>The experiments\<close>

definition fill_disk :: "chaos_env \<Rightarrow> machine \<Rightarrow> unit run_of" where
  "fill_disk env m = (if fills env m then Inr ((), m\<lparr>junk := True\<rparr>) else Inl (m\<lparr>junk := True\<rparr>))"

definition unlink_junk :: "chaos_env \<Rightarrow> machine \<Rightarrow> unit run_of" where
  "unlink_junk env m = (if junk m \<and> unlinks env m then Inr ((), m\<lparr>junk := False\<rparr>) else Inl m)"

definition testDiskFull :: "chaos_env \<Rightarrow> machine \<Rightarrow> chaos_result run_of" where
  "testDiskFull env m =
    (case and_on (fill_disk env m) (\<lambda>_ m. and_on (sleep env 30 m) (\<lambda>_ m.
        (let healthy = checkHealth env m in
         and_on (unlink_junk env m) (\<lambda>_ m. and_on (sleep env 30 m) (\<lambda>_ m.
           Inr (passed ''disk-full'' (healthy \<and> checkHealth env m), m)))))) of
       Inr r \<Rightarrow> Inr r
     | Inl m \<Rightarrow>
         (let m = (case unlink_junk env m of Inl m \<Rightarrow> m | Inr (_, m) \<Rightarrow> m)
          in Inr (\<lparr>cr_test = ''disk-full'', cr_pass = False, cr_skipped = False, cr_failed = True\<rparr>, m)))"

definition testMemoryLeak :: "chaos_env \<Rightarrow> machine \<Rightarrow> chaos_result run_of" where
  "testMemoryLeak env m =
    and_on (sleep env 60 (m\<lparr>hogs := hogs m + 1\<rparr>)) (\<lambda>_ m.
      Inr (passed ''memory-leak'' (checkHealth env m), m\<lparr>hogs := hogs m - 1\<rparr>))"

definition testCpuSpike :: "chaos_env \<Rightarrow> machine \<Rightarrow> chaos_result run_of" where
  "testCpuSpike env m =
    and_on (sleep env 30 (m\<lparr>hogs := hogs m + 4\<rparr>)) (\<lambda>_ m.
      Inr (passed ''cpu-spike'' (checkHealth env m), m\<lparr>hogs := hogs m - 4\<rparr>))"

text \<open>
  \<open>iptables -A\<close> and \<open>-D\<close> add a rule at the end and delete its first occurrence. The commands
  that end in \<open>|| echo\<close> or \<open>|| true\<close> never throw, \<open>strict\<close> is the one without.
\<close>

definition iptables_add :: "chaos_env \<Rightarrow> bool \<Rightarrow> string \<Rightarrow> machine \<Rightarrow> unit run_of" where
  "iptables_add env strict rule m =
    (if has_iptables env then Inr ((), m\<lparr>rules := rules m @ [rule]\<rparr>) else if strict then Inl m else Inr ((), m))"

definition iptables_del :: "chaos_env \<Rightarrow> string \<Rightarrow> machine \<Rightarrow> unit run_of" where
  "iptables_del env rule m = Inr ((), if has_iptables env then m\<lparr>rules := remove1 rule (rules m)\<rparr> else m)"

definition skipped_result :: "string \<Rightarrow> chaos_result" where
  "skipped_result test = \<lparr>cr_test = test, cr_pass = True, cr_skipped = True, cr_failed = False\<rparr>"

definition dns_rule :: string where "dns_rule = ''OUTPUT -p udp --dport 53 -j DROP''"
definition local_rule :: string where "local_rule = ''OUTPUT -d 127.0.0.0/8 -j ACCEPT''"
definition drop_rule :: string where "drop_rule = ''OUTPUT -j DROP''"

definition testDnsFail :: "chaos_env \<Rightarrow> machine \<Rightarrow> chaos_result run_of" where
  "testDnsFail env m =
    (case and_on (iptables_add env False dns_rule m) (\<lambda>_ m. and_on (sleep env 30 m) (\<lambda>_ m.
        (let healthy = checkHealth env m in
         and_on (iptables_del env dns_rule m) (\<lambda>_ m. Inr (passed ''dns-fail'' healthy, m))))) of
       Inr r \<Rightarrow> Inr r | Inl m \<Rightarrow> Inr (skipped_result ''dns-fail'', m))"

definition testNetworkPartition :: "chaos_env \<Rightarrow> machine \<Rightarrow> chaos_result run_of" where
  "testNetworkPartition env m =
    (case and_on (iptables_add env True local_rule m) (\<lambda>_ m. and_on (iptables_add env False drop_rule m) (\<lambda>_ m.
        and_on (sleep env 10 m) (\<lambda>_ m. and_on (iptables_del env drop_rule m) (\<lambda>_ m.
        and_on (iptables_del env local_rule m) (\<lambda>_ m. and_on (sleep env 30 m) (\<lambda>_ m.
          Inr (passed ''network-part'' (checkHealth env m), m))))))) of
       Inr r \<Rightarrow> Inr r | Inl m \<Rightarrow> Inr (skipped_result ''network-part'', m))"

definition TESTS :: "(string \<times> (chaos_env \<Rightarrow> machine \<Rightarrow> chaos_result run_of)) list" where
  "TESTS = [(''disk-full'', testDiskFull), (''memory-leak'', testMemoryLeak), (''dns-fail'', testDnsFail),
     (''cpu-spike'', testCpuSpike), (''network-part'', testNetworkPartition)]"

text \<open>The exit code of the script; an exception that nothing catches ends it with 1.\<close>

fun run_all :: "chaos_env \<Rightarrow> (chaos_env \<Rightarrow> machine \<Rightarrow> chaos_result run_of) list \<Rightarrow> machine \<Rightarrow> chaos_result list run_of" where
  "run_all env [] m = Inr ([], m)"
| "run_all env (t # ts) m =
    and_on (t env m) (\<lambda>r m. and_on (sleep env 30 m) (\<lambda>_ m.
      and_on (run_all env ts m) (\<lambda>rs m. Inr (r # rs, m))))"

definition chaos_main :: "chaos_env \<Rightarrow> string option \<Rightarrow> machine \<Rightarrow> int \<times> machine" where
  "chaos_main env arg m =
    (let testName = or_str arg ''all'' in
     if testName = ''all'' then
       (case run_all env (map snd TESTS) m of
          Inl m \<Rightarrow> (1, m) | Inr (rs, m) \<Rightarrow> (if list_all cr_pass rs then 0 else 1, m))
     else (case map_of TESTS testName of
             None \<Rightarrow> (1, m)
           | Some t \<Rightarrow> (case t env m of Inl m \<Rightarrow> (1, m) | Inr (r, m) \<Rightarrow> (if cr_pass r then 0 else 1, m))))"

section \<open>What the experiments leave, and what they show\<close>

lemmas chaos_defs = testDiskFull_def testMemoryLeak_def testCpuSpike_def testDnsFail_def testNetworkPartition_def
  fill_disk_def unlink_junk_def sleep_def iptables_add_def iptables_del_def and_on_def skipped_result_def
  passed_def checkHealth_def

definition undisturbed :: "machine \<Rightarrow> machine \<Rightarrow> bool" where
  "undisturbed m n \<longleftrightarrow> junk n = junk m \<and> rules n = rules m \<and> hogs n = hogs m"


definition works :: "chaos_env \<Rightarrow> machine \<Rightarrow> bool" where
  "works env m \<longleftrightarrow> (\<forall>n. wakes env n \<and> fills env n \<and> unlinks env n) \<and> \<not> junk m \<and>
    set (rules m) \<inter> {dns_rule, local_rule, drop_rule} = {}"

lemma works_undisturbed: "works env m \<Longrightarrow> undisturbed m n \<Longrightarrow> works env n"
  by (simp add: works_def undisturbed_def)

lemma rules_apart: "dns_rule \<noteq> local_rule" "dns_rule \<noteq> drop_rule" "local_rule \<noteq> drop_rule"
  by (simp_all add: dns_rule_def local_rule_def drop_rule_def)

lemma experiments_clean_up:
  assumes "works env m" and "t \<in> snd ` set TESTS"
  shows "\<exists>r n. t env m = Inr (r, n) \<and> undisturbed m n"
proof -
  have m: "\<And>n. wakes env n" "\<And>n. fills env n" "\<And>n. unlinks env n" "\<not> junk m"
    "dns_rule \<notin> set (rules m)" "local_rule \<notin> set (rules m)" "drop_rule \<notin> set (rules m)"
    using assms(1) by (auto simp: works_def)
  have "t \<in> {testDiskFull, testMemoryLeak, testDnsFail, testCpuSpike, testNetworkPartition}"
    using assms(2) by (auto simp: TESTS_def)
  then show ?thesis
    by (elim insertE emptyE) (simp_all add: chaos_defs m undisturbed_def remove1_append rules_apart rules_apart [symmetric])
qed

lemma run_all_cleans_up:
  "works env m \<Longrightarrow> set ts \<subseteq> snd ` set TESTS \<Longrightarrow>
    \<exists>rs n. run_all env ts m = Inr (rs, n) \<and> undisturbed m n \<and> length rs = length ts"
proof (induction ts arbitrary: m)
  case (Cons t ts)
  obtain r n where r: "t env m = Inr (r, n)" "undisturbed m n"
    using experiments_clean_up [OF Cons.prems(1), of t] Cons.prems(2) by auto
  let ?n = "n\<lparr>clock := clock n + 30\<rparr>"
  have n: "undisturbed m ?n" using r(2) by (simp add: undisturbed_def)
  have "set ts \<subseteq> snd ` set TESTS" using Cons.prems(2) by simp
  from Cons.IH [OF works_undisturbed [OF Cons.prems(1) n] this]
  obtain rs k where "run_all env ts ?n = Inr (rs, k)" "undisturbed ?n k" "length rs = length ts" by blast
  moreover have "wakes env n" using Cons.prems(1) by (simp add: works_def)
  ultimately show ?case using r n by (simp add: and_on_def sleep_def undisturbed_def)
qed (simp add: undisturbed_def)

text \<open>The experiments clean up after themselves as long as nothing interrupts a pause: whatever
  the server does, a run of one or of all leaves no file, no firewall rule and no process
  behind. But two of their verdicts are hollow: without iptables the DNS experiment blocks nothing
  and still passes when the server answers, and the partition passes without looking; and
  when a pause is interrupted while DNS is blocked, the experiment passes as skipped and the
  rule stays.
\<close>

theorem chaos_verdicts:
  "(works env m \<and> (arg = None \<or> (\<exists>n \<in> fst ` set TESTS. arg = Some n)) \<longrightarrow> undisturbed m (snd (chaos_main env arg m))) \<and>
   (\<not> has_iptables env \<and> (\<forall>n. wakes env n) \<longrightarrow>
      testDnsFail env m = Inr (passed ''dns-fail'' (serves env (m\<lparr>clock := clock m + 30\<rparr>)), m\<lparr>clock := clock m + 30\<rparr>) \<and>
      testNetworkPartition env m = Inr (skipped_result ''network-part'', m)) \<and>
   (has_iptables env \<and> \<not> wakes env (m\<lparr>rules := rules m @ [dns_rule]\<rparr>) \<longrightarrow>
      chaos_main env (Some ''dns-fail'') m = (0, m\<lparr>rules := rules m @ [dns_rule]\<rparr>))"
proof -
  have "undisturbed m (snd (chaos_main env arg m))"
    if w: "works env m" and a: "arg = None \<or> (\<exists>n \<in> fst ` set TESTS. arg = Some n)"
  proof (cases "arg = None")
    case True
    have "set (map snd TESTS) \<subseteq> snd ` set TESTS" by simp
    from run_all_cleans_up [OF w this] True show ?thesis
      by (auto simp: chaos_main_def or_str_def)
  next
    case False
    then obtain n where n: "n \<in> fst ` set TESTS" "arg = Some n" using a by blast
    then have "n \<noteq> ''all''" "n \<noteq> []" by (auto simp: TESTS_def)
    moreover obtain t where t: "map_of TESTS n = Some t" using n(1) by (metis map_of_eq_None_iff not_None_eq)
    moreover obtain r k where "t env m = Inr (r, k)" "undisturbed m k"
      using experiments_clean_up [OF w, of t] map_of_SomeD [OF t] by force
    ultimately show ?thesis using n(2) by (simp add: chaos_main_def or_str_def)
  qed
  moreover have "map_of TESTS ''dns-fail'' = Some testDnsFail" by (simp add: TESTS_def)
  then have "chaos_main env (Some ''dns-fail'') m = (0, m\<lparr>rules := rules m @ [dns_rule]\<rparr>)"
    if "has_iptables env" "\<not> wakes env (m\<lparr>rules := rules m @ [dns_rule]\<rparr>)"
    using that by (simp add: chaos_main_def or_str_def chaos_defs)
  moreover have "testDnsFail env m = Inr (passed ''dns-fail'' (serves env (m\<lparr>clock := clock m + 30\<rparr>)), m\<lparr>clock := clock m + 30\<rparr>) \<and>
      testNetworkPartition env m = Inr (skipped_result ''network-part'', m)"
    if "\<not> has_iptables env" "\<forall>n. wakes env n"
    using that by (simp add: chaos_defs)
  ultimately show ?thesis by blast
qed

lemma chaos_verdicts_witness:
  "chaos_main \<lparr>has_iptables = True, fills = (\<lambda>_. True), unlinks = (\<lambda>_. True), wakes = (\<lambda>m. rules m = []), serves = (\<lambda>_. True)\<rparr>
     (Some ''dns-fail'') \<lparr>junk = False, rules = [], hogs = 0, clock = 0\<rparr> =
   (0, \<lparr>junk = False, rules = [dns_rule], hogs = 0, clock = 0\<rparr>)"
  using chaos_verdicts [of "\<lparr>has_iptables = True, fills = (\<lambda>_. True), unlinks = (\<lambda>_. True), wakes = (\<lambda>m. rules m = []),
      serves = (\<lambda>_. True)\<rparr>" "\<lparr>junk = False, rules = [], hogs = 0, clock = 0\<rparr>" None] by simp

end
