(* ===== verification/Schema.thy ===== *)
theory Schema
  imports Migrate
begin

text \<open>
  The tables and indexes of the database: what \<open>createDb\<close> of src/db.ts, \<open>initPgSchema\<close> of
  src/db-pg.ts and the SQL files of migrations/ create, and which columns the prepared statements
  of \<open>createStatements\<close> need. Servers, crawlers and migrations may run in any order on one
  database; all of them create only what does not exist yet. Rows are in theory Store; here
  only those of \<open>schema_migrations\<close> count.
\<close>

section \<open>Tables\<close>

datatype sql_type = TEXT | INTEGER | BIGINT | SERIAL | REAL

text \<open>A key may be counted up by the database (\<open>AUTOINCREMENT\<close>).\<close>

datatype col_key = NoKey | PrimaryKey | AutoKey | UniqueKey

record column =
  c_name :: string
  c_type :: sql_type
  c_key :: col_key
  c_notNull :: bool
  c_default :: "string option"

record database =
  db_tables :: "(string \<times> column list) list"
  db_fts :: "(string \<times> string list) list"
  db_indexes :: "(string \<times> string \<times> string list) list"
  db_versions :: "int list"

definition empty_db :: database where
  "empty_db = \<lparr>db_tables = [], db_fts = [], db_indexes = [], db_versions = []\<rparr>"

datatype ddl = CreateTable string "column list" | CreateFts string "string list" |
  CreateIndex string string "string list" | InsertVersion int

text \<open>All of the first three are \<open>IF NOT EXISTS\<close>; \<open>None\<close> is an exception of the database.\<close>

definition has_columns :: "database \<Rightarrow> string \<Rightarrow> string list \<Rightarrow> bool" where
  "has_columns db t cs \<longleftrightarrow>
    (case map_of (db_tables db) t of
       Some cols \<Rightarrow> set cs \<subseteq> set (map c_name cols)
     | None \<Rightarrow> (case map_of (db_fts db) t of Some cols \<Rightarrow> set cs \<subseteq> set cols | None \<Rightarrow> False))"

fun exec_ddl :: "ddl \<Rightarrow> database \<Rightarrow> database option" where
  "exec_ddl (CreateTable t cols) db =
    Some (if map_of (db_tables db) t = None then db\<lparr>db_tables := db_tables db @ [(t, cols)]\<rparr> else db)"
| "exec_ddl (CreateFts t cols) db =
    Some (if map_of (db_fts db) t = None then db\<lparr>db_fts := db_fts db @ [(t, cols)]\<rparr> else db)"
| "exec_ddl (CreateIndex i t cs) db =
    (if map_of (db_indexes db) i \<noteq> None then Some db
     else if has_columns db t cs then Some (db\<lparr>db_indexes := db_indexes db @ [(i, t, cs)]\<rparr>) else None)"
| "exec_ddl (InsertVersion v) db =
    (if map_of (db_tables db) ''schema_migrations'' = None \<or> v \<in> set (db_versions db) then None
     else Some (db\<lparr>db_versions := db_versions db @ [v]\<rparr>))"

fun exec_all :: "ddl list \<Rightarrow> database \<Rightarrow> database option" where
  "exec_all [] db = Some db"
| "exec_all (s # ss) db = (case exec_ddl s db of None \<Rightarrow> None | Some db' \<Rightarrow> exec_all ss db')"

section \<open>The scripts\<close>

abbreviation col :: "string \<Rightarrow> sql_type \<Rightarrow> string option \<Rightarrow> column" where
  "col n t d \<equiv> \<lparr>c_name = n, c_type = t, c_key = NoKey, c_notNull = False, c_default = d\<rparr>"

abbreviation key_col :: "string \<Rightarrow> sql_type \<Rightarrow> col_key \<Rightarrow> column" where
  "key_col n t k \<equiv> \<lparr>c_name = n, c_type = t, c_key = k, c_notNull = False, c_default = None\<rparr>"

abbreviation req_col :: "string \<Rightarrow> sql_type \<Rightarrow> string option \<Rightarrow> column" where
  "req_col n t d \<equiv> \<lparr>c_name = n, c_type = t, c_key = NoKey, c_notNull = True, c_default = d\<rparr>"

abbreviation quoted :: "string \<Rightarrow> string" where
  "quoted s \<equiv> CHR 0x27 # s @ [CHR 0x27]"

text \<open>The columns of \<open>nodes\<close>, which the two backends give different types for \<open>crawled_at\<close>.\<close>

definition nodes_columns :: "sql_type \<Rightarrow> column list" where
  "nodes_columns stamp =
    [key_col ''url'' TEXT PrimaryKey, col ''title'' TEXT (Some []), col ''description'' TEXT (Some []),
     col ''domain'' TEXT (Some []), col ''depth'' INTEGER (Some ''0''), col ''parent'' TEXT None,
     col ''popularity'' INTEGER (Some ''1''), col ''lang'' TEXT (Some []), col ''https'' INTEGER (Some ''0''),
     col ''metaDescription'' TEXT (Some []), col ''ogTitle'' TEXT (Some []), col ''ogDescription'' TEXT (Some []),
     col ''contentLength'' INTEGER (Some ''0''), col ''crawled_at'' stamp None]"

definition visited_columns :: "column list" where
  "visited_columns = [key_col ''url'' TEXT PrimaryKey]"

definition frontier_columns :: "column \<Rightarrow> column list" where
  "frontier_columns i = [i, key_col ''url'' TEXT UniqueKey, col ''depth'' INTEGER (Some ''0''), col ''parent'' TEXT None]"

definition FTS_COLUMNS :: "string list" where
  "FTS_COLUMNS = [''url'', ''title'', ''description'', ''metaDescription'', ''ogTitle'', ''ogDescription'', ''domain'']"

definition common_indexes :: "ddl list" where
  "common_indexes = [CreateIndex ''idx_frontier_url'' ''frontier'' [''url''], CreateIndex ''idx_nodes_domain'' ''nodes'' [''domain''],
     CreateIndex ''idx_nodes_parent'' ''nodes'' [''parent'']]"

definition sqlite_schema :: "ddl list" where
  "sqlite_schema =
    [CreateTable ''nodes'' (nodes_columns INTEGER), CreateTable ''visited'' visited_columns,
     CreateTable ''frontier'' (frontier_columns (key_col ''id'' INTEGER AutoKey))] @ common_indexes @
    [CreateFts ''nodes_fts'' FTS_COLUMNS]"

text \<open>\<open>createDb\<close>; what the integrity check finds, and \<open>REINDEX\<close>, change no table.\<close>

definition createDb :: "database \<Rightarrow> database option" where
  "createDb = exec_all sqlite_schema"

definition pg_schema :: "ddl list" where
  "pg_schema =
    [CreateTable ''nodes'' (nodes_columns BIGINT), CreateTable ''visited'' visited_columns,
     CreateTable ''frontier'' (frontier_columns (key_col ''id'' SERIAL PrimaryKey))] @ common_indexes"

text \<open>The text-search index is created on its own; \<open>gin_ok\<close> is whether that succeeds.\<close>

definition initPgSchema :: "bool \<Rightarrow> database \<Rightarrow> database option" where
  "initPgSchema gin_ok db =
    (case exec_all pg_schema db of
       None \<Rightarrow> None
     | Some db \<Rightarrow>
        (case exec_ddl (CreateIndex ''idx_nodes_fts_gin'' ''nodes'' [''title'', ''metaDescription'', ''ogTitle'', ''domain'']) db of
           Some db' \<Rightarrow> Some (if gin_ok then db' else db)
         | None \<Rightarrow> Some db))"

text \<open>The SQL files, each one transaction.\<close>

definition sql_001 :: "ddl list" where
  "sql_001 =
    [CreateTable ''schema_migrations'' [key_col ''version'' INTEGER PrimaryKey, req_col ''name'' TEXT None,
       req_col ''applied_at'' INTEGER (Some (''(strftime('' @ quoted ''%s'' @ '', '' @ quoted ''now'' @ '') * 1000)''))]] @
    sqlite_schema @ [InsertVersion 1]"

definition sql_002 :: "ddl list" where
  "sql_002 =
    [CreateIndex ''idx_nodes_crawled_at'' ''nodes'' [''crawled_at''], CreateIndex ''idx_nodes_https'' ''nodes'' [''https''],
     CreateIndex ''idx_nodes_lang'' ''nodes'' [''lang''], CreateIndex ''idx_nodes_depth'' ''nodes'' [''depth''],
     CreateIndex ''idx_nodes_popularity'' ''nodes'' [''popularity''], CreateIndex ''idx_frontier_depth'' ''frontier'' [''depth''],
     InsertVersion 2]"

definition sql_003 :: "ddl list" where
  "sql_003 =
    [CreateTable ''crawl_sessions'' [key_col ''id'' INTEGER AutoKey, req_col ''started_at'' INTEGER None,
       col ''ended_at'' INTEGER None, col ''pages_crawled'' INTEGER (Some ''0''), col ''errors'' INTEGER (Some ''0''),
       col ''domains'' INTEGER (Some ''0''), col ''status'' TEXT (Some ''running'')],
     CreateTable ''domain_stats'' [key_col ''domain'' TEXT PrimaryKey, col ''pages_crawled'' INTEGER (Some ''0''),
       col ''last_crawled_at'' INTEGER None, col ''avg_response_time_ms'' INTEGER (Some ''0''),
       col ''error_rate'' REAL (Some ''0.0'')],
     CreateIndex ''idx_crawl_sessions_started'' ''crawl_sessions'' [''started_at''],
     CreateIndex ''idx_domain_stats_pages'' ''domain_stats'' [''pages_crawled''], InsertVersion 3]"

definition run_sql :: "(string \<Rightarrow> bool) \<Rightarrow> string \<Rightarrow> database \<Rightarrow> database option" where
  "run_sql fault f db =
    (if fault f then None
     else if f = ''001_initial_schema.sql'' then exec_all sql_001 db
     else if f = ''002_performance_indexes.sql'' then exec_all sql_002 db
     else if f = ''003_crawl_audit.sql'' then exec_all sql_003 db
     else None)"

definition versions_of :: "database \<Rightarrow> mig_db" where
  "versions_of db = (if map_of (db_tables db) ''schema_migrations'' = None then None else Some (db_versions db))"

definition migrate_db :: "(string \<Rightarrow> bool) \<Rightarrow> string list \<Rightarrow> database \<Rightarrow> bool \<times> database" where
  "migrate_db fault dir db = run_files (run_sql fault) (getPendingMigrations dir (getAppliedMigrations (versions_of db))) db"

section \<open>What the statements need\<close>

text \<open>Per prepared statement, the tables it names, each with its columns.\<close>

definition node_names :: "string list" where
  "node_names = [''url'', ''title'', ''description'', ''domain'', ''depth'', ''parent'', ''popularity'', ''lang'', ''https'',
     ''metaDescription'', ''ogTitle'', ''ogDescription'', ''contentLength'', ''crawled_at'']"

definition sqlite_prepared :: "(string \<times> (string \<times> string list) list) list" where
  "sqlite_prepared =
    [(''insertNode'', [(''nodes'', node_names)]),
     (''updatePop'', [(''nodes'', [''popularity'', ''url''])]),
     (''markVisited'', [(''visited'', [''url''])]),
     (''isVisited'', [(''visited'', [''url''])]),
     (''insertFrontier'', [(''frontier'', [''url'', ''depth'', ''parent''])]),
     (''getBatch'', [(''frontier'', [''url'', ''depth'', ''parent'', ''id''])]),
     (''getMinId'', [(''frontier'', [''id''])]),
     (''clearProcessed'', [(''frontier'', [''id'', ''url'']), (''visited'', [''url''])]),
     (''deleteFromFrontier'', [(''frontier'', [''url''])]),
     (''nodeCount'', [(''nodes'', [])]),
     (''frontierCount'', [(''frontier'', [])]),
     (''domainPopStmt'', [(''nodes'', [''domain''])]),
     (''totalNodes'', [(''nodes'', [])]),
     (''insertFts'', [(''nodes_fts'', FTS_COLUMNS)]),
     (''domainCountStmt'', [(''nodes'', [''domain''])]),
     (''treeLight'', [(''nodes'', [''url'', ''title'', ''domain'', ''depth'', ''parent'', ''popularity'', ''https''])]),
     (''rebuildFts'', [(''nodes_fts'', FTS_COLUMNS), (''nodes'', FTS_COLUMNS)]),
     (''ftsCount'', [(''nodes_fts'', [])]),
     (''recrawlTargets'', [(''nodes'', [''url''])])]"

definition prepares :: "database \<Rightarrow> (string \<times> (string \<times> string list) list) list \<Rightarrow> bool" where
  "prepares db ss = list_all (\<lambda>(_, uses). list_all (\<lambda>(t, cs). has_columns db t cs) uses) ss"

text \<open>The queries of the server on the same file: the picture of the crawl and the search.\<close>

definition server_queries :: "(string \<times> (string \<times> string list) list) list" where
  "server_queries =
    [(''loadTreeFromDb'', [(''nodes'', [''url'', ''title'', ''domain'', ''depth'', ''parent'', ''popularity'', ''https''])]),
     (''search'', [(''nodes_fts'', [''url'', ''title'', ''metaDescription'', ''ogTitle'', ''ogDescription'', ''domain''])])]"

text \<open>PostgreSQL prepares nothing; what its statements name.\<close>

definition pg_queries :: "(string \<times> (string \<times> string list) list) list" where
  "pg_queries =
    [(''insertNode'', [(''nodes'', node_names)]),
     (''markVisited'', [(''visited'', [''url''])]),
     (''isVisited'', [(''visited'', [''url''])]),
     (''insertFrontier'', [(''frontier'', [''url'', ''depth'', ''parent''])]),
     (''getBatch'', [(''frontier'', [''url'', ''depth'', ''parent'', ''id''])]),
     (''getMinId'', [(''frontier'', [''id''])]),
     (''deleteFromFrontier'', [(''frontier'', [''url''])]),
     (''clearProcessed'', [(''frontier'', [''id'', ''url'']), (''visited'', [''url''])]),
     (''nodeCount'', [(''nodes'', [])]),
     (''frontierCount'', [(''frontier'', [])]),
     (''domainPopStmt'', [(''nodes'', [''domain''])]),
     (''domainCountStmt'', [(''nodes'', [''domain''])]),
     (''ftsCount'', [(''nodes'', [])]),
     (''treeLight'', [(''nodes'', [''url'', ''title'', ''domain'', ''depth'', ''parent'', ''popularity'', ''https'', ''crawled_at''])]),
     (''searchFts'', [(''nodes'', [''url'', ''title'', ''description'', ''domain''])]),
     (''recrawlTargets'', [(''nodes'', [''url''])])]"


section \<open>All scripts agree\<close>

text \<open>The tables that any of the SQLite scripts creates; they agree on the columns.\<close>

definition known_tables :: "(string \<times> column list) list" where
  "known_tables = [(t, c). CreateTable t c \<leftarrow> sql_001 @ sql_003]"

type_synonym shape = "(string \<rightharpoonup> column list) \<times> (string \<rightharpoonup> string list) \<times> int list"

definition shape :: "database \<Rightarrow> shape" where
  "shape db = (map_of (db_tables db), map_of (db_fts db), db_versions db)"

fun shape_has :: "shape \<Rightarrow> string \<Rightarrow> string list \<Rightarrow> bool" where
  "shape_has (T, F, V) t cs \<longleftrightarrow>
    (case T t of Some cols \<Rightarrow> set cs \<subseteq> set (map c_name cols)
     | None \<Rightarrow> (case F t of Some cols \<Rightarrow> set cs \<subseteq> set cols | None \<Rightarrow> False))"

lemma has_columns_shape: "has_columns db t cs \<longleftrightarrow> shape_has (shape db) t cs"
  by (simp add: has_columns_def shape_def)

text \<open>On shapes a statement simply creates what it names.\<close>

fun shape_exec :: "ddl \<Rightarrow> shape \<Rightarrow> shape option" where
  "shape_exec (CreateTable t cols) (T, F, V) = Some (T(t \<mapsto> cols), F, V)"
| "shape_exec (CreateFts t cols) (T, F, V) = Some (T, F(t \<mapsto> cols), V)"
| "shape_exec (CreateIndex i t cs) s = (if shape_has s t cs then Some s else None)"
| "shape_exec (InsertVersion v) (T, F, V) =
    (if T ''schema_migrations'' = None \<or> v \<in> set V then None else Some (T, F, V @ [v]))"

fun shape_all :: "ddl list \<Rightarrow> shape \<Rightarrow> shape option" where
  "shape_all [] s = Some s"
| "shape_all (d # ds) s = (case shape_exec d s of None \<Rightarrow> None | Some s' \<Rightarrow> shape_all ds s')"

definition shape_ok :: "shape \<Rightarrow> bool" where
  "shape_ok = (\<lambda>(T, F, V). T \<subseteq>\<^sub>m map_of known_tables \<and> F \<subseteq>\<^sub>m [''nodes_fts'' \<mapsto> FTS_COLUMNS])"

definition known_index :: "string \<rightharpoonup> string \<times> string list" where
  "known_index = map_of [(i, t, cs). CreateIndex i t cs \<leftarrow> sql_001 @ sql_002 @ sql_003]"

fun known_ddl :: "ddl \<Rightarrow> bool" where
  "known_ddl (CreateTable t cols) \<longleftrightarrow> map_of known_tables t = Some cols"
| "known_ddl (CreateFts t cols) \<longleftrightarrow> t = ''nodes_fts'' \<and> cols = FTS_COLUMNS"
| "known_ddl (CreateIndex i t cs) \<longleftrightarrow> known_index i = Some (t, cs)"
| "known_ddl (InsertVersion v) \<longleftrightarrow> True"

definition db_fine :: "database \<Rightarrow> bool" where
  "db_fine db \<longleftrightarrow> shape_ok (shape db) \<and> map_of (db_indexes db) \<subseteq>\<^sub>m known_index \<and>
    (\<forall>i t cs. map_of (db_indexes db) i = Some (t, cs) \<longrightarrow> has_columns db t cs)"

lemmas script_defs = sql_001_def sql_002_def sql_003_def sqlite_schema_def common_indexes_def

lemma scripts_known: "list_all known_ddl (sql_001 @ sql_002 @ sql_003)"
  by (simp add: script_defs known_tables_def known_index_def)


lemma known_not_fts: "map_of known_tables t = Some cols \<Longrightarrow> t \<noteq> ''nodes_fts''"
  by (auto simp: known_tables_def script_defs split: if_splits)

lemma map_of_snoc: "map_of m k = None \<Longrightarrow> map_of (m @ [(k, v)]) = (map_of m)(k \<mapsto> v)"
  by (auto simp: map_of_append map_add_def fun_eq_iff split: option.split)

lemma exec_table:
  assumes "db_fine db" and "map_of known_tables t = Some cols"
  shows "\<exists>db'. exec_ddl (CreateTable t cols) db = Some db' \<and> db_fine db' \<and>
    shape db' = ((map_of (db_tables db))(t \<mapsto> cols), map_of (db_fts db), db_versions db)"
proof (cases "map_of (db_tables db) t")
  case None
  let ?db' = "db\<lparr>db_tables := db_tables db @ [(t, cols)]\<rparr>"
  have tabs: "map_of (db_tables ?db') = (map_of (db_tables db))(t \<mapsto> cols)" by (simp add: map_of_snoc None del: map_of_append)
  have sd: "shape db = (map_of (db_tables db), map_of (db_fts db), db_versions db)" by (simp add: shape_def)
  have sh: "shape ?db' = ((map_of (db_tables db))(t \<mapsto> cols), map_of (db_fts db), db_versions db)"
    using tabs by (simp add: shape_def del: map_of_append)
  have ok: "map_of (db_tables db) \<subseteq>\<^sub>m map_of known_tables" "map_of (db_fts db) \<subseteq>\<^sub>m [''nodes_fts'' \<mapsto> FTS_COLUMNS]"
    using assms(1) by (simp_all add: db_fine_def shape_ok_def shape_def)
  then have "map_of (db_fts db) t = None"
    using known_not_fts [OF assms(2)] by (cases "map_of (db_fts db) t") (auto simp: map_le_def dom_def)
  then have "has_columns ?db' u cs" if "has_columns db u cs" for u cs
    using that None by (cases "u = t") (simp_all add: has_columns_shape sh sd)
  moreover have "(map_of (db_tables db))(t \<mapsto> cols) \<subseteq>\<^sub>m map_of known_tables"
    using ok(1) assms(2) by (auto simp: map_le_def)
  ultimately have "db_fine ?db'"
    using assms(1) by (simp add: db_fine_def shape_ok_def sh sd)
  then show ?thesis using None sh by simp
next
  case (Some c)
  then have "c = cols" using assms by (auto simp: db_fine_def shape_ok_def shape_def map_le_def dom_def)
  then have "(map_of (db_tables db))(t \<mapsto> cols) = map_of (db_tables db)" using Some by auto
  then show ?thesis using Some assms(1) by (simp add: shape_def)
qed

lemma exec_fts:
  assumes "db_fine db"
  shows "\<exists>db'. exec_ddl (CreateFts ''nodes_fts'' FTS_COLUMNS) db = Some db' \<and> db_fine db' \<and>
    shape db' = (map_of (db_tables db), (map_of (db_fts db))(''nodes_fts'' \<mapsto> FTS_COLUMNS), db_versions db)"
proof (cases "map_of (db_fts db) ''nodes_fts''")
  case None
  let ?db' = "db\<lparr>db_fts := db_fts db @ [(''nodes_fts'', FTS_COLUMNS)]\<rparr>"
  have fts: "map_of (db_fts ?db') = (map_of (db_fts db))(''nodes_fts'' \<mapsto> FTS_COLUMNS)" by (simp add: map_of_snoc None del: map_of_append)
  have sd: "shape db = (map_of (db_tables db), map_of (db_fts db), db_versions db)" by (simp add: shape_def)
  have sh: "shape ?db' = (map_of (db_tables db), (map_of (db_fts db))(''nodes_fts'' \<mapsto> FTS_COLUMNS), db_versions db)"
    using fts by (simp add: shape_def del: map_of_append)
  have "has_columns ?db' u cs" if "has_columns db u cs" for u cs
    using that None by (cases "u = ''nodes_fts''") (auto simp: has_columns_shape sh sd split: option.splits)
  moreover have "(map_of (db_fts db))(''nodes_fts'' \<mapsto> FTS_COLUMNS) \<subseteq>\<^sub>m [''nodes_fts'' \<mapsto> FTS_COLUMNS]"
    using assms by (auto simp: db_fine_def shape_ok_def shape_def map_le_def)
  ultimately have "db_fine ?db'"
    using assms by (simp add: db_fine_def shape_ok_def sh sd)
  then show ?thesis using None sh by simp
next
  case (Some c)
  then have "c = FTS_COLUMNS" using assms by (auto simp: db_fine_def shape_ok_def shape_def map_le_def dom_def split: if_splits)
  then have "(map_of (db_fts db))(''nodes_fts'' \<mapsto> FTS_COLUMNS) = map_of (db_fts db)" using Some by auto
  then show ?thesis using Some assms by (simp add: shape_def)
qed

lemma exec_index:
  assumes "db_fine db" and "known_index i = Some (t, cs)"
  shows "if has_columns db t cs then \<exists>db'. exec_ddl (CreateIndex i t cs) db = Some db' \<and> db_fine db' \<and> shape db' = shape db
    else exec_ddl (CreateIndex i t cs) db = None"
proof (cases "map_of (db_indexes db) i")
  case None
  let ?db' = "db\<lparr>db_indexes := db_indexes db @ [(i, t, cs)]\<rparr>"
  have idx: "map_of (db_indexes ?db') = (map_of (db_indexes db))(i \<mapsto> (t, cs))" by (simp add: map_of_snoc None del: map_of_append)
  have "shape ?db' = shape db" by (simp add: shape_def)
  then have "has_columns ?db' = has_columns db" by (simp add: fun_eq_iff has_columns_shape)
  note \<open>shape ?db' = shape db\<close> this
  then have "db_fine ?db'" if "has_columns db t cs"
    using that assms unfolding db_fine_def idx by (auto simp: map_le_def)
  then show ?thesis using None \<open>shape ?db' = shape db\<close> by simp
next
  case (Some x)
  then have "x = (t, cs)" using assms by (auto simp: db_fine_def map_le_def dom_def)
  then have "has_columns db t cs" using Some assms(1) by (simp add: db_fine_def)
  then show ?thesis using Some assms(1) by simp
qed

lemma exec_version: "db_fine db \<Longrightarrow> db_fine (db\<lparr>db_versions := vs\<rparr>)"
  by (simp add: db_fine_def shape_def shape_ok_def has_columns_shape)

lemma exec_shape:
  assumes "db_fine db" and "known_ddl d"
  shows "map_option shape (exec_ddl d db) = shape_exec d (shape db) \<and> (\<forall>db'. exec_ddl d db = Some db' \<longrightarrow> db_fine db')"
proof (cases d)
  case (CreateTable t cols)
  then show ?thesis using exec_table [OF assms(1), of t cols] assms(2) by (auto simp: shape_def)
next
  case (CreateFts t cols)
  then show ?thesis using exec_fts [OF assms(1)] assms(2) by (auto simp: shape_def)
next
  case (CreateIndex i t cs)
  then show ?thesis
    using exec_index [OF assms(1), of i t cs] assms(2) by (auto simp: has_columns_shape split: if_splits)
next
  case (InsertVersion v)
  then show ?thesis using exec_version [OF assms(1)] by (auto simp: shape_def)
qed

lemma exec_all_shape:
  "db_fine db \<Longrightarrow> list_all known_ddl ds \<Longrightarrow>
    map_option shape (exec_all ds db) = shape_all ds (shape db) \<and> (\<forall>db'. exec_all ds db = Some db' \<longrightarrow> db_fine db')"
proof (induction ds arbitrary: db)
  case (Cons d ds)
  note e = exec_shape [OF Cons.prems(1), of d]
  show ?case
  proof (cases "exec_ddl d db")
    case None
    then show ?thesis using e Cons.prems(2) by (cases "shape_exec d (shape db)") simp_all
  next
    case (Some db')
    then have s: "shape_exec d (shape db) = Some (shape db')" "db_fine db'" using e Cons.prems(2) by (simp_all add: Some)
    then show ?thesis using Cons.IH [OF s(2)] Cons.prems(2) Some by simp
  qed
qed simp


section \<open>The stages of a database\<close>

text \<open>Nothing; opened; and after each of the three files.\<close>

definition BASE :: "string \<rightharpoonup> column list" where
  "BASE = [''nodes'' \<mapsto> nodes_columns INTEGER, ''visited'' \<mapsto> visited_columns,
     ''frontier'' \<mapsto> frontier_columns (key_col ''id'' INTEGER AutoKey)]"

definition LOGGED :: "string \<rightharpoonup> column list" where
  "LOGGED = BASE(''schema_migrations'' \<mapsto> [key_col ''version'' INTEGER PrimaryKey, req_col ''name'' TEXT None,
     req_col ''applied_at'' INTEGER (Some (''(strftime('' @ quoted ''%s'' @ '', '' @ quoted ''now'' @ '') * 1000)''))])"

fun stage :: "nat \<Rightarrow> shape" where
  "stage k =
    (if k = 0 then (Map.empty, Map.empty, [])
     else if k = 1 then (BASE, [''nodes_fts'' \<mapsto> FTS_COLUMNS], [])
     else if k = 2 then (LOGGED, [''nodes_fts'' \<mapsto> FTS_COLUMNS], [1])
     else if k = 3 then (LOGGED, [''nodes_fts'' \<mapsto> FTS_COLUMNS], [1, 2])
     else (map_of known_tables, [''nodes_fts'' \<mapsto> FTS_COLUMNS], [1, 2, 3]))"

declare stage.simps [simp del]

definition staged :: "nat \<Rightarrow> database \<Rightarrow> bool" where
  "staged k db \<longleftrightarrow> k \<le> 4 \<and> db_fine db \<and> shape db = stage k"

lemma staged_empty: "staged 0 empty_db"
  by (simp add: staged_def empty_db_def stage.simps db_fine_def shape_def shape_ok_def)

lemma le4: "k \<le> (4 :: nat) \<longleftrightarrow> k = 0 \<or> k = 1 \<or> k = 2 \<or> k = 3 \<or> k = 4"
  by auto

lemmas table_defs = BASE_def LOGGED_def known_tables_def stage.simps script_defs

lemma has_base:
  "k \<noteq> 0 \<Longrightarrow> fst (stage k) ''nodes'' = Some (nodes_columns INTEGER)"
  "k \<noteq> 0 \<Longrightarrow> fst (stage k) ''visited'' = Some visited_columns"
  "k \<noteq> 0 \<Longrightarrow> fst (stage k) ''frontier'' = Some (frontier_columns (key_col ''id'' INTEGER AutoKey))"
  "k \<noteq> 0 \<Longrightarrow> fst (stage k) ''nodes_fts'' = None"
  "k \<noteq> 0 \<Longrightarrow> fst (snd (stage k)) ''nodes_fts'' = Some FTS_COLUMNS"
  by (simp_all add: table_defs)

lemma open_shape: "k \<le> 4 \<Longrightarrow> shape_all sqlite_schema (stage k) = Some (stage (max 1 k))"
  unfolding le4
  by (elim disjE; simp add: table_defs nodes_columns_def frontier_columns_def fun_eq_iff)

lemma file_shapes:
  "k \<le> 1 \<Longrightarrow> shape_all sql_001 (stage k) = Some (stage 2)"
  "shape_all sql_002 (stage 2) = Some (stage 3)"
  "shape_all sql_003 (stage 3) = Some (stage 4)"
proof -
  assume "k \<le> 1"
  then have "k = 0 \<or> k = 1" by auto
  then show "shape_all sql_001 (stage k) = Some (stage 2)"
    by (elim disjE; simp add: table_defs nodes_columns_def frontier_columns_def fun_eq_iff)
next
  show "shape_all sql_002 (stage 2) = Some (stage 3)"
    by (simp add: table_defs nodes_columns_def frontier_columns_def)
  show "shape_all sql_003 (stage 3) = Some (stage 4)"
    by (simp add: table_defs fun_eq_iff)
qed


text \<open>Running a script on a staged database.\<close>

lemma staged_exec:
  assumes "staged k db" and "list_all known_ddl ds" and "shape_all ds (stage k) = Some (stage j)" and "j \<le> 4"
  shows "\<exists>db'. exec_all ds db = Some db' \<and> staged j db'"
  using exec_all_shape [OF _ assms(2), of db] assms by (cases "exec_all ds db") (auto simp: staged_def)

lemma known_scripts: "list_all known_ddl sql_001" "list_all known_ddl sql_002" "list_all known_ddl sql_003" "list_all known_ddl sqlite_schema"
  using scripts_known by (simp_all add: sql_001_def)

lemma createDb_staged: "staged k db \<Longrightarrow> \<exists>db'. createDb db = Some db' \<and> staged (max 1 k) db'"
  using staged_exec [OF _ known_scripts(4) open_shape] by (simp add: createDb_def staged_def)

lemma versions_staged:
  "staged k db \<Longrightarrow> versions_of db = (if k \<le> 1 then None else Some (take (k - 1) [1, 2, 3]))"
proof -
  assume s: "staged k db"
  then have "map_of (db_tables db) = fst (stage k)" "db_versions db = snd (snd (stage k))"
    by (simp_all add: staged_def shape_def) (metis fst_conv, metis snd_conv)
  then show ?thesis
    using s by (auto simp: staged_def le4 versions_of_def table_defs)
qed

definition REPO_FILES :: "string list" where
  "REPO_FILES = [''001_initial_schema.sql'', ''002_performance_indexes.sql'', ''003_crawl_audit.sql'']"

lemma pending_staged:
  assumes "mset dir = mset repo_dir" and "staged k db"
  shows "getPendingMigrations dir (getAppliedMigrations (versions_of db)) = drop (k - 1) REPO_FILES"
proof -
  have "k \<le> 4" using assms(2) by (simp add: staged_def)
  then show ?thesis
    unfolding repo_pending [OF assms(1)] versions_staged [OF assms(2)] le4
    by (elim disjE; simp add: getAppliedMigrations_def REPO_FILES_def numeral_eq_Suc)
qed

text \<open>A file of the rest either fails or brings the database to the next stage, as it does in Migrate.\<close>

lemma run_file:
  assumes "staged k db" and "drop (k - 1) REPO_FILES = f # fs"
  shows "run_sql fault f db = None \<and> repo_exec fault f (versions_of db) = None \<or>
    (\<exists>db'. run_sql fault f db = Some db' \<and> staged (max 2 (k + 1)) db' \<and> fs = drop (max 2 (k + 1) - 1) REPO_FILES \<and>
      repo_exec fault f (versions_of db) = Some (versions_of db'))"
proof (cases "fault f")
  case True
  then show ?thesis by (simp add: run_sql_def repo_exec_def)
next
  case False
  have "k \<le> 4" using assms(1) by (simp add: staged_def)
  then consider "k \<le> 1" "f = ''001_initial_schema.sql''" "fs = drop 1 REPO_FILES"
    | "k = 2" "f = ''002_performance_indexes.sql''" "fs = drop 2 REPO_FILES"
    | "k = 3" "f = ''003_crawl_audit.sql''" "fs = drop 3 REPO_FILES"
    using assms(2) unfolding le4 by (elim disjE) (auto simp: REPO_FILES_def numeral_eq_Suc)
  then show ?thesis
  proof cases
    case 1
    obtain db' where db': "exec_all sql_001 db = Some db'" "staged 2 db'"
      using staged_exec [OF assms(1) known_scripts(1) file_shapes(1) [OF 1(1)]] by auto
    have m: "max 2 (k + 1) = 2" using 1(1) by simp
    show ?thesis
      unfolding m using db' False 1 versions_staged [OF assms(1)] versions_staged [of 2 db']
      by (simp add: run_sql_def repo_exec_def insert_version_def)
  next
    case 2
    obtain db' where "exec_all sql_002 db = Some db'" "staged 3 db'"
      using staged_exec [OF _ known_scripts(2) file_shapes(2)] assms(1) 2 by auto
    then show ?thesis
      using False 2 versions_staged [OF assms(1)] versions_staged [of 3 db']
      by (simp add: run_sql_def repo_exec_def insert_version_def numeral_eq_Suc)
  next
    case 3
    obtain db' where "exec_all sql_003 db = Some db'" "staged 4 db'"
      using staged_exec [OF _ known_scripts(3) file_shapes(3)] assms(1) 3 by auto
    then show ?thesis
      using False 3 versions_staged [OF assms(1)] versions_staged [of 4 db']
      by (simp add: run_sql_def repo_exec_def insert_version_def numeral_eq_Suc)
  qed
qed

lemma run_rest:
  "staged k db \<Longrightarrow> fs = drop (k - 1) REPO_FILES \<Longrightarrow>
    \<exists>j. k \<le> j \<and> staged j (snd (run_files (run_sql fault) fs db)) \<and>
      fst (run_files (run_sql fault) fs db) = fst (run_files (repo_exec fault) fs (versions_of db)) \<and>
      versions_of (snd (run_files (run_sql fault) fs db)) = snd (run_files (repo_exec fault) fs (versions_of db)) \<and>
      (fst (run_files (run_sql fault) fs db) \<longrightarrow> j = 4)"
proof (induction fs arbitrary: k db)
  case Nil
  then have "k = 4" by (auto simp: REPO_FILES_def staged_def)
  then show ?case using Nil by auto
next
  case (Cons f fs)
  consider "run_sql fault f db = None" "repo_exec fault f (versions_of db) = None"
    | db' where "run_sql fault f db = Some db'" "staged (max 2 (k + 1)) db'" "fs = drop (max 2 (k + 1) - 1) REPO_FILES"
        "repo_exec fault f (versions_of db) = Some (versions_of db')"
  proof -
    have "drop (k - 1) REPO_FILES = f # fs" using Cons.prems(2) by (rule sym)
    from run_file [OF Cons.prems(1) this, of fault] that show thesis by metis
  qed
  then show ?case
  proof cases
    case 1
    then show ?thesis using Cons.prems(1) by (intro exI [of _ k]) simp
  next
    case 2
    have eqs: "run_files (run_sql fault) (f # fs) db = run_files (run_sql fault) fs db'"
      "run_files (repo_exec fault) (f # fs) (versions_of db) = run_files (repo_exec fault) fs (versions_of db')"
      using 2(1,4) by (simp_all only: run_files.simps option.case)
    have "k \<le> j" if "max 2 (k + 1) \<le> j" for j using that by simp
    with Cons.IH [OF 2(2,3)] show ?thesis unfolding eqs by blast
  qed
qed


section \<open>Starts and migrations in any order\<close>

text \<open>\<open>Open\<close> is the start of a crawler on SQLite, \<open>Migrate\<close> a run of the migrations that may fail.\<close>

datatype db_run = Open | Migrate "string \<Rightarrow> bool" "string list"

fun after_run :: "db_run \<Rightarrow> database \<Rightarrow> database" where
  "after_run Open db = (case createDb db of None \<Rightarrow> db | Some db' \<Rightarrow> db')"
| "after_run (Migrate fault dir) db = snd (migrate_db fault dir db)"

fun run_ok :: "db_run \<Rightarrow> bool" where
  "run_ok Open \<longleftrightarrow> True"
| "run_ok (Migrate fault dir) \<longleftrightarrow> mset dir = mset repo_dir"

lemma migrate_staged:
  assumes "mset dir = mset repo_dir" and "staged k db"
  shows "\<exists>j. k \<le> j \<and> staged j (snd (migrate_db fault dir db)) \<and> (fst (migrate_db fault dir db) \<longrightarrow> j = 4) \<and>
    fst (migrate_db fault dir db) = fst (migrate (repo_exec fault) dir (versions_of db)) \<and>
    versions_of (snd (migrate_db fault dir db)) = snd (migrate (repo_exec fault) dir (versions_of db))"
  using run_rest [OF assms(2) refl, of fault] unfolding migrate_db_def migrate_def pending_staged [OF assms] by blast

lemma run_staged: "run_ok r \<Longrightarrow> staged k db \<Longrightarrow> \<exists>j. staged j (after_run r db)"
  using createDb_staged migrate_staged by (cases r) (fastforce, fastforce)

lemma runs_staged: "list_all run_ok rs \<Longrightarrow> staged k db \<Longrightarrow> \<exists>j. staged j (fold after_run rs db)"
proof (induction rs arbitrary: k db)
  case (Cons r rs)
  then show ?case using run_staged [of r k db] by auto
qed auto

lemma reached_staged: "list_all run_ok rs \<Longrightarrow> \<exists>j. staged j (fold after_run rs empty_db)"
  using runs_staged [OF _ staged_empty] .

lemma staged_prepares:
  assumes "staged k db" and "k \<noteq> 0"
  shows "prepares db sqlite_prepared" "prepares db server_queries"
proof -
  obtain T F V where s: "shape db = (T, F, V)" by (metis prod_cases3)
  have "stage k = (T, F, V)" using assms(1) s by (simp add: staged_def)
  then have "T ''nodes'' = Some (nodes_columns INTEGER)" "T ''visited'' = Some visited_columns"
    "T ''frontier'' = Some (frontier_columns (key_col ''id'' INTEGER AutoKey))" "T ''nodes_fts'' = None"
    "F ''nodes_fts'' = Some FTS_COLUMNS"
    using has_base [OF assms(2)] by simp_all
  then show "prepares db sqlite_prepared" "prepares db server_queries"
    by (simp_all add: prepares_def has_columns_shape s sqlite_prepared_def server_queries_def node_names_def FTS_COLUMNS_def
        nodes_columns_def visited_columns_def frontier_columns_def)
qed

lemma migration_succeeds:
  "fst (migrate (repo_exec (\<lambda>_. False)) dir (if k \<le> 1 then None else Some (take (k - 1) [1, 2, 3])))"
  if "mset dir = mset repo_dir" and "k \<le> 4"
  using that(2) unfolding le4 migrate_def repo_pending [OF that(1)]
  by (elim disjE; simp add: getAppliedMigrations_def repo_exec_def insert_version_def numeral_eq_Suc)

text \<open>C21. The database always fits the program: whatever crawlers have started and whichever migrations
  have run, failed or not, on a database that was new, a crawler can start, every statement
  that it prepares and every query of the server finds its tables and columns, a failing
  migration does not change that, and a migration without faults completes; whether the
  crawler or the migration comes first, the tables, their columns and the versions are the same.
\<close>

theorem schema_fits:
  fixes rs fault dir
  assumes "list_all run_ok rs" and "mset dir = mset repo_dir"
  defines "db \<equiv> fold after_run rs empty_db"
  shows "\<exists>db1 db2. createDb db = Some db1 \<and> prepares db1 sqlite_prepared \<and> prepares db1 server_queries \<and>
    prepares (snd (migrate_db fault dir db1)) sqlite_prepared \<and>
    fst (migrate_db (\<lambda>_. False) dir db) \<and> createDb (snd (migrate_db (\<lambda>_. False) dir db)) = Some db2 \<and>
    shape (snd (migrate_db (\<lambda>_. False) dir db1)) = shape db2"
proof -
  let ?m = "migrate_db (\<lambda>_. False) dir"
  obtain k where k: "staged k db" using reached_staged [OF assms(1)] by (auto simp: db_def)
  obtain db1 where 1: "createDb db = Some db1" "staged (max 1 k) db1" using createDb_staged [OF k] by blast
  have fin: "fst (?m d) \<and> staged 4 (snd (?m d))" if d: "staged j d" for j d
  proof -
    have "j \<le> 4" using d by (simp add: staged_def)
    from migration_succeeds [OF assms(2) this] show ?thesis
      using migrate_staged [OF assms(2) d, of "\<lambda>_. False"] unfolding versions_staged [OF d] by blast
  qed
  obtain db2 where 2: "createDb (snd (?m db)) = Some db2" "staged 4 db2"
    using createDb_staged [of 4 "snd (?m db)"] fin [OF k] by auto
  obtain j where j: "max 1 k \<le> j" "staged j (snd (migrate_db fault dir db1))" using migrate_staged [OF assms(2) 1(2)] by blast
  have "shape (snd (?m db1)) = shape db2" using fin [OF 1(2)] 2(2) by (simp add: staged_def)
  moreover have "prepares (snd (migrate_db fault dir db1)) sqlite_prepared" using staged_prepares(1) [OF j(2)] j(1) by simp
  ultimately show ?thesis using 1 2 fin [OF k] staged_prepares [OF 1(2)] by auto
qed


lemma schema_fits_witness:
  "\<exists>db1. createDb (fold after_run [Migrate (\<lambda>f. f = ''003_crawl_audit.sql'') repo_dir, Open] empty_db) = Some db1 \<and>
    prepares db1 sqlite_prepared"
proof -
  have "list_all run_ok [Migrate (\<lambda>f. f = ''003_crawl_audit.sql'') repo_dir, Open]" "mset repo_dir = mset repo_dir" by simp_all
  from schema_fits [OF this] show ?thesis by blast
qed

text \<open>
  Migrating the real tables is what theory Migrate says: on every database
  that crawlers and migrations have made, in any order and with any files failing, a run over
  the full schema completes exactly when the run that looks at the versions alone does, and
  leaves the versions that it leaves.
\<close>

theorem migrate_db_refines:
  assumes "list_all run_ok rs" and "mset dir = mset repo_dir"
  defines "db \<equiv> fold after_run rs empty_db"
  shows "fst (migrate_db fault dir db) = fst (migrate (repo_exec fault) dir (versions_of db)) \<and>
    versions_of (snd (migrate_db fault dir db)) = snd (migrate (repo_exec fault) dir (versions_of db))"
  using reached_staged [OF assms(1)] migrate_staged [OF assms(2)] unfolding db_def by blast

lemma migrate_db_refines_witness:
  "versions_of (snd (migrate_db (\<lambda>f. f = ''003_crawl_audit.sql'') repo_dir (fold after_run [Open] empty_db))) =
    snd (migrate (repo_exec (\<lambda>f. f = ''003_crawl_audit.sql'')) repo_dir (versions_of (fold after_run [Open] empty_db)))"
proof -
  have "list_all run_ok [Open]" "mset repo_dir = mset repo_dir" by simp_all
  from migrate_db_refines [OF this] show ?thesis by blast
qed

text \<open>A table of an older program is never extended: a crawler that needs another column cannot start.\<close>

lemma old_table_kept:
  assumes "map_of (db_tables db) ''nodes'' = Some cols" and "createDb db = Some db'" and "''ogTitle'' \<notin> set (map c_name cols)"
  shows "\<not> prepares db' sqlite_prepared"
proof -
  have step: "map_of (db_tables d') ''nodes'' = Some cols"
    if "exec_ddl x d = Some d'" "map_of (db_tables d) ''nodes'' = Some cols" for x d d'
    using that by (cases x) (auto simp: map_add_def split: if_splits)
  have "map_of (db_tables d') ''nodes'' = Some cols"
    if "exec_all ds d = Some d'" "map_of (db_tables d) ''nodes'' = Some cols" for ds d d'
    using that by (induction ds arbitrary: d) (auto split: option.splits dest: step)
  then have "map_of (db_tables db') ''nodes'' = Some cols" using assms(1,2) by (simp add: createDb_def)
  then have "\<not> has_columns db' ''nodes'' node_names" using assms(3) by (simp add: has_columns_def node_names_def)
  then show ?thesis by (simp add: prepares_def sqlite_prepared_def)
qed

text \<open>PostgreSQL: the schema fits the statements, and a second start finds it complete.\<close>

lemma pg_schema_fits:
  "\<exists>db. initPgSchema g empty_db = Some db \<and> prepares db pg_queries \<and> initPgSchema False db = Some db"
  by (cases g) (simp_all add: initPgSchema_def pg_schema_def common_indexes_def empty_db_def has_columns_def prepares_def
      pg_queries_def node_names_def nodes_columns_def visited_columns_def frontier_columns_def)

end
