(* ===== verification/Server.thy ===== *)
theory Server
  imports Routes Environment
begin

text \<open>
  server.ts as a whole: what one HTTP request goes through, and the process that serves it.
  The middleware and the routes are those of the other theories, in the order in which
  server.ts registers them; the state is everything the module keeps. Express itself is not
  part of the repository: \<open>matches m r p\<close> is whether \<open>app.get(r)\<close> takes a request of method \<open>m\<close>
  for path \<open>p\<close>. A request is one step: without Redis the code up to the routes never waits,
  and only a search waits later. What lies outside answers through \<open>world\<close>.
\<close>

section \<open>Requests and answers\<close>

text \<open>\<open>rq_id\<close> and \<open>rq_accept\<close> are the headers \<open>x-request-id\<close> and \<open>accept-encoding\<close>.\<close>

record http_request =
  rq_method :: string
  rq_path :: string
  rq_id :: "string option"
  rq_accept :: "string option"
  rq_ip :: "string option"
  rq_remote :: "string option"
  rq_q :: query_param

record ('h, 'r) world =
  w_id_now :: nat
  w_redis :: redis_answer
  w_limit_now :: time_ms
  w_limit_now' :: time_ms
  w_search_redis :: redis_answer
  w_search_now :: time_ms
  w_search_now' :: time_ms
  w_now :: time_ms
  w_now' :: time_ms
  w_uptime :: time_ms
  w_select_ok :: bool
  w_ready :: ready_env
  w_process :: process_env
  w_search :: "('h, 'r) search_env"

datatype ('z, 'r) payload =
  Content "string + 'z"
| LiveJson "string \<times> time_ms \<times> int"
| ReadyJson "(string \<times> bool) list"
| BreakersJson "CircuitBreakerStatus list"
| StatsJson stats_body
| SearchJson "'r search_reply"
| LimitedJson string
| MissingJson string string
| ErrorBody json_body

record ('z, 'r) http_reply =
  h_status :: int
  h_headers :: "(string \<times> string) list"
  h_payload :: "('z, 'r) payload"

text \<open>The pages and settings of the process; each page with its compression.\<close>

record 'z server_setup =
  su_flags :: backend_flags
  su_backend :: db_backend
  su_search :: "string \<times> 'z"
  su_status :: "string \<times> 'z"
  su_dashboard :: "string \<times> 'z"

record ('z, 'h) server =
  sv_reqCounter :: nat
  sv_clients :: clients
  sv_breakers :: registry
  sv_searchDb :: "'h search_db"
  sv_stats :: cached_stats
  sv_worker :: supervisor
  sv_tree :: "'z tree_server"
  sv_backends :: backends

section \<open>Routes\<close>

datatype route = Live | Ready | CircuitBreakers | TreeApi | StatsApi | SearchApi | MetricsPage |
  SearchHtml | StatusHtml | DashboardHtml

text \<open>In the order of their registration.\<close>

definition ROUTES :: "(string \<times> route) list" where
  "ROUTES = [(''/health/live'', Live), (''/health/ready'', Ready), (''/api/circuit-breakers'', CircuitBreakers),
     (''/api/tree'', TreeApi), (''/api/stats'', StatsApi), (''/api/search'', SearchApi),
     (''/metrics'', MetricsPage), (''/search'', SearchHtml), (''/status'', StatusHtml), (''/'', DashboardHtml)]"

type_synonym matcher = "string \<Rightarrow> string \<Rightarrow> string \<Rightarrow> bool"

definition find_route :: "matcher \<Rightarrow> http_request \<Rightarrow> route option" where
  "find_route matches rq = map_option snd (find (\<lambda>(p, _). matches (rq_method rq) p (rq_path rq)) ROUTES)"

definition send_json :: "(string \<times> string) list \<Rightarrow> int \<Rightarrow> ('z, 'r) payload \<Rightarrow> ('z, 'r) http_reply" where
  "send_json hs status body = \<lparr>h_status = status, h_headers = hs, h_payload = body\<rparr>"

text \<open>A page: its headers are set one after the other.\<close>

definition send_page :: "(string \<times> string) list \<Rightarrow> 'z response \<Rightarrow> ('z, 'r) http_reply" where
  "send_page hs r = \<lparr>h_status = r_status r, h_headers = fold (\<lambda>(k, v). setHeader k v) (r_headers r) hs,
     h_payload = Content (r_body r)\<rparr>"

definition too_many :: "(string \<times> string) list \<Rightarrow> int \<Rightarrow> string \<Rightarrow> ('z, 'r) http_reply" where
  "too_many hs secs msg = send_json (setHeader ''Retry-After'' (js_int secs) hs) 429 (LimitedJson msg)"

text \<open>\<open>/api/search\<close> behind its limiter; the breaker is the registry's entry named database.\<close>

definition serve_search ::
  "'z server_setup \<Rightarrow> ('h, 'r) world \<Rightarrow> http_request \<Rightarrow> (string \<times> string) list \<Rightarrow> ('z, 'h) server \<Rightarrow>
   ('z, 'r) http_reply option \<times> ('z, 'h) server" where
  "serve_search su w rq hs s =
    (case searchRateLimit (w_search_redis w) (w_search_now w) (w_search_now' w)
        (client_ip (rq_ip rq) (rq_remote rq)) (sv_clients s) of
       (TooMany secs msg, cl) \<Rightarrow> (Some (too_many hs secs msg), s\<lparr>sv_clients := cl\<rparr>)
     | (Next, cl) \<Rightarrow>
       (case search_handler ((w_search w)\<lparr>es_enabled := ES_ENABLED (su_flags su),
             es_connected := es_isConnected (bk_es (sv_backends s)), se_backend := su_backend su\<rparr>)
           (w_now w) (w_now' w) (rq_q rq) (the (map_of (sv_breakers s) ''database''), sv_searchDb s) of
         (out, b, sdb) \<Rightarrow>
           (case out of NoReply \<Rightarrow> None | Reply r \<Rightarrow> Some (send_json hs 200 (SearchJson r)),
            s\<lparr>sv_clients := cl, sv_breakers := AList.update ''database'' b (sv_breakers s), sv_searchDb := sdb\<rparr>)))"

definition run_route ::
  "'z server_setup \<Rightarrow> ('h, 'r) world \<Rightarrow> http_request \<Rightarrow> (string \<times> string) list \<Rightarrow> route \<Rightarrow> ('z, 'h) server \<Rightarrow>
   ('z, 'r) http_reply option \<times> ('z, 'h) server" where
  "run_route su w rq hs r s =
    (case r of
       Live \<Rightarrow> (Some (send_json hs 200 (LiveJson (health_live (w_now w) (w_uptime w)))), s)
     | Ready \<Rightarrow>
         (case health_ready (su_backend su) (w_now w) (db_open (w_search w)) (w_select_ok w)
             (ready_conns (su_flags su) (sv_backends s) (w_ready w)) (sv_worker s) (sv_breakers s, sv_searchDb s) of
           ((status, checks), reg, sdb) \<Rightarrow>
             (Some (send_json hs status (ReadyJson checks)), s\<lparr>sv_breakers := reg, sv_searchDb := sdb\<rparr>))
     | CircuitBreakers \<Rightarrow>
         (case api_circuit_breakers (w_now w) (sv_breakers s) of
           (bs, reg) \<Rightarrow> (Some (send_json hs 200 (BreakersJson bs)), s\<lparr>sv_breakers := reg\<rparr>))
     | TreeApi \<Rightarrow> (Some (send_page hs (tree_api (rq_accept rq) (sv_tree s))), s)
     | StatsApi \<Rightarrow>
         (case api_stats (w_now w) (su_backend su) (su_flags su) (sv_stats s) (sv_worker s) (sv_breakers s) of
           (b, reg) \<Rightarrow> (Some (send_json hs 200 (StatsJson b)), s\<lparr>sv_breakers := reg\<rparr>))
     | SearchApi \<Rightarrow> serve_search su w rq hs s
     | MetricsPage \<Rightarrow>
         (case metrics_page (w_now w) (w_process w) (sv_stats s) (sv_breakers s) of
           (p, reg) \<Rightarrow> (Some (send_page hs p), s\<lparr>sv_breakers := reg\<rparr>))
     | SearchHtml \<Rightarrow> (Some (send_page hs (search_page (rq_accept rq) (fst (su_search su)) (snd (su_search su)))), s)
     | StatusHtml \<Rightarrow> (Some (send_page hs (status_page (rq_accept rq) (fst (su_status su)) (snd (su_status su)))), s)
     | DashboardHtml \<Rightarrow>
         (Some (send_page hs (dashboard_page (rq_accept rq) (fst (su_dashboard su)) (snd (su_dashboard su)))), s))"

text \<open>The middleware, then the first route that matches, then the answer to any other path.\<close>

definition serve ::
  "'z server_setup \<Rightarrow> matcher \<Rightarrow> ('h, 'r) world \<Rightarrow> http_request \<Rightarrow> ('z, 'h) server \<Rightarrow>
   ('z, 'r) http_reply option \<times> ('z, 'h) server" where
  "serve su matches w rq s =
    (let hs = securityHeaders [];
         (i, n) = requestId (rq_id rq) (w_id_now w) (sv_reqCounter s);
         hs = setHeader ''X-Request-Id'' i hs;
         (verdict, cl) = rateLimit (w_redis w) (w_limit_now w) (w_limit_now' w)
           (client_ip (rq_ip rq) (rq_remote rq)) (sv_clients s);
         s = s\<lparr>sv_reqCounter := n, sv_clients := cl\<rparr>
     in case verdict of
          TooMany secs msg \<Rightarrow> (Some (too_many hs secs msg), s)
        | Next \<Rightarrow>
          (case find_route matches rq of
             None \<Rightarrow>
               (case not_found (rq_path rq) of
                  (status, msg, path) \<Rightarrow> (Some (send_json hs status (MissingJson msg path)), s))
           | Some r \<Rightarrow> run_route su w rq hs r s))"

text \<open>What a route throws before it answers goes to the last middleware.\<close>

definition send_error :: "(string \<times> string) list \<Rightarrow> string option \<Rightarrow> thrown \<Rightarrow> ('z, 'r) http_reply" where
  "send_error hs rid err = (case error_handler rid err of (status, body) \<Rightarrow> send_json hs status (ErrorBody body))"

section \<open>The process\<close>

text \<open>
  What happens to the process: a request, a message of the crawler, a compression that ends,
  an event of the crawler's process, the clean-up timer of the limiter, and a change in the
  connection of a backend.
\<close>

datatype ('h, 'r) server_event =
  Request "('h, 'r) world" http_request
| StatsMsg stats_msg
| TreeEvent tree_event
| WorkerEvent sup_event
| CleanupDue time_ms
| BackendsNow backends

fun server_apply ::
  "'z server_setup \<Rightarrow> matcher \<Rightarrow> (string \<Rightarrow> 'z) \<Rightarrow> ('h, 'r) server_event \<Rightarrow> ('z, 'h) server \<Rightarrow> ('z, 'h) server" where
  "server_apply su matches gz (Request w rq) s = snd (serve su matches w rq s)"
| "server_apply su matches gz (StatsMsg m) s = s\<lparr>sv_stats := on_stats m (sv_stats s)\<rparr>"
| "server_apply su matches gz (TreeEvent e) s = s\<lparr>sv_tree := tree_apply gz e (sv_tree s)\<rparr>"
| "server_apply su matches gz (WorkerEvent e) s = s\<lparr>sv_worker := sup_apply e (sv_worker s)\<rparr>"
| "server_apply su matches gz (CleanupDue t) s = s\<lparr>sv_clients := cleanupClients t (sv_clients s)\<rparr>"
| "server_apply su matches gz (BackendsNow b) s = s\<lparr>sv_backends := b\<rparr>"

text \<open>The answers given along a run, in order, each with its request.\<close>

fun server_log ::
  "'z server_setup \<Rightarrow> matcher \<Rightarrow> (string \<Rightarrow> 'z) \<Rightarrow> ('h, 'r) server_event list \<Rightarrow> ('z, 'h) server \<Rightarrow>
   (http_request \<times> ('z, 'r) http_reply option) list" where
  "server_log su matches gz [] s = []"
| "server_log su matches gz (e # es) s =
    (case e of Request w rq \<Rightarrow> [(rq, fst (serve su matches w rq s))] | _ \<Rightarrow> []) @
    server_log su matches gz es (server_apply su matches gz e s)"

abbreviation server_run ::
  "'z server_setup \<Rightarrow> matcher \<Rightarrow> (string \<Rightarrow> 'z) \<Rightarrow> ('h, 'r) server_event list \<Rightarrow> ('z, 'h) server \<Rightarrow> ('z, 'h) server" where
  "server_run su matches gz es s \<equiv> fold (server_apply su matches gz) es s"

text \<open>The state at the start: the module makes its breaker, has its tree from \<open>start_tree\<close>, forks, connects.\<close>

definition server_start ::
  "time_ms \<Rightarrow> 'z tree_server \<Rightarrow> bool \<Rightarrow> backend_flags \<Rightarrow> init_env \<Rightarrow> es_index option \<Rightarrow> ('z, 'h) server" where
  "server_start now tree fork_ok flags env i =
    \<lparr>sv_reqCounter = 0, sv_clients = [], sv_breakers = [(''database'', dbBreaker now)],
     sv_searchDb = no_search_db, sv_stats = initial_stats, sv_worker = assign_worker fork_ok new_supervisor,
     sv_tree = tree, sv_backends = initBackends flags env (no_backends i)\<rparr>"

section \<open>What every answer carries\<close>

definition stamped :: "string \<Rightarrow> (string \<times> string) list \<Rightarrow> bool" where
  "stamped i hs \<longleftrightarrow>
    (\<forall>k v. map_of SECURITY_HEADERS k = Some v \<longrightarrow> map_of hs k = Some v) \<and> map_of hs ''X-Request-Id'' = Some i"

definition own_header :: "string \<Rightarrow> bool" where
  "own_header k \<longleftrightarrow> k = ''X-Request-Id'' \<or> map_of SECURITY_HEADERS k \<noteq> None"

lemma own_headers [simp]:
  "\<not> own_header ''Retry-After''" "\<not> own_header ''Content-Type''" "\<not> own_header ''Content-Encoding''"
  "\<not> own_header ''Cache-Control''" "map_of SECURITY_HEADERS ''X-Request-Id'' = None"
  "map_of SECURITY_HEADERS ''Retry-After'' = None"
  by (simp_all add: own_header_def SECURITY_HEADERS_def)

lemma stamped_setHeader: "stamped i hs \<Longrightarrow> \<not> own_header k \<Longrightarrow> stamped i (setHeader k v hs)"
  by (auto simp: stamped_def own_header_def setHeader_def)

lemma stamped_start: "stamped i (setHeader ''X-Request-Id'' i (securityHeaders []))"
  using headers_set [of "[]"] by (auto simp: stamped_def setHeader_def own_header_def)

lemma stamped_fold:
  "stamped i hs \<Longrightarrow> \<forall>(k, v) \<in> set kvs. \<not> own_header k \<Longrightarrow> stamped i (fold (\<lambda>(k, v). setHeader k v) kvs hs)"
  by (induction kvs arbitrary: hs) (auto simp: stamped_setHeader)

lemma stamped_security: "stamped i hs \<Longrightarrow> set SECURITY_HEADERS \<subseteq> set hs"
proof
  fix kv assume "stamped i hs" and kv: "kv \<in> set SECURITY_HEADERS"
  have "map_of SECURITY_HEADERS (fst kv) = Some (snd kv)"
    using security_header_names kv by (cases kv) simp
  then show "kv \<in> set hs" using \<open>stamped i hs\<close> by (cases kv) (auto simp: stamped_def dest: map_of_SomeD)
qed

text \<open>\<open>retry\<close> is whether the headers ask the client to come back later.\<close>

definition retry :: "(string \<times> string) list \<Rightarrow> bool" where
  "retry hs \<longleftrightarrow> map_of hs ''Retry-After'' \<noteq> None"

lemma retry_setHeader [simp]: "retry (setHeader k v hs) \<longleftrightarrow> k = ''Retry-After'' \<or> retry hs"
  by (simp add: retry_def setHeader_def)

lemma retry_start [simp]: "\<not> retry (securityHeaders [])"
  by (simp add: retry_def headers_set)

lemma retry_fold:
  "\<forall>(k, v) \<in> set kvs. k \<noteq> ''Retry-After'' \<Longrightarrow> retry (fold (\<lambda>(k, v). setHeader k v) kvs hs) \<longleftrightarrow> retry hs"
  by (induction kvs arbitrary: hs) auto

definition page_ok :: "'z response \<Rightarrow> bool" where
  "page_ok p \<longleftrightarrow> r_status p = 200 \<and>
    fst ` set (r_headers p) \<subseteq> {''Content-Type'', ''Content-Encoding'', ''Cache-Control''}"

lemma page_ok_pages:
  "page_ok (tree_api ae t)" "page_ok (search_page ae x z)" "page_ok (status_page ae x z)"
  "page_ok (dashboard_page ae x z)" "page_ok (fst (metrics_page now p c reg))"
  by (simp_all add: page_ok_def tree_api_def search_page_def status_page_def dashboard_page_def metrics_page_def
      negotiate_def html_type_def split_beta)

definition good_reply :: "string \<Rightarrow> ('z, 'r) http_reply \<Rightarrow> bool" where
  "good_reply i r \<longleftrightarrow> stamped i (h_headers r) \<and> (h_status r = 429 \<longleftrightarrow> retry (h_headers r)) \<and>
    h_status r \<in> {200, 404, 429, 503}"

lemma good_json: "stamped i hs \<Longrightarrow> \<not> retry hs \<Longrightarrow> c \<in> {200, 404, 503} \<Longrightarrow> good_reply i (send_json hs c b)"
  by (auto simp: good_reply_def send_json_def)

lemma good_limited: "stamped i hs \<Longrightarrow> good_reply i (too_many hs secs msg)"
  by (simp add: good_reply_def too_many_def send_json_def stamped_setHeader)

lemma good_page:
  assumes "stamped i hs" and "\<not> retry hs" and "page_ok p"
  shows "good_reply i (send_page hs p)"
proof -
  have "\<forall>(k, v) \<in> set (r_headers p). \<not> own_header k \<and> k \<noteq> ''Retry-After''"
    using assms(3) by (fastforce simp: page_ok_def)
  then have "stamped i (h_headers (send_page hs p))" "\<not> retry (h_headers (send_page hs p))"
    unfolding send_page_def using stamped_fold [OF assms(1)] retry_fold assms(2) by (auto simp: split_beta)
  then show ?thesis using assms(3) by (simp add: good_reply_def page_ok_def send_page_def)
qed

lemma search_no_reply: "fst (search_handler env t0 t1 p st) = NoReply \<Longrightarrow> p = Structured"
proof (rule ccontr)
  assume no: "fst (search_handler env t0 t1 p st) = NoReply" and p: "p \<noteq> Structured"
  obtain out st' where h: "search_handler env t0 t1 p st = (out, st')" by (metis surj_pair)
  show False using p h by (cases rule: search_cases) (use no h in auto)
qed

lemma serve_search_good:
  assumes "stamped i hs" and "\<not> retry hs"
  shows "case fst (serve_search su w rq hs s) of None \<Rightarrow> rq_q rq = Structured | Some r \<Rightarrow> good_reply i r"
  by (auto simp: serve_search_def split_beta good_limited [OF assms(1)] good_json [OF assms]
      dest: search_no_reply split: RateLimit.response.split search_outcome.split)

lemma run_route_good:
  assumes "stamped i hs" and "\<not> retry hs"
  shows "case fst (run_route su w rq hs r s :: ('z, 'r) http_reply option \<times> _) of
      None \<Rightarrow> r = SearchApi \<and> rq_q rq = Structured | Some a \<Rightarrow> good_reply i a"
proof (cases "r = SearchApi")
  case True
  then show ?thesis
    using serve_search_good [OF assms, where su = su and w = w and rq = rq and s = s] by (simp add: run_route_def split: option.splits)
next
  case False
  moreover have "good_reply i (send_json hs (fst (fst (health_ready be now out ok env wk st))) body)"
    for be now out ok env wk st and body :: "('z, 'r) payload"
    by (rule good_json [OF assms]) (cases st, simp add: health_ready_def split_beta Let_def)
  ultimately show ?thesis
    by (cases r) (simp_all add: run_route_def split_beta good_json [OF assms] good_page [OF assms] page_ok_pages)
qed

text \<open>A request step by step: its identifier, the headers all answers start with, the verdict of the
  limiter, and the state then.\<close>

definition request_name :: "('h, 'r) world \<Rightarrow> http_request \<Rightarrow> ('z, 'h) server \<Rightarrow> string" where
  "request_name w rq s = fst (requestId (rq_id rq) (w_id_now w) (sv_reqCounter s))"

definition base_headers :: "('h, 'r) world \<Rightarrow> http_request \<Rightarrow> ('z, 'h) server \<Rightarrow> (string \<times> string) list" where
  "base_headers w rq s = setHeader ''X-Request-Id'' (request_name w rq s) (securityHeaders [])"

abbreviation address :: "http_request \<Rightarrow> string" where
  "address rq \<equiv> client_ip (rq_ip rq) (rq_remote rq)"

abbreviation limit_call :: "('h, 'r) world \<Rightarrow> http_request \<Rightarrow> ('z, 'h) server \<Rightarrow> RateLimit.response \<times> clients" where
  "limit_call w rq s \<equiv> rateLimit (w_redis w) (w_limit_now w) (w_limit_now' w) (address rq) (sv_clients s)"

definition limited_state :: "('h, 'r) world \<Rightarrow> http_request \<Rightarrow> ('z, 'h) server \<Rightarrow> ('z, 'h) server" where
  "limited_state w rq s = s\<lparr>sv_reqCounter := snd (requestId (rq_id rq) (w_id_now w) (sv_reqCounter s)),
     sv_clients := snd (limit_call w rq s)\<rparr>"

lemma serve_refused:
  "fst (limit_call w rq s) = TooMany secs msg \<Longrightarrow>
    serve su matches w rq s = (Some (too_many (base_headers w rq s) secs msg), limited_state w rq s)"
  by (simp add: serve_def base_headers_def request_name_def limited_state_def Let_def split_beta)

lemma serve_unknown:
  "fst (limit_call w rq s) = Next \<Longrightarrow> find_route matches rq = None \<Longrightarrow>
    serve su matches w rq s =
      (Some (send_json (base_headers w rq s) 404 (MissingJson ''Not found'' (rq_path rq))), limited_state w rq s)"
  by (simp add: serve_def base_headers_def request_name_def limited_state_def not_found_def Let_def split_beta)

lemma serve_routed:
  "fst (limit_call w rq s) = Next \<Longrightarrow> find_route matches rq = Some r \<Longrightarrow>
    serve su matches w rq s = run_route su w rq (base_headers w rq s) r (limited_state w rq s)"
  by (simp add: serve_def base_headers_def request_name_def limited_state_def Let_def split_beta)

lemma serve_cases [case_names refused unknown routed]:
  assumes "\<And>secs msg. fst (limit_call w rq s) = TooMany secs msg \<Longrightarrow> P"
    and "fst (limit_call w rq s) = Next \<Longrightarrow> find_route matches rq = None \<Longrightarrow> P"
    and "\<And>r. fst (limit_call w rq s) = Next \<Longrightarrow> find_route matches rq = Some r \<Longrightarrow> P"
  shows P
  using assms by (cases "fst (limit_call w rq s)"; cases "find_route matches rq") auto

lemma serve_good:
  "case fst (serve su matches w rq s) of
     None \<Rightarrow> find_route matches rq = Some SearchApi \<and> rq_q rq = Structured
   | Some r \<Rightarrow> good_reply (request_name w rq s) r"
proof -
  have hs: "stamped (request_name w rq s) (base_headers w rq s)" "\<not> retry (base_headers w rq s)"
    by (simp_all add: base_headers_def stamped_start)
  show ?thesis
  proof (cases rule: serve_cases [where w = w and rq = rq and s = s and matches = matches])
    case (refused secs msg)
    then show ?thesis by (simp add: serve_refused good_limited [OF hs(1)])
  next
    case unknown
    then show ?thesis by (simp add: serve_unknown good_json [OF hs])
  next
    case (routed r)
    then show ?thesis
      using run_route_good [OF hs, where r = r and su = su and w = w and rq = rq and s = "limited_state w rq s"]
      by (auto simp: serve_routed split: option.splits)
  qed
qed


section \<open>Identifiers along a run\<close>

text \<open>The identifiers that the server made up and a client can see, and those it could have made.\<close>

definition made_up :: "(http_request \<times> ('z, 'r) http_reply option) list \<Rightarrow> string list" where
  "made_up answers = concat (map (\<lambda>(rq, a).
     case a of None \<Rightarrow> []
     | Some r \<Rightarrow> if or_str (rq_id rq) [] = [] then [the (map_of (h_headers r) ''X-Request-Id'')] else []) answers)"

fun id_inputs :: "('h, 'r) server_event list \<Rightarrow> (string option \<times> nat) list" where
  "id_inputs [] = []"
| "id_inputs (Request w rq # es) = (rq_id rq, w_id_now w) # id_inputs es"
| "id_inputs (_ # es) = id_inputs es"

lemma counter_run_route [simp]: "sv_reqCounter (snd (run_route su w rq hs r s)) = sv_reqCounter s"
  by (cases r) (simp_all add: run_route_def serve_search_def split_beta split: RateLimit.response.split)

lemma counter_serve:
  "sv_reqCounter (snd (serve su matches w rq s)) = snd (requestId (rq_id rq) (w_id_now w) (sv_reqCounter s))"
  by (cases rule: serve_cases [where w = w and rq = rq and s = s and matches = matches])
    (simp_all add: serve_refused serve_unknown serve_routed limited_state_def)

lemma reply_id:
  "fst (serve su matches w rq s) = Some r \<Longrightarrow>
    map_of (h_headers r) ''X-Request-Id'' = Some (fst (requestId (rq_id rq) (w_id_now w) (sv_reqCounter s)))"
  using serve_good [where su = su and matches = matches and w = w and rq = rq and s = s]
  by (simp add: good_reply_def stamped_def request_name_def)

lemma made_up_generated:
  "subseq (made_up (server_log su matches gz es s)) (generated_ids (id_inputs es) (sv_reqCounter s))"
proof (induction es arbitrary: s)
  case (Cons e es)
  note ih = Cons [of "server_apply su matches gz e s"]
  show ?case
  proof (cases e)
    case (Request w rq)
    then show ?thesis
      using ih by (auto simp: made_up_def counter_serve reply_id split_beta split: option.split)
  qed (use ih in \<open>simp_all add: made_up_def\<close>)
qed (simp add: made_up_def)

lemma subseq_distinct: "subseq xs ys \<Longrightarrow> distinct ys \<Longrightarrow> distinct xs"
  by (metis distinct_nthsI subseq_conv_nths)

text \<open>The identifiers that the server makes up for its answers are all different, along every
  run of the process, with any clock, refused and failed requests and crawler events among them.
\<close>

theorem answered_ids_distinct: "distinct (made_up (server_log su matches gz es s))"
  using made_up_generated request_ids_distinct by (metis subseq_distinct)

section \<open>The parts do not disturb each other\<close>

lemma serve_frame [simp]:
  "sv_worker (snd (serve su matches w rq s)) = sv_worker s" "sv_tree (snd (serve su matches w rq s)) = sv_tree s"
  "sv_stats (snd (serve su matches w rq s)) = sv_stats s" "sv_backends (snd (serve su matches w rq s)) = sv_backends s"
proof -
  have route: "sv_worker (snd (run_route su w rq hs r t)) = sv_worker t \<and> sv_tree (snd (run_route su w rq hs r t)) = sv_tree t \<and>
    sv_stats (snd (run_route su w rq hs r t)) = sv_stats t \<and> sv_backends (snd (run_route su w rq hs r t)) = sv_backends t" for hs r t
    by (cases r) (simp_all add: run_route_def serve_search_def split_beta split: RateLimit.response.split)
  show "sv_worker (snd (serve su matches w rq s)) = sv_worker s" "sv_tree (snd (serve su matches w rq s)) = sv_tree s"
    "sv_stats (snd (serve su matches w rq s)) = sv_stats s" "sv_backends (snd (serve su matches w rq s)) = sv_backends s"
    by (cases rule: serve_cases [where w = w and rq = rq and s = s and matches = matches];
        simp add: serve_refused serve_unknown serve_routed limited_state_def route)+
qed

text \<open>What each part sees of a run.\<close>

fun worker_part :: "('h, 'r) server_event \<Rightarrow> sup_event option" where
  "worker_part (WorkerEvent e) = Some e"
| "worker_part _ = None"

fun tree_part :: "('h, 'r) server_event \<Rightarrow> tree_event option" where
  "tree_part (TreeEvent e) = Some e"
| "tree_part _ = None"

fun stats_part :: "('h, 'r) server_event \<Rightarrow> stats_msg option" where
  "stats_part (StatsMsg m) = Some m"
| "stats_part _ = None"


section \<open>The state of the process\<close>

definition db_breaker_ok :: "CircuitBreaker \<Rightarrow> bool" where
  "db_breaker_ok b \<longleftrightarrow> cb_ok b \<and> cb_name b = ''database'' \<and> failureThreshold b = 3 \<and> resetTimeout b = 15000"

lemma db_breaker_ok_ops [preserves]:
  assumes "db_breaker_ok b"
  shows "db_breaker_ok (snd (cb_admit t b))" "db_breaker_ok (cb_onSuccess t b)" "db_breaker_ok (cb_onFailure t b)"
    "db_breaker_ok (snd (getStatus t b))"
proof -
  have "db_breaker_ok b' \<longleftrightarrow> cb_ok b'"
    if "cb_name b' = cb_name b" "failureThreshold b' = failureThreshold b" "resetTimeout b' = resetTimeout b" for b'
    using that assms by (simp add: db_breaker_ok_def)
  moreover have "cb_ok b" using assms by (simp add: db_breaker_ok_def)
  moreover have "snd (getStatus t b) = currentState t b" by (simp add: getStatus_def Let_def)
  ultimately show "db_breaker_ok (snd (cb_admit t b))" "db_breaker_ok (cb_onSuccess t b)"
    "db_breaker_ok (cb_onFailure t b)" "db_breaker_ok (snd (getStatus t b))"
    using cb_ok_admit [of b t] cb_ok_onSuccess [of b t] cb_ok_onFailure [of b t] cb_ok_currentState [of b t]
    by (simp_all add: breaker_ops split: State.split)
qed

lemma db_breaker_ok_execute [preserves]:
  assumes "db_breaker_ok b" shows "db_breaker_ok (fst (snd (cb_execute t0 t1 fn fb (b, x))))"
proof -
  obtain a b' where a: "cb_admit t0 b = (a, b')" by fastforce
  then have "db_breaker_ok b'" using db_breaker_ok_ops(1) [OF assms, of t0] by simp
  then show ?thesis
    by (cases a) (auto simp: cb_execute_def a preserves split: sum.split prod.split)
qed

lemma db_breaker_ok_search [preserves]:
  "db_breaker_ok b \<Longrightarrow> db_breaker_ok (fst (snd (search_handler env t0 t1 p (b, sdb))))"
  using db_breaker_ok_execute [of b t0 t1 "open_search_db t0 (db_open env)" "Some (\<lambda>_. Inr None)" sdb]
  by (auto simp: search_handler_def Let_def split: option.split sum.split prod.split)

definition breakers_ok :: "registry \<Rightarrow> bool" where
  "breakers_ok reg \<longleftrightarrow> (\<exists>b. reg = [(''database'', b)] \<and> db_breaker_ok b)"

lemma breakers_ok_report [preserves]: "breakers_ok reg \<Longrightarrow> breakers_ok (snd (getAllBreakers now reg))"
  using db_breaker_ok_ops(4) by (auto simp: breakers_ok_def split_beta Let_def)

lemma breakers_ok_run_route:
  assumes "breakers_ok (sv_breakers s)" shows "breakers_ok (sv_breakers (snd (run_route su w rq hs r s)))"
proof -
  obtain b where b: "sv_breakers s = [(''database'', b)]" "db_breaker_ok b" using assms by (auto simp: breakers_ok_def)
  have "breakers_ok (sv_breakers (snd (serve_search su w rq hs s)))"
    using assms b(2)
    by (auto simp: serve_search_def b(1) breakers_ok_def split_beta intro!: db_breaker_ok_search split: RateLimit.response.split)
  then show ?thesis
    using assms breakers_ok_report [OF assms]
    by (cases r) (simp_all add: run_route_def split_beta health_ready_def api_circuit_breakers_def api_stats_def
        metrics_page_def getMetrics_def Let_def)
qed

lemma distinct_getClient: "distinct (keys m) \<Longrightarrow> distinct (keys (snd (getClient now ip m)))"
  by (auto simp: getClient_def Let_def distinct_keys_update split: option.split)

lemma distinct_limit [preserves]:
  "distinct (keys m) \<Longrightarrow> distinct (keys (snd (rateLimit r now now' ip m)))"
  "distinct (keys m) \<Longrightarrow> distinct (keys (snd (searchRateLimit r now now' ip m)))"
  using distinct_getClient [of m now ip]
  by (auto simp: rateLimit_def searchRateLimit_def Let_def split_beta distinct_keys_update
      split: option.split sum.split bool.split)

lemma distinct_cleanup [preserves]: "distinct (keys m) \<Longrightarrow> distinct (keys (cleanupClients now m))"
  by (simp add: cleanupClients_def distinct_map_filter)

text \<open>What a request does to the table of the limiter.\<close>

abbreviation search_call :: "('h, 'r) world \<Rightarrow> http_request \<Rightarrow> clients \<Rightarrow> RateLimit.response \<times> clients" where
  "search_call w rq m \<equiv> searchRateLimit (w_search_redis w) (w_search_now w) (w_search_now' w) (address rq) m"

lemma clients_run_route:
  "sv_clients (snd (run_route su w rq hs r s)) =
    (if r = SearchApi then snd (search_call w rq (sv_clients s)) else sv_clients s)"
  by (cases r) (simp_all add: run_route_def serve_search_def split_beta split: RateLimit.response.split)

lemma clients_serve:
  "sv_clients (snd (serve su matches w rq s)) =
    (if fst (limit_call w rq s) = Next \<and> find_route matches rq = Some SearchApi
     then snd (search_call w rq (snd (limit_call w rq s))) else snd (limit_call w rq s))"
  by (cases rule: serve_cases [where w = w and rq = rq and s = s and matches = matches])
    (simp_all add: serve_refused serve_unknown serve_routed clients_run_route limited_state_def)

lemma breakers_serve:
  "breakers_ok (sv_breakers s) \<Longrightarrow> breakers_ok (sv_breakers (snd (serve su matches w rq s)))"
  by (cases rule: serve_cases [where w = w and rq = rq and s = s and matches = matches])
    (simp_all add: serve_refused serve_unknown serve_routed breakers_ok_run_route limited_state_def)

definition server_ok :: "('z, 'h) server \<Rightarrow> bool" where
  "server_ok s \<longleftrightarrow> breakers_ok (sv_breakers s) \<and> distinct (keys (sv_clients s)) \<and> sup_ok (sv_worker s)"

lemma server_ok_start: "server_ok (server_start now tree fork_ok flags env i)"
proof -
  have "sup_start (assign_worker fork_ok new_supervisor)" by (auto simp: sup_start_def)
  then have "sup_ok (assign_worker fork_ok new_supervisor)" by (rule supervision.inv_init)
  moreover have "db_breaker_ok (dbBreaker now)" by (simp add: db_breaker_ok_def cb_ok_def)
  ultimately show ?thesis by (simp add: server_ok_def server_start_def breakers_ok_def)
qed

lemma server_ok_apply [preserves]: "server_ok s \<Longrightarrow> server_ok (server_apply su matches gz e s)"
  by (cases e) (auto simp: server_ok_def clients_serve breakers_serve preserves)

lemma server_ok_run: "server_ok s \<Longrightarrow> server_ok (server_run su matches gz es s)"
  by (induction es arbitrary: s) (simp_all add: server_ok_apply)


section \<open>Quotas of the whole server\<close>

text \<open>
  A limiter inside a system: \<open>act\<close> is any event of the system, some of which are arrivals at
  the limiter; the others, and what else an arrival does, leave the window of the client alone
  as long as they are \<open>calm\<close>.
\<close>

fun passes ::
  "('e \<Rightarrow> 'u \<Rightarrow> 'u) \<Rightarrow> ('e \<Rightarrow> 'u \<Rightarrow> time_ms option) \<Rightarrow> ('e \<Rightarrow> 'u \<Rightarrow> bool) \<Rightarrow> 'e list \<Rightarrow> 'u \<Rightarrow> bool list" where
  "passes act arrival passed [] u = []"
| "passes act arrival passed (e # es) u =
    (case arrival e u of None \<Rightarrow> [] | Some _ \<Rightarrow> [passed e u]) @ passes act arrival passed es (act e u)"

locale shared_limiter = window_limiter hit wstart used window limit
  for hit :: "time_ms \<Rightarrow> 's \<Rightarrow> bool \<times> 's" and wstart used window limit +
  fixes act :: "'e \<Rightarrow> 'u \<Rightarrow> 'u" and part :: "'u \<Rightarrow> 's"
    and arrival :: "'e \<Rightarrow> 'u \<Rightarrow> time_ms option" and passed :: "'e \<Rightarrow> 'u \<Rightarrow> bool"
    and calm :: "time_ms \<Rightarrow> 'e \<Rightarrow> bool"
  assumes arrives: "calm t0 e \<Longrightarrow> wstart (part u) = Some t0 \<Longrightarrow> arrival e u = Some t \<Longrightarrow>
      t - t0 \<le> window \<and> (passed e u \<longleftrightarrow> fst (hit t (part u))) \<and> wstart (part (act e u)) = Some t0 \<and>
      used (part (act e u)) = used (snd (hit t (part u)))"
    and elsewhere: "calm t0 e \<Longrightarrow> wstart (part u) = Some t0 \<Longrightarrow> arrival e u = None \<Longrightarrow>
      wstart (part (act e u)) = Some t0 \<and> used (part (act e u)) = used (part u)"
begin

lemma quota_left:
  assumes "wstart (part u) = Some t0" and "list_all (calm t0) es" and "0 \<le> used (part u)"
  shows "admitted (passes act arrival passed es u) =
    min (int (length (passes act arrival passed es u))) (max 0 (limit - used (part u)))"
  using assms
proof (induction es arbitrary: u)
  case (Cons e es)
  show ?case
  proof (cases "arrival e u")
    case None
    then show ?thesis using elsewhere [of t0 e u] Cons by simp
  next
    case (Some t)
    then have a: "t - t0 \<le> window" "passed e u \<longleftrightarrow> fst (hit t (part u))" "wstart (part (act e u)) = Some t0"
      "used (part (act e u)) = used (snd (hit t (part u)))" using arrives [of t0 e u t] Cons.prems by simp_all
    from hit_same [OF Cons.prems(1) a(1)] have "passed e u \<longleftrightarrow> used (part u) + 1 \<le> limit"
      "used (part (act e u)) = used (part u) + 1" using a by simp_all
    with Cons.IH [OF a(3)] Cons.prems Some show ?thesis by auto
  qed
qed simp

end

text \<open>Without an answer from Redis the counters decide.\<close>

definition in_memory :: "redis_answer \<Rightarrow> bool" where
  "in_memory r \<longleftrightarrow> (case r of Some (Inr _) \<Rightarrow> False | _ \<Rightarrow> True)"

lemma limit_general:
  assumes "in_memory r"
  shows "(fst (rateLimit r t t' ip m) = Next \<longleftrightarrow> fst (general_hit ip t m)) \<and>
    snd (rateLimit r t t' ip m) = snd (general_hit ip t m)"
  using assms by (auto simp: in_memory_def rateLimit_def general_hit_def Let_def split_beta split: option.splits sum.splits)

lemma limit_search:
  assumes "in_memory r"
  shows "(fst (searchRateLimit r t t' ip m) = Next \<longleftrightarrow> fst (search_hit ip t m)) \<and>
    snd (searchRateLimit r t t' ip m) = snd (search_hit ip t m)"
  using assms by (auto simp: in_memory_def searchRateLimit_def search_hit_def Let_def split_beta split: option.splits sum.splits)

text \<open>The two counters of a window.\<close>

lemma general_hit_search:
  "win_start ip m = Some t0 \<Longrightarrow> t - t0 \<le> RATE_LIMIT_WINDOW_MS \<Longrightarrow>
    win_search ip (snd (general_hit ip t m)) = win_search ip m"
  "win_start ip m = None \<or> (\<exists>t0. win_start ip m = Some t0 \<and> t - t0 > RATE_LIMIT_WINDOW_MS) \<Longrightarrow>
    win_search ip (snd (general_hit ip t m)) = 0"
  by (auto simp: limiter_defs split: option.splits)

lemma search_hit_general:
  "win_start ip m = Some t0 \<Longrightarrow> t - t0 \<le> RATE_LIMIT_WINDOW_MS \<Longrightarrow>
    win_count ip (snd (search_hit ip t m)) = win_count ip m"
  by (auto simp: limiter_defs split: option.splits)

text \<open>Other addresses and the clean-up leave the record of an address alone.\<close>

lemma searchRateLimit_frame: "ip' \<noteq> ip \<Longrightarrow> map_of (snd (searchRateLimit redis t t' ip m)) ip' = map_of m ip'"
  using getClient_frame [of ip' ip t m]
  by (auto simp: searchRateLimit_def Let_def split_beta split: option.splits sum.splits bool.splits)

lemma cleanup_keeps:
  "map_of m ip = Some c \<Longrightarrow> now - c_start c \<le> RATE_LIMIT_WINDOW_MS * 2 \<Longrightarrow> map_of (cleanupClients now m) ip = Some c"
  by (induction m) (auto simp: cleanupClients_def split: if_splits)

lemma clients_serve_other:
  "address rq \<noteq> ip \<Longrightarrow> map_of (sv_clients (snd (serve su matches w rq s))) ip = map_of (sv_clients s) ip"
  by (simp add: clients_serve rateLimit_frame searchRateLimit_frame)

text \<open>The requests of one address at the two limiters, and what else may happen in its window.\<close>

fun general_arrival :: "string \<Rightarrow> ('h, 'r) server_event \<Rightarrow> ('z, 'h) server \<Rightarrow> time_ms option" where
  "general_arrival ip (Request w rq) s = (if address rq = ip then Some (w_limit_now w) else None)"
| "general_arrival ip _ s = None"

fun general_passed :: "('h, 'r) server_event \<Rightarrow> ('z, 'h) server \<Rightarrow> bool" where
  "general_passed (Request w rq) s \<longleftrightarrow> fst (limit_call w rq s) = Next"
| "general_passed _ s \<longleftrightarrow> False"

fun search_arrival :: "matcher \<Rightarrow> string \<Rightarrow> ('h, 'r) server_event \<Rightarrow> ('z, 'h) server \<Rightarrow> time_ms option" where
  "search_arrival matches ip (Request w rq) s =
    (if address rq = ip \<and> fst (limit_call w rq s) = Next \<and> find_route matches rq = Some SearchApi
     then Some (w_search_now w) else None)"
| "search_arrival matches ip _ s = None"

fun search_passed :: "('h, 'r) server_event \<Rightarrow> ('z, 'h) server \<Rightarrow> bool" where
  "search_passed (Request w rq) s \<longleftrightarrow> fst (search_call w rq (snd (limit_call w rq s))) = Next"
| "search_passed _ s \<longleftrightarrow> False"

fun calm_for :: "string \<Rightarrow> time_ms \<Rightarrow> ('h, 'r) server_event \<Rightarrow> bool" where
  "calm_for ip t0 (Request w rq) \<longleftrightarrow> address rq \<noteq> ip \<or>
    in_memory (w_redis w) \<and> w_limit_now w - t0 \<le> RATE_LIMIT_WINDOW_MS \<and>
    in_memory (w_search_redis w) \<and> w_search_now w - t0 \<le> RATE_LIMIT_WINDOW_MS"
| "calm_for ip t0 (CleanupDue t) \<longleftrightarrow> t - t0 \<le> RATE_LIMIT_WINDOW_MS * 2"
| "calm_for ip t0 _ \<longleftrightarrow> True"

abbreviation one_if :: "bool \<Rightarrow> int" where
  "one_if b \<equiv> (if b then 1 else 0)"

lemma calm_request:
  assumes "calm_for ip t0 (Request w rq)" and "address rq = ip" and "win_start ip m = Some t0"
  shows "(fst (rateLimit (w_redis w) (w_limit_now w) (w_limit_now' w) ip m) = Next \<longleftrightarrow> win_count ip m + 1 \<le> RATE_LIMIT_MAX)"
    "win_start ip (snd (rateLimit (w_redis w) (w_limit_now w) (w_limit_now' w) ip m)) = Some t0"
    "win_count ip (snd (rateLimit (w_redis w) (w_limit_now w) (w_limit_now' w) ip m)) = win_count ip m + 1"
    "win_search ip (snd (rateLimit (w_redis w) (w_limit_now w) (w_limit_now' w) ip m)) = win_search ip m"
    "(fst (search_call w rq m) = Next \<longleftrightarrow> win_search ip m + 1 \<le> RATE_LIMIT_SEARCH_MAX)"
    "win_start ip (snd (search_call w rq m)) = Some t0"
    "win_count ip (snd (search_call w rq m)) = win_count ip m"
    "win_search ip (snd (search_call w rq m)) = win_search ip m + 1"
  using assms general.hit_same [of ip m t0 "w_limit_now w"] search.hit_same [of ip m t0 "w_search_now w"]
    limit_general [of "w_redis w" "w_limit_now w" "w_limit_now' w" ip m]
    limit_search [of "w_search_redis w" "w_search_now w" "w_search_now' w" ip m]
    general_hit_search(1) [of ip m t0 "w_limit_now w"] search_hit_general [of ip m t0 "w_search_now w"]
  by simp_all

lemma calm_window:
  assumes "calm_for ip t0 e" and "win_start ip (sv_clients s) = Some t0"
  shows "win_start ip (sv_clients (server_apply su matches gz e s)) = Some t0 \<and>
    win_count ip (sv_clients (server_apply su matches gz e s)) =
      win_count ip (sv_clients s) + one_if (general_arrival ip e s \<noteq> None) \<and>
    win_search ip (sv_clients (server_apply su matches gz e s)) =
      win_search ip (sv_clients s) + one_if (search_arrival matches ip e s \<noteq> None)"
proof (cases e)
  case (Request w rq)
  show ?thesis
  proof (cases "address rq = ip")
    case True
    let ?m = "snd (limit_call w rq s)"
    note c = assms(1) [unfolded Request]
    note l = calm_request [OF c True assms(2)]
    have "win_start ip ?m = Some t0" using l(2) True by simp
    note k = calm_request [OF c True this]
    show ?thesis using l k True by (simp add: Request clients_serve)
  next
    case False
    then show ?thesis
      using clients_serve_other [OF False, of su matches w s] assms(2) by (simp add: Request win_start_def win_count_def win_search_def)
  qed
next
  case (CleanupDue t)
  then obtain c where "map_of (sv_clients s) ip = Some c" "t - c_start c \<le> RATE_LIMIT_WINDOW_MS * 2"
    using assms by (auto simp: win_start_def)
  from cleanup_keeps [OF this] this(1) assms(2) CleanupDue show ?thesis
    by (simp add: win_start_def win_count_def win_search_def)
qed (use assms in simp_all)

interpretation quota: shared_limiter "general_hit ip" "win_start ip" "win_count ip" RATE_LIMIT_WINDOW_MS RATE_LIMIT_MAX
  "server_apply su matches gz" "sv_clients :: ('z, 'h) server \<Rightarrow> clients"
  "general_arrival ip :: ('h, 'r) server_event \<Rightarrow> _" general_passed "calm_for ip"
  for ip su matches gz
proof unfold_locales
  fix t0 t and e :: "('h, 'r) server_event" and u :: "('z, 'h) server"
  assume calm: "calm_for ip t0 e" "win_start ip (sv_clients u) = Some t0"
  note w = calm_window [OF calm, of su matches gz]
  show "t - t0 \<le> RATE_LIMIT_WINDOW_MS \<and> general_passed e u = fst (general_hit ip t (sv_clients u)) \<and>
      win_start ip (sv_clients (server_apply su matches gz e u)) = Some t0 \<and>
      win_count ip (sv_clients (server_apply su matches gz e u)) = win_count ip (snd (general_hit ip t (sv_clients u)))"
    if t: "general_arrival ip e u = Some t"
  proof -
    obtain w rq where e: "e = Request w rq" "address rq = ip" "t = w_limit_now w"
      using t by (cases e) (auto split: if_splits)
    then have "t - t0 \<le> RATE_LIMIT_WINDOW_MS" using calm by simp
    moreover have "general_passed e u = fst (general_hit ip t (sv_clients u))"
      using calm(1) limit_general [of "w_redis w" t "w_limit_now' w" ip "sv_clients u"] by (simp add: e)
    ultimately show ?thesis using general.hit_same [OF calm(2)] w t by simp
  qed
  show "win_start ip (sv_clients (server_apply su matches gz e u)) = Some t0 \<and>
      win_count ip (sv_clients (server_apply su matches gz e u)) = win_count ip (sv_clients u)"
    if "general_arrival ip e u = None" using w that by simp
qed

interpretation search_quota: shared_limiter "search_hit ip" "win_start ip" "win_search ip" RATE_LIMIT_WINDOW_MS
  RATE_LIMIT_SEARCH_MAX "server_apply su matches gz" "sv_clients :: ('z, 'h) server \<Rightarrow> clients"
  "search_arrival matches ip :: ('h, 'r) server_event \<Rightarrow> _" search_passed "calm_for ip"
  for ip su matches gz
proof unfold_locales
  fix t0 t and e :: "('h, 'r) server_event" and u :: "('z, 'h) server"
  assume calm: "calm_for ip t0 e" "win_start ip (sv_clients u) = Some t0"
  note w = calm_window [OF calm, of su matches gz]
  show "t - t0 \<le> RATE_LIMIT_WINDOW_MS \<and> search_passed e u = fst (search_hit ip t (sv_clients u)) \<and>
      win_start ip (sv_clients (server_apply su matches gz e u)) = Some t0 \<and>
      win_search ip (sv_clients (server_apply su matches gz e u)) = win_search ip (snd (search_hit ip t (sv_clients u)))"
    if t: "search_arrival matches ip e u = Some t"
  proof -
    obtain w rq where e: "e = Request w rq" "address rq = ip" "t = w_search_now w"
      using t by (cases e) (auto split: if_splits)
    then have d: "t - t0 \<le> RATE_LIMIT_WINDOW_MS" using calm by simp
    note c = calm(1) [unfolded e(1)]
    have "win_start ip (snd (limit_call w rq u)) = Some t0" using calm_request(2) [OF c e(2) calm(2)] e(2) by simp
    then have "search_passed e u \<longleftrightarrow> win_search ip (sv_clients u) + 1 \<le> RATE_LIMIT_SEARCH_MAX"
      using calm_request(5) [OF c e(2)] calm_request(4) [OF c e(2) calm(2)] e by simp
    then show ?thesis using search.hit_same [OF calm(2) d] d w t by simp
  qed
  show "win_start ip (sv_clients (server_apply su matches gz e u)) = Some t0 \<and>
      win_search ip (sv_clients (server_apply su matches gz e u)) = win_search ip (sv_clients u)"
    if "search_arrival matches ip e u = None" using w that by simp
qed

text \<open>What a client can see of it: an answer of 429 with the message of one of the limiters.\<close>

definition GENERAL_REFUSAL :: string where "GENERAL_REFUSAL = ''Too many requests. Try again later.''"
definition SEARCH_REFUSAL :: string where "SEARCH_REFUSAL = ''Search rate limit exceeded. Try again later.''"

definition refusal :: "string \<Rightarrow> ('z, 'r) http_reply option \<Rightarrow> bool" where
  "refusal msg a \<longleftrightarrow> (case a of None \<Rightarrow> False
     | Some r \<Rightarrow> h_status r = 429 \<and> (case h_payload r of LimitedJson m \<Rightarrow> m = msg | _ \<Rightarrow> False))"

definition answers_to :: "string \<Rightarrow> (http_request \<times> ('z, 'r) http_reply option) list \<Rightarrow> ('z, 'r) http_reply option list" where
  "answers_to ip answers = map snd (filter (\<lambda>(rq, _). address rq = ip) answers)"

definition searches_of ::
  "matcher \<Rightarrow> string \<Rightarrow> (http_request \<times> ('z, 'r) http_reply option) list \<Rightarrow> ('z, 'r) http_reply option list" where
  "searches_of matches ip answers = map snd (filter (\<lambda>(rq, a). address rq = ip \<and>
     find_route matches rq = Some SearchApi \<and> \<not> refusal GENERAL_REFUSAL a) answers)"

definition unrefused :: "string \<Rightarrow> ('z, 'r) http_reply option list \<Rightarrow> int" where
  "unrefused msg as = int (length (filter (\<lambda>a. \<not> refusal msg a) as))"

lemma messages_differ: "GENERAL_REFUSAL \<noteq> SEARCH_REFUSAL"
  by (simp add: GENERAL_REFUSAL_def SEARCH_REFUSAL_def)

lemma limit_message: "fst (rateLimit r t t' ip m) = TooMany secs msg \<Longrightarrow> msg = GENERAL_REFUSAL"
  by (auto simp: rateLimit_def GENERAL_REFUSAL_def Let_def split_beta split: option.splits sum.splits bool.splits if_splits)

lemma search_message: "fst (searchRateLimit r t t' ip m) = TooMany secs msg \<Longrightarrow> msg = SEARCH_REFUSAL"
  by (auto simp: searchRateLimit_def SEARCH_REFUSAL_def Let_def split_beta split: option.splits sum.splits bool.splits if_splits)

lemma refusal_too_many [simp]: "refusal msg (Some (too_many hs secs m)) \<longleftrightarrow> m = msg"
  by (auto simp: refusal_def too_many_def send_json_def)

lemma refusal_search_route:
  "refusal msg (fst (run_route su w rq hs SearchApi s)) \<longleftrightarrow>
    msg = SEARCH_REFUSAL \<and> fst (search_call w rq (sv_clients s)) \<noteq> Next"
proof (cases "fst (search_call w rq (sv_clients s))")
  case Next
  then show ?thesis
    by (auto simp: run_route_def serve_search_def split_beta refusal_def send_json_def split: search_outcome.split)
next
  case (TooMany secs m)
  then show ?thesis
    using search_message [OF TooMany] by (auto simp: run_route_def serve_search_def split_beta)
qed

lemma refusal_other_route: "r \<noteq> SearchApi \<Longrightarrow> \<not> refusal msg (fst (run_route su w rq hs r s))"
  by (cases r) (simp_all add: run_route_def split_beta refusal_def send_json_def send_page_def)

lemma refusal_serve:
  "refusal GENERAL_REFUSAL (fst (serve su matches w rq s)) \<longleftrightarrow> fst (limit_call w rq s) \<noteq> Next"
proof (cases rule: serve_cases [where w = w and rq = rq and s = s and matches = matches])
  case (refused secs msg)
  then show ?thesis using limit_message [OF refused] by (simp add: serve_refused)
next
  case unknown
  then show ?thesis by (simp add: serve_unknown refusal_def send_json_def)
next
  case (routed r)
  then show ?thesis
    using messages_differ
    by (cases "r = SearchApi") (simp_all add: serve_routed refusal_search_route refusal_other_route)
qed

lemma refusal_serve_search:
  "fst (limit_call w rq s) = Next \<Longrightarrow> find_route matches rq = Some SearchApi \<Longrightarrow>
    refusal SEARCH_REFUSAL (fst (serve su matches w rq s)) \<longleftrightarrow> \<not> search_passed (Request w rq) s"
  by (simp add: serve_routed refusal_search_route limited_state_def)

lemma passes_general:
  "passes (server_apply su matches gz) (general_arrival ip) general_passed es s =
    map (\<lambda>a. \<not> refusal GENERAL_REFUSAL a) (answers_to ip (server_log su matches gz es s))"
proof (induction es arbitrary: s)
  case (Cons e es)
  show ?case by (cases e) (simp_all add: Cons answers_to_def refusal_serve)
qed (simp add: answers_to_def)

lemma passes_search:
  "passes (server_apply su matches gz) (search_arrival matches ip) search_passed es s =
    map (\<lambda>a. \<not> refusal SEARCH_REFUSAL a) (searches_of matches ip (server_log su matches gz es s))"
proof (induction es arbitrary: s)
  case (Cons e es)
  show ?case by (cases e) (auto simp: Cons searches_of_def refusal_serve refusal_serve_search)
qed (simp add: searches_of_def)

lemma admitted_unrefused: "admitted (map (\<lambda>a. \<not> refusal msg a) as) = unrefused msg as"
  by (simp add: admitted_def unrefused_def filter_map comp_def id_def)

lemma quotas_in_window:
  assumes "win_start ip (sv_clients s) = Some t0" and "list_all (calm_for ip t0) es"
    and "0 \<le> win_count ip (sv_clients s)" and "0 \<le> win_search ip (sv_clients s)"
  shows "unrefused GENERAL_REFUSAL (answers_to ip (server_log su matches gz es s)) =
      min (int (length (answers_to ip (server_log su matches gz es s)))) (max 0 (RATE_LIMIT_MAX - win_count ip (sv_clients s)))"
    "unrefused SEARCH_REFUSAL (searches_of matches ip (server_log su matches gz es s)) =
      min (int (length (searches_of matches ip (server_log su matches gz es s))))
        (max 0 (RATE_LIMIT_SEARCH_MAX - win_search ip (sv_clients s)))"
  using quota.quota_left [OF assms(1-3), where su = su and matches = matches and gz = gz]
    search_quota.quota_left [OF assms(1,2,4), where su = su and matches = matches and gz = gz]
  by (simp_all add: passes_general passes_search admitted_unrefused)

text \<open>C5. Both quotas hold for the server as a whole: from the request that opens the window of an
  address, while the window lasts and Redis does not answer, 100 requests of the address pass
  the general limiter, and of its searches that pass it 30 pass that of the search (all, when
  there are fewer), whatever other clients, routes, timers and crawler events come between;
  the others get a 429.
\<close>

theorem server_quotas:
  fixes su :: "'z server_setup" and es :: "('h, 'r) server_event list" and s :: "('z, 'h) server" and gz matches
  assumes "win_start ip (sv_clients s) = None \<or>
      (\<exists>t1. win_start ip (sv_clients s) = Some t1 \<and> w_limit_now w - t1 > RATE_LIMIT_WINDOW_MS)"
    and "address rq = ip" and "list_all (calm_for ip (w_limit_now w)) (Request w rq # es)"
  defines "answers \<equiv> server_log su matches gz (Request w rq # es) s"
  shows "unrefused GENERAL_REFUSAL (answers_to ip answers) = min (int (length (answers_to ip answers))) 100 \<and>
    unrefused SEARCH_REFUSAL (searches_of matches ip answers) = min (int (length (searches_of matches ip answers))) 30"
proof -
  let ?t = "w_limit_now w" and ?m = "snd (limit_call w rq s)" and ?s = "snd (serve su matches w rq s)"
  have calm: "calm_for ip ?t (Request w rq)" "list_all (calm_for ip ?t) es" using assms(3) by simp_all
  have hit: "fst (limit_call w rq s) = Next \<longleftrightarrow> fst (general_hit ip ?t (sv_clients s))"
    "?m = snd (general_hit ip ?t (sv_clients s))"
    using limit_general [of "w_redis w" ?t "w_limit_now' w" ip "sv_clients s"] calm(1) assms(2) by simp_all
  have m: "fst (limit_call w rq s) = Next" "win_start ip ?m = Some ?t" "win_count ip ?m = 1" "win_search ip ?m = 0"
    using general.hit_fresh [OF assms(1)] general_hit_search(2) [OF assms(1)] unfolding hit by simp_all
  note c = calm_request [OF calm(1) assms(2) m(2)]
  define found where "found \<longleftrightarrow> find_route matches rq = Some SearchApi"
  have s': "win_start ip (sv_clients ?s) = Some ?t" "win_count ip (sv_clients ?s) = 1"
    "win_search ip (sv_clients ?s) = one_if found"
    using m c assms(2) by (simp_all add: clients_serve found_def)
  have first: "\<not> refusal GENERAL_REFUSAL (fst (serve su matches w rq s))"
    "found \<Longrightarrow> \<not> refusal SEARCH_REFUSAL (fst (serve su matches w rq s))"
    using m c(5) assms(2) by (simp_all add: refusal_serve refusal_serve_search found_def rate_constants)
  have rest: "answers = (rq, fst (serve su matches w rq s)) # server_log su matches gz es ?s"
    by (simp add: answers_def)
  note q = quotas_in_window [OF s'(1) calm(2), where su = su and matches = matches and gz = gz, unfolded s'(2,3)]
  show ?thesis
    using q first assms(2) unfolding rest
    by (auto simp: answers_to_def searches_of_def unrefused_def rate_constants found_def split: if_splits)
qed

section \<open>Observers\<close>

text \<open>
  Asking for the state of a breaker moves an open one on when its reset time has passed; a
  call that comes later would have done the same, so that it finds no difference but in the
  time of the change.
\<close>

lemma currentState_twice:
  "t \<le> t0 \<Longrightarrow> \<exists>x. currentState t0 (currentState t b) = (currentState t0 b)\<lparr>lastStateChange := x\<rparr>"
proof -
  assume "t \<le> t0"
  have keep: "\<exists>x. b = b\<lparr>lastStateChange := x\<rparr>" for b by (rule exI [of _ "lastStateChange b"]) simp
  show ?thesis
  proof (cases "cb_state b = OPEN \<and> t - last_failure b \<ge> resetTimeout b")
    case True
    then have "currentState t0 (currentState t b) = (currentState t0 b)\<lparr>lastStateChange := t\<rparr>"
      using \<open>t \<le> t0\<close> by (simp add: currentState_def cb_transition_def Let_def)
    then show ?thesis ..
  next
    case False
    then have "currentState t b = b" by (auto simp: currentState_def)
    then show ?thesis using keep by simp
  qed
qed

definition alike :: "time_ms \<Rightarrow> CircuitBreaker \<Rightarrow> CircuitBreaker \<Rightarrow> bool" where
  "alike t b b' \<longleftrightarrow> b' = b \<or> b' = currentState t b"

lemma alike_later:
  assumes "alike t b b'" and "t \<le> t0"
  shows "\<exists>x. currentState t0 b' = (currentState t0 b)\<lparr>lastStateChange := x\<rparr>"
proof (cases "b' = b")
  case True
  then show ?thesis by (intro exI [of _ "lastStateChange (currentState t0 b)"]) simp
next
  case False
  then show ?thesis using assms currentState_twice by (simp add: alike_def)
qed

lemma alike_admit:
  assumes "alike t b b'" and "t \<le> t0" shows "fst (cb_admit t0 b') = fst (cb_admit t0 b)"
  using alike_later [OF assms] by (auto simp: cb_admit_def Let_def)

lemma alike_status:
  assumes "alike t b b'" and "t \<le> t0"
  shows "s_state (fst (getStatus t0 b')) = s_state (fst (getStatus t0 b))" "s_name (fst (getStatus t0 b')) = s_name (fst (getStatus t0 b))"
  using alike_later [OF assms] by (auto simp: getStatus_def Let_def)

lemma execute_verdict:
  assumes "fst (cb_admit t0 b') = fst (cb_admit t0 b)"
  shows "fst (cb_execute t0 t1 fn (Some f) (b', x)) = fst (cb_execute t0 t1 fn (Some f) (b, x))"
proof -
  obtain a c c' where "cb_admit t0 b = (a, c)" "cb_admit t0 b' = (a, c')" using assms by (metis fst_conv surj_pair)
  then show ?thesis by (cases a) (auto simp: cb_execute_def split: prod.split sum.split)
qed

lemma search_verdict:
  assumes "alike t b b'" and "t \<le> t0"
  shows "fst (search_handler env t0 t1 p (b', sdb)) = fst (search_handler env t0 t1 p (b, sdb))"
proof -
  let ?x = "\<lambda>b. cb_execute t0 t1 (open_search_db t0 (db_open env)) (Some (\<lambda>_. Inr None)) (b, sdb)"
  have "fst (?x b') = fst (?x b)" by (rule execute_verdict [OF alike_admit [OF assms]])
  then obtain v w w' where "?x b = (v, w)" "?x b' = (v, w')" by (metis fst_conv surj_pair)
  then show ?thesis
    by (simp add: search_handler_def Let_def split: option.split sum.split)
qed

text \<open>Two states of the server that differ in nothing a later request of address \<open>ip\<close> can see.\<close>

definition same_view :: "time_ms \<Rightarrow> string \<Rightarrow> ('z, 'h) server \<Rightarrow> ('z, 'h) server \<Rightarrow> bool" where
  "same_view t ip s s' \<longleftrightarrow> map_of (sv_clients s') ip = map_of (sv_clients s) ip \<and> sv_searchDb s' = sv_searchDb s \<and>
    sv_stats s' = sv_stats s \<and> sv_worker s' = sv_worker s \<and> sv_tree s' = sv_tree s \<and> sv_backends s' = sv_backends s \<and>
    (\<exists>b b'. sv_breakers s = [(''database'', b)] \<and> sv_breakers s' = [(''database'', b')] \<and> alike t b b')"

lemma searchRateLimit_local:
  assumes "map_of m ip = map_of m' ip"
  shows "fst (searchRateLimit redis t t' ip m) = fst (searchRateLimit redis t t' ip m')"
  using assms
  by (auto simp: searchRateLimit_def getClient_def Let_def split_beta
      split: option.splits sum.splits bool.splits)

lemma observer_view:
  assumes "breakers_ok (sv_breakers s)" and "address rq \<noteq> ip"
    and "find_route matches rq \<notin> {Some SearchApi, Some Ready}"
  shows "same_view (w_now w) ip s (snd (serve su matches w rq s))"
proof -
  obtain b where b: "sv_breakers s = [(''database'', b)]" using assms(1) by (auto simp: breakers_ok_def)
  have "same_view (w_now w) ip s (snd (run_route su w rq hs r (limited_state w rq s)))" if "r \<notin> {SearchApi, Ready}" for hs r
    using that assms(2)
    by (cases r) (auto simp: run_route_def same_view_def limited_state_def b alike_def rateLimit_frame split_beta
        api_circuit_breakers_def api_stats_def metrics_page_def getMetrics_def Let_def getStatus_def)
  moreover have "same_view (w_now w) ip s (limited_state w rq s)"
    using assms(2) by (simp add: same_view_def limited_state_def b alike_def rateLimit_frame)
  ultimately show ?thesis
    using assms(3)
    by (cases rule: serve_cases [where w = w and rq = rq and s = s and matches = matches])
      (auto simp: serve_refused serve_unknown serve_routed)
qed

lemma view_route:
  assumes "same_view t (address rq) s s'" and "t \<le> w_now w" and "r \<notin> {CircuitBreakers, MetricsPage}"
  shows "fst (run_route su w rq hs r s') = fst (run_route su w rq hs r s)"
proof -
  obtain b b' where b: "sv_breakers s = [(''database'', b)]" "sv_breakers s' = [(''database'', b')]" "alike t b b'"
    using assms(1) by (auto simp: same_view_def)
  have same: "map_of (sv_clients s') (address rq) = map_of (sv_clients s) (address rq)" "sv_searchDb s' = sv_searchDb s"
    "sv_stats s' = sv_stats s" "sv_worker s' = sv_worker s" "sv_tree s' = sv_tree s" "sv_backends s' = sv_backends s"
    using assms(1) by (simp_all add: same_view_def)
  note limit = searchRateLimit_local [OF same(1)]
  note status = alike_status [OF b(3) assms(2)]
  note query = search_verdict [OF b(3) assms(2)]
  show ?thesis
  proof (cases "r = SearchApi")
    case True
    then show ?thesis
      by (simp add: run_route_def serve_search_def same(2-) b(1,2) split_beta limit query split: RateLimit.response.split)
  next
    case False
    then show ?thesis
      using assms(3)
      by (cases r) (simp_all add: run_route_def same(2-) b(1,2) split_beta health_ready_def api_stats_def status Let_def)
  qed
qed

lemma view_serve:
  assumes "same_view t (address rq) s s'" and "t \<le> w_now w" and "or_str (rq_id rq) [] \<noteq> []"
    and "find_route matches rq \<notin> {Some CircuitBreakers, Some MetricsPage}"
  shows "fst (serve su matches w rq s') = fst (serve su matches w rq s)"
proof -
  have cl: "map_of (sv_clients s') (address rq) = map_of (sv_clients s) (address rq)" using assms(1) by (simp add: same_view_def)
  have lim: "fst (limit_call w rq s') = fst (limit_call w rq s)"
    "map_of (snd (limit_call w rq s')) (address rq) = map_of (snd (limit_call w rq s)) (address rq)"
    using rateLimit_local [OF cl] by blast+
  have hs: "base_headers w rq s' = base_headers w rq s"
    using assms(3) by (simp add: base_headers_def request_name_def requestId_def)
  have view: "same_view t (address rq) (limited_state w rq s) (limited_state w rq s')"
    using assms(1) lim(2) by (simp add: same_view_def limited_state_def)
  show ?thesis
  proof (cases rule: serve_cases [where w = w and rq = rq and s = s and matches = matches])
    case (refused secs msg)
    then show ?thesis by (simp add: serve_refused [of w rq] lim(1) hs)
  next
    case unknown
    then show ?thesis by (simp add: serve_unknown lim(1) hs)
  next
    case (routed r)
    then show ?thesis using view_route [OF view assms(2), of r] assms(4) by (simp add: serve_routed lim(1) hs)
  qed
qed

text \<open>C10. Watching the server does not change what others see: after any run from the start, a request
  of one client for anything but a search or the readiness check (which open the database
  connection) leaves the answer to a later request of another client the same as without it,
  when that request names itself and is not for the breaker list or the metrics (which
  report times).
\<close>

theorem observers_harmless:
  fixes es :: "('h, 'r) server_event list" and su matches gz now tree fork_ok flags env i
  defines "s \<equiv> server_run su matches gz es (server_start now tree fork_ok flags env i)"
  assumes "find_route matches rq \<notin> {Some SearchApi, Some Ready}" and "address rq \<noteq> address rq'"
    and "w_now w \<le> w_now w'" and "or_str (rq_id rq') [] \<noteq> []"
    and "find_route matches rq' \<notin> {Some CircuitBreakers, Some MetricsPage}"
  shows "fst (serve su matches w' rq' (snd (serve su matches w rq s))) = fst (serve su matches w' rq' s)"
proof -
  have "server_ok s" unfolding s_def by (rule server_ok_run [OF server_ok_start])
  then have "breakers_ok (sv_breakers s)" by (simp add: server_ok_def)
  from view_serve [OF observer_view [OF this assms(3,2)] assms(4-6)] show ?thesis .
qed

section \<open>Concrete runs\<close>

definition exact_path :: matcher where
  "exact_path m r p \<longleftrightarrow> m = ''GET'' \<and> p = r"

definition world_at :: "('h, 'r) search_env \<Rightarrow> time_ms \<Rightarrow> ('h, 'r) world" where
  "world_at env t = \<lparr>w_id_now = nat t, w_redis = None, w_limit_now = t, w_limit_now' = t, w_search_redis = None,
     w_search_now = t, w_search_now' = t, w_now = t, w_now' = t, w_uptime = t, w_select_ok = True,
     w_ready = demo_ready, w_process = demo_process, w_search = env\<rparr>"

abbreviation demo_world :: "time_ms \<Rightarrow> (string, nat) world" where
  "demo_world \<equiv> world_at demo_env"

definition demo_get :: "string \<Rightarrow> string \<Rightarrow> string option \<Rightarrow> http_request" where
  "demo_get path ip i = \<lparr>rq_method = ''GET'', rq_path = path, rq_id = i, rq_accept = None, rq_ip = Some ip,
     rq_remote = None, rq_q = Text ''node js''\<rparr>"

definition demo_setup :: "string server_setup" where
  "demo_setup = \<lparr>su_flags = demo_flags, su_backend = Sqlite, su_search = ([], []), su_status = ([], []),
     su_dashboard = ([], [])\<rparr>"

definition demo_server :: "(string, string) server" where
  "demo_server = server_start 0 (initial_tree id) True demo_flags demo_init None"

text \<open>Every route is found under its own path: none hides another.\<close>

lemma routes_found:
  "map (\<lambda>(p, r). find_route exact_path (demo_get p ip i)) ROUTES = map (\<lambda>(p, r). Some r) ROUTES"
  by (simp add: ROUTES_def find_route_def exact_path_def demo_get_def)

lemma length_answers:
  "length (answers_to ip (server_log su matches gz es s)) =
    length (filter (\<lambda>e. case e of Request w rq \<Rightarrow> address rq = ip | _ \<Rightarrow> False) es)"
proof (induction es arbitrary: s)
  case (Cons e es)
  then show ?case by (cases e) (simp_all add: answers_to_def)
qed (simp add: answers_to_def)

lemma server_quotas_witness:
  "unrefused GENERAL_REFUSAL (answers_to ''10.0.0.1'' (server_log demo_setup exact_path id
     (replicate 120 (Request (demo_world 5) (demo_get ''/api/search'' ''10.0.0.1'' None))) demo_server)) = 100"
proof -
  let ?rq = "demo_get ''/api/search'' ''10.0.0.1'' None" and ?w = "demo_world 5"
  have es: "replicate 120 (Request ?w ?rq) = Request ?w ?rq # replicate 119 (Request ?w ?rq)"
    by (simp add: numeral_eq_Suc)
  have ip: "address ?rq = ''10.0.0.1''" by (simp add: demo_get_def client_ip_def or_str_def)
  have calm: "list_all (calm_for ''10.0.0.1'' (w_limit_now ?w)) (Request ?w ?rq # replicate 119 (Request ?w ?rq))"
    by (simp add: world_at_def in_memory_def rate_constants list_all_iff)
  have fresh: "win_start ''10.0.0.1'' (sv_clients demo_server) = None"
    by (simp add: demo_server_def server_start_def win_start_def)
  have "length (answers_to ''10.0.0.1'' (server_log demo_setup exact_path id (replicate 120 (Request ?w ?rq)) demo_server)) = 120"
    using ip by (simp add: length_answers)
  then show ?thesis
    using server_quotas [OF disjI1 [OF fresh] ip calm, where su = demo_setup and gz = id and matches = exact_path] unfolding es by simp
qed

lemma observers_harmless_witness:
  "fst (serve demo_setup exact_path (demo_world 9) (demo_get ''/api/search'' ''10.0.0.1'' (Some ''x''))
     (snd (serve demo_setup exact_path (demo_world 5) (demo_get ''/api/circuit-breakers'' ''10.0.0.2'' None) demo_server))) =
   fst (serve demo_setup exact_path (demo_world 9) (demo_get ''/api/search'' ''10.0.0.1'' (Some ''x'')) demo_server)"
proof -
  let ?rq = "demo_get ''/api/circuit-breakers'' ''10.0.0.2'' None" and ?rq' = "demo_get ''/api/search'' ''10.0.0.1'' (Some ''x'')"
  have "find_route exact_path ?rq \<notin> {Some SearchApi, Some Ready}" "find_route exact_path ?rq' \<notin> {Some CircuitBreakers, Some MetricsPage}"
    "address ?rq \<noteq> address ?rq'" "w_now (demo_world 5) \<le> w_now (demo_world 9)" "or_str (rq_id ?rq') [] \<noteq> []"
    by (simp_all add: find_route_def ROUTES_def exact_path_def demo_get_def world_at_def client_ip_def or_str_def)
  from observers_harmless [OF this(1,3,4,5,2), where su = demo_setup and es = "[]" and gz = id and now = 0 and
      tree = "initial_tree id" and fork_ok = True and flags = demo_flags and env = demo_init and i = None]
  show ?thesis by (simp add: demo_server_def)
qed

end
