(* ===== verification/ApiDocs.thy ===== *)
theory ApiDocs
  imports Server SearchPage
begin

text \<open>
  The JSON that the routes of server.ts send, and the OpenAPI document of src/swagger.ts that
  describes it: its paths, parameters, responses and schemas are data, less the prose of the
  descriptions. \<open>conforms\<close> is what a schema of that document means: a property that is present
  has the stated type, and none is required. No route serves the document.
\<close>

section \<open>JSON\<close>

datatype json = JNull | JBool bool | JNumber rat | JString string | JArray "json list" | JObject "(string \<times> json) list"

abbreviation JInt :: "int \<Rightarrow> json" where
  "JInt n \<equiv> JNumber (of_int n)"

text \<open>\<open>JSON.stringify\<close> leaves a property out that is undefined.\<close>

definition opt_field :: "string \<Rightarrow> ('a \<Rightarrow> json) \<Rightarrow> 'a option \<Rightarrow> (string \<times> json) list" where
  "opt_field k f v = (case v of None \<Rightarrow> [] | Some x \<Rightarrow> [(k, f x)])"

definition or_null :: "('a \<Rightarrow> json) \<Rightarrow> 'a option \<Rightarrow> json" where
  "or_null f v = (case v of None \<Rightarrow> JNull | Some x \<Rightarrow> f x)"

text \<open>What the process adds: versions, platform and memory, the text of \<open>DB_BACKEND\<close>, the date of an
  error as a text.\<close>

record node_info =
  ni_version :: string
  ni_platform :: string
  ni_arch :: string
  ni_rssBytes :: int
  ni_package :: string
  ni_backend :: string
  ni_now :: time_ms
  ni_iso :: "time_ms \<Rightarrow> string"

fun state_text :: "State \<Rightarrow> string" where
  "state_text CLOSED = ''CLOSED''"
| "state_text OPEN = ''OPEN''"
| "state_text HALF_OPEN = ''HALF_OPEN''"

definition backends_json :: "node_info \<Rightarrow> backend_flags \<Rightarrow> json" where
  "backends_json ni flags = JObject [(''db'', JString (ni_backend ni)), (''redis'', JBool (REDIS_ENABLED flags)),
     (''kafka'', JBool (KAFKA_ENABLED flags)), (''es'', JBool (ES_ENABLED flags))]"

definition status_json :: "CircuitBreakerStatus \<Rightarrow> json" where
  "status_json b = JObject [(''name'', JString (s_name b)), (''state'', JString (state_text (s_state b))),
     (''failureCount'', JInt (s_failureCount b)), (''lastFailure'', or_null JInt (s_lastFailure b)),
     (''uptime'', JInt (s_uptime b))]"

definition stats_json :: "node_info \<Rightarrow> stats_body \<Rightarrow> json" where
  "stats_json ni b = (let c = sb_stats b in JObject
    [(''total'', JInt (cachedNodeCount c)), (''frontier'', JInt (cachedFrontierCount c)),
     (''domains'', JArray (map (\<lambda>(d, n). JObject [(''domain'', JString d), (''c'', JInt n)]) (cachedDomainPop c))),
     (''success'', JInt (cachedSuccess c)), (''fail'', JInt (cachedFail c)), (''rate'', JString (cachedRate c)),
     (''uptime'', JInt (cachedUptime c)), (''domainsChecked'', JInt (cachedDomainsChecked c)),
     (''domainsBlacklisted'', JInt (cachedDomainsBlacklisted c)), (''crawlerRestarts'', JInt (sb_crawlerRestarts b)),
     (''architecture'', JString ''child_process''), (''backends'', backends_json ni (sb_flags b)),
     (''circuitBreakers'', JArray (map (\<lambda>(n, s). JObject [(''name'', JString n), (''state'', JString (state_text s))])
        (sb_circuitBreakers b))),
     (''nodeVersion'', JString (ni_version ni)), (''platform'', JString (ni_platform ni)), (''arch'', JString (ni_arch ni)),
     (''rssBytes'', JInt (ni_rssBytes ni))])"

text \<open>
  A row of the results: the columns of SQLite's query, those of PostgreSQL's, whose names are
  folded to lower case, and what \<open>searchPages\<close> builds.
\<close>

datatype result_row = SqliteRow fts_row rat | PgRow node_row rat | EsRow "rat es_result"

fun row_json :: "result_row \<Rightarrow> json" where
  "row_json (SqliteRow r rank) = JObject [(''url'', JString (t_url r)), (''title'', JString (t_title r)),
     (''metaDescription'', JString (t_metaDescription r)), (''ogTitle'', JString (t_ogTitle r)),
     (''ogDescription'', JString (t_ogDescription r)), (''domain'', JString (t_domain r)), (''rank'', JNumber rank)]"
| "row_json (PgRow n rank) = JObject [(''url'', JString (n_url n)), (''title'', JString (n_title n)),
     (''metadescription'', JString (n_metaDescription n)), (''ogtitle'', JString (n_ogTitle n)),
     (''ogdescription'', JString (n_ogDescription n)), (''domain'', JString (n_domain n)), (''rank'', JNumber rank)]"
| "row_json (EsRow r) = JObject [(''url'', JString (rs_url r)), (''title'', JString (rs_title r)),
     (''metaDescription'', JString (rs_metaDescription r)), (''ogTitle'', JString (rs_ogTitle r)),
     (''ogDescription'', JString (rs_ogDescription r)), (''domain'', JString (rs_domain r)), (''rank'', JNumber (rs_rank r)),
     (''popularity'', JInt (rs_popularity r))]"

definition search_json :: "result_row search_reply \<Rightarrow> json" where
  "search_json r = JObject ([(''results'', JArray (map row_json (results r))), (''query'', JString (reply_query r))] @
     opt_field ''source'' JString (reply_source r) @ opt_field ''error'' JString (reply_error r) @
     (if degraded r then [(''degraded'', JBool True)] else []))"

definition error_json :: "node_info \<Rightarrow> json_body \<Rightarrow> json" where
  "error_json ni b =
    (case b of
       ErrorJson e \<Rightarrow> JObject [(''error'', JString (e_message e)), (''code'', JString (e_code e)),
         (''statusCode'', JInt (e_statusCode e)),
         (''details'', or_null (\<lambda>d. JObject (map (\<lambda>(k, v). (k, JString v)) d)) (e_details e)),
         (''timestamp'', JString (ni_iso ni (e_timestamp e)))]
     | InternalJson rid \<Rightarrow> JObject ([(''error'', JString ''Internal server error'')] @ opt_field ''requestId'' JString rid @
         [(''code'', JString ''INTERNAL_ERROR'')]))"

text \<open>The JSON of an answer, if it is not a text that is sent as it is.\<close>

definition payload_json :: "'z server_setup \<Rightarrow> node_info \<Rightarrow> ('z, result_row) payload \<Rightarrow> json option" where
  "payload_json su ni p =
    (case p of
       Content _ \<Rightarrow> None
     | LiveJson (status, now, up) \<Rightarrow>
         Some (JObject [(''status'', JString status), (''timestamp'', JInt now), (''uptime'', JInt up)])
     | ReadyJson checks \<Rightarrow>
         Some (JObject [(''status'', JString (if list_all snd checks then ''ready'' else ''not ready'')),
           (''checks'', JObject (map (\<lambda>(k, v). (k, JBool v)) checks)), (''timestamp'', JInt (ni_now ni)),
           (''version'', JString (ni_package ni)), (''architecture'', JString ''child_process''),
           (''backends'', backends_json ni (su_flags su))])
     | BreakersJson bs \<Rightarrow> Some (JObject [(''breakers'', JArray (map status_json bs))])
     | StatsJson b \<Rightarrow> Some (stats_json ni b)
     | SearchJson r \<Rightarrow> Some (search_json r)
     | LimitedJson msg \<Rightarrow> Some (JObject [(''error'', JString msg)])
     | MissingJson msg path \<Rightarrow> Some (JObject [(''error'', JString msg), (''path'', JString path)])
     | ErrorBody b \<Rightarrow> Some (error_json ni b))"

text \<open>The picture of the crawl as the crawler sends it, which \<open>/api/tree\<close> passes on.\<close>

definition tree_json :: "TreeData \<Rightarrow> json" where
  "tree_json m = JObject
    [(''nodes'', JArray (map (\<lambda>n. JObject [(''url'', JString (n_url n)), (''title'', JString (n_title n)),
        (''domain'', JString (n_domain n)), (''depth'', JInt (n_depth n)), (''parent'', or_null JString (n_parent n)),
        (''popularity'', JInt (n_popularity n)), (''https'', JInt (n_https n))]) (t_nodes m))),
     (''edges'', JArray (map (\<lambda>e. JObject [(''src'', JString (e_src e)), (''dst'', JString (e_dst e)), (''w'', JInt (e_w e))])
        (t_edges m))),
     (''total'', JInt (t_total m)), (''domains'', JInt (t_domains m))]"

section \<open>Schemas\<close>

text \<open>A text may have a least and a greatest length.\<close>

datatype schema = StringType "(nat \<times> nat) option" | IntegerType | NumberType | ArrayType schema |
  ObjectType "(string \<times> schema) list"

fun conforms :: "schema \<Rightarrow> json \<Rightarrow> bool" where
  "conforms (StringType bds) (JString s) \<longleftrightarrow>
    (case bds of None \<Rightarrow> True | Some (a, b) \<Rightarrow> a \<le> length s \<and> length s \<le> b)"
| "conforms IntegerType (JNumber x) \<longleftrightarrow> of_int \<lfloor>x\<rfloor> = x"
| "conforms NumberType (JNumber x) \<longleftrightarrow> True"
| "conforms (ArrayType s) (JArray js) \<longleftrightarrow> list_all (conforms s) js"
| "conforms (ObjectType ps) (JObject kvs) \<longleftrightarrow>
    list_all (\<lambda>(k, s). case map_of kvs k of None \<Rightarrow> True | Some j \<Rightarrow> conforms s j) ps"
| "conforms _ _ \<longleftrightarrow> False"

record api_parameter =
  pa_name :: string
  pa_in :: string
  pa_required :: bool
  pa_schema :: schema

record api_response =
  ar_status :: int
  ar_media :: string
  ar_schema :: schema

record api_operation =
  ao_path :: string
  ao_summary :: string
  ao_tags :: "string list"
  ao_parameters :: "api_parameter list"
  ao_responses :: "api_response list"

abbreviation anyString :: schema where
  "anyString \<equiv> StringType None"

definition stats_docs :: api_operation where
  "stats_docs = \<lparr>ao_path = ''/api/stats'', ao_summary = ''Get crawler statistics'', ao_tags = [''Stats''],
     ao_parameters = [],
     ao_responses = [\<lparr>ar_status = 200, ar_media = ''application/json'',
       ar_schema = ObjectType
         [(''total'', IntegerType),
          (''frontier'', IntegerType),
          (''domains'', ArrayType (ObjectType [(''domain'', anyString), (''c'', IntegerType)])),
          (''success'', IntegerType),
          (''fail'', IntegerType),
          (''rate'', anyString),
          (''uptime'', IntegerType),
          (''domainsChecked'', IntegerType)]\<rparr>]\<rparr>"

definition search_docs :: api_operation where
  "search_docs = \<lparr>ao_path = ''/api/search'', ao_summary = ''Full-text search'', ao_tags = [''Search''],
     ao_parameters = [\<lparr>pa_name = ''q'', pa_in = ''query'', pa_required = True, pa_schema = StringType (Some (1, 500))\<rparr>],
     ao_responses =
      [\<lparr>ar_status = 200, ar_media = ''application/json'',
        ar_schema = ObjectType
          [(''results'', ArrayType (ObjectType
             [(''url'', anyString),
              (''title'', anyString),
              (''metaDescription'', anyString),
              (''ogTitle'', anyString),
              (''ogDescription'', anyString),
              (''domain'', anyString),
              (''rank'', NumberType)])),
           (''query'', anyString),
           (''error'', anyString)]\<rparr>,
       \<lparr>ar_status = 429, ar_media = ''application/json'', ar_schema = ObjectType [(''error'', anyString)]\<rparr>]\<rparr>"

definition tree_docs :: api_operation where
  "tree_docs = \<lparr>ao_path = ''/api/tree'', ao_summary = ''Get domain graph data'', ao_tags = [''Graph''],
     ao_parameters = [],
     ao_responses = [\<lparr>ar_status = 200, ar_media = ''application/json'',
       ar_schema = ObjectType [(''nodes'', ArrayType (ObjectType [])), (''total'', IntegerType)]\<rparr>]\<rparr>"

definition metrics_docs :: api_operation where
  "metrics_docs = \<lparr>ao_path = ''/metrics'', ao_summary = ''Prometheus metrics'', ao_tags = [''Metrics''],
     ao_parameters = [],
     ao_responses = [\<lparr>ar_status = 200, ar_media = ''text/plain'', ar_schema = anyString\<rparr>]\<rparr>"

definition API_DOCS :: "api_operation list" where
  "API_DOCS = [stats_docs, search_docs, tree_docs, metrics_docs]"

section \<open>The server keeps to its description\<close>

text \<open>The parameter \<open>q\<close> of a request as the document sees it: a text, or none.\<close>

definition query_json :: "query_param \<Rightarrow> json option" where
  "query_json q = (case q of NoQuery \<Rightarrow> None | Text s \<Rightarrow> Some (JString s) | Structured \<Rightarrow> Some (JArray []))"

definition sent_as_documented :: "api_operation \<Rightarrow> http_request \<Rightarrow> bool" where
  "sent_as_documented op rq \<longleftrightarrow> list_all (\<lambda>p. pa_name p = ''q'' \<and>
     (case query_json (rq_q rq) of None \<Rightarrow> \<not> pa_required p | Some j \<Rightarrow> conforms (pa_schema p) j)) (ao_parameters op)"

text \<open>The media type of an answer: what the route set, less its parameters, or that of \<open>res.json\<close>.\<close>

definition reply_media :: "('z, 'r) http_reply \<Rightarrow> string" where
  "reply_media r = (case h_payload r of
     Content _ \<Rightarrow> takeWhile (\<lambda>c. c \<noteq> CHR '';'') (or_str (map_of (h_headers r) ''Content-Type'') [])
   | _ \<Rightarrow> ''application/json'')"

definition described :: "'z server_setup \<Rightarrow> node_info \<Rightarrow> ('z, result_row) http_reply \<Rightarrow> api_response \<Rightarrow> bool" where
  "described su ni r a \<longleftrightarrow> ar_status a = h_status r \<and> ar_media a = reply_media r \<and>
    (case payload_json su ni (h_payload r) of None \<Rightarrow> True | Some j \<Rightarrow> conforms (ar_schema a) j)"

lemma row_conforms:
  "conforms (ObjectType [(''url'', anyString), (''title'', anyString), (''metaDescription'', anyString), (''ogTitle'', anyString),
     (''ogDescription'', anyString), (''domain'', anyString), (''rank'', NumberType)]) (row_json r)"
  by (cases r) simp_all

lemma list_all_rows: "(\<And>r. conforms s (f r)) \<Longrightarrow> list_all (conforms s) (map f rs)"
  by (simp add: list_all_iff)

lemma search_conforms: "conforms (ar_schema (hd (ao_responses search_docs))) (search_json r)"
  using list_all_rows [of _ row_json, OF row_conforms, of "results r"]
  by (simp add: search_docs_def search_json_def opt_field_def split: option.split)

lemma stats_conforms: "conforms (ar_schema (hd (ao_responses stats_docs))) (stats_json ni b)"
  by (simp add: stats_docs_def stats_json_def Let_def list_all_iff split: prod.split)

lemma tree_conforms: "conforms (ar_schema (hd (ao_responses tree_docs))) (tree_json m)"
  by (simp add: tree_docs_def tree_json_def list_all_iff)


text \<open>What the route of an operation answers.\<close>

lemma stats_described:
  "\<exists>r. fst (run_route su w rq hs StatsApi s) = Some r \<and> described su ni r (hd (ao_responses stats_docs))"
  using stats_conforms
  by (simp add: run_route_def split_beta described_def reply_media_def send_json_def payload_json_def)
    (simp add: stats_docs_def)

lemma tree_described:
  "\<exists>r. fst (run_route su w rq hs TreeApi s) = Some r \<and> described su ni r (hd (ao_responses tree_docs))"
  by (simp add: run_route_def described_def reply_media_def send_page_def payload_json_def tree_docs_def tree_api_def
      negotiate_def setHeader_def or_str_def)

lemma metrics_described:
  "\<exists>r. fst (run_route su w rq hs MetricsPage s) = Some r \<and> described su ni r (hd (ao_responses metrics_docs))"
  by (simp add: run_route_def split_beta described_def reply_media_def send_page_def payload_json_def metrics_docs_def
      metrics_page_def setHeader_def or_str_def)

lemma limited_described:
  "list_ex (described su ni (too_many hs secs msg)) (ao_responses search_docs)"
  by (simp add: described_def reply_media_def too_many_def send_json_def payload_json_def search_docs_def)

lemma search_described:
  assumes "rq_q rq \<noteq> Structured"
  shows "\<exists>r. fst (run_route su w rq hs SearchApi s) = Some r \<and> list_ex (described su ni r) (ao_responses search_docs)"
proof -
  have "described su ni (send_json hs 200 (SearchJson a)) (hd (ao_responses search_docs))" for a
    using search_conforms [of a] by (simp add: described_def reply_media_def send_json_def payload_json_def)
      (simp add: search_docs_def)
  moreover have "list_ex P (ao_responses search_docs)" if "P (hd (ao_responses search_docs))" for P
    using that by (simp add: search_docs_def)
  ultimately show ?thesis
    using assms limited_described
    by (auto simp: run_route_def serve_search_def split_beta dest: search_no_reply
        split: RateLimit.response.split search_outcome.split)
qed

lemma described_by_head: "ao_responses op \<noteq> [] \<Longrightarrow> described su ni r (hd (ao_responses op)) \<Longrightarrow> list_ex (described su ni r) (ao_responses op)"
  by (cases "ao_responses op") simp_all

lemma search_param: "sent_as_documented search_docs rq \<Longrightarrow> rq_q rq \<noteq> Structured"
  by (auto simp: sent_as_documented_def search_docs_def query_json_def)

text \<open>The routes of the document are routes of the server.\<close>

lemma docs_routes:
  "map (\<lambda>op. map_of ROUTES (ao_path op)) API_DOCS = [Some StatsApi, Some SearchApi, Some TreeApi, Some MetricsPage]"
  by (simp add: API_DOCS_def stats_docs_def search_docs_def tree_docs_def metrics_docs_def ROUTES_def)

lemma route_described:
  assumes "op \<in> set API_DOCS" and "map_of ROUTES (ao_path op) = Some r" and "sent_as_documented op rq"
  shows "\<exists>a. fst (run_route su w rq hs r s) = Some a \<and> list_ex (described su ni a) (ao_responses op)"
proof -
  have ne: "ao_responses stats_docs \<noteq> []" "ao_responses tree_docs \<noteq> []" "ao_responses metrics_docs \<noteq> []"
    by (simp_all add: stats_docs_def tree_docs_def metrics_docs_def)
  consider "op = stats_docs" "r = StatsApi" | "op = search_docs" "r = SearchApi" | "op = tree_docs" "r = TreeApi"
    | "op = metrics_docs" "r = MetricsPage"
    using assms(1,2) docs_routes by (auto simp: API_DOCS_def)
  then show ?thesis
  proof cases
    case 1 then show ?thesis using stats_described described_by_head [OF ne(1)] by blast
  next
    case 2 then show ?thesis using search_described search_param assms(3) by blast
  next
    case 3 then show ?thesis using tree_described described_by_head [OF ne(2)] by blast
  next
    case 4 then show ?thesis using metrics_described described_by_head [OF ne(3)] by blast
  qed
qed


text \<open>The refusal of the general limiter is in the document for searches only.\<close>

lemma refusals_undescribed:
  "op \<in> {stats_docs, tree_docs, metrics_docs} \<Longrightarrow> h_status r = 429 \<Longrightarrow> \<not> list_ex (described su ni r) (ao_responses op)"
  by (auto simp: stats_docs_def tree_docs_def metrics_docs_def described_def)

text \<open>The pages of the document itself are not served.\<close>

lemma docs_not_served: "find_route exact_path (demo_get ''/docs'' ip i) = None"
  by (simp add: find_route_def ROUTES_def exact_path_def demo_get_def)

definition demo_node :: node_info where
  "demo_node = \<lparr>ni_version = ''v20'', ni_platform = ''linux'', ni_arch = ''x64'', ni_rssBytes = 5, ni_package = ''1.0.0'', ni_backend = ''sqlite'',
     ni_now = 0, ni_iso = \<lambda>_. []\<rparr>"

definition docs_env :: "(string, result_row) search_env" where
  "docs_env = \<lparr>es_enabled = False, es_connected = False, es_search = \<lambda>_. None, se_backend = Sqlite,
     pg_query = \<lambda>_. Inl (), db_open = db_open demo_env, fts_query = \<lambda>_ _. Inl ()\<rparr>"


end
