(* ===== verification/Binary64.thy ===== *)
theory Binary64
  imports Complex_Main Doubles
begin

text \<open>
  JavaScript numbers: IEEE 754 binary64 values as the scripts of the pages compute with them.
  A finite number is its exact rational value; an operation computes exactly and rounds to 53
  significant bits, to even on a tie, with gradual underflow and overflow to infinity. The two
  zeros are one value: no script divides by a zero that may be negative.
\<close>

section \<open>Rounding\<close>

datatype js_num = NaN | Inf bool | Fin rat

text \<open>The integer nearest to a rational, the even one on a tie.\<close>

definition nearest :: "rat \<Rightarrow> int" where
  "nearest z = (let q = \<lfloor>z\<rfloor>; r = z - of_int q in if r > 1 / 2 \<or> (r = 1 / 2 \<and> odd q) then q + 1 else q)"

text \<open>The exponent of the leading bit of a positive rational.\<close>

definition expo :: "rat \<Rightarrow> int" where
  "expo x = (case quotient_of x of (a, b) \<Rightarrow>
     let k = int (bitlen (nat a)) - int (bitlen (nat b)) in if 2 powi k \<le> x then k else k - 1)"

text \<open>The distance of neighbouring numbers around \<open>x\<close>, as an exponent.\<close>

definition unit_of :: "rat \<Rightarrow> int" where
  "unit_of x = max (expo x - 52) (- 1074)"

definition round_pos :: "rat \<Rightarrow> rat" where
  "round_pos x = of_int (nearest (x / 2 powi unit_of x)) * 2 powi unit_of x"

definition round_rat :: "rat \<Rightarrow> rat" where
  "round_rat x = (if x = 0 then 0 else if 0 < x then round_pos x else - round_pos (- x))"

definition js_round :: "rat \<Rightarrow> js_num" where
  "js_round x = (if \<bar>round_rat x\<bar> < 2 powi 1024 then Fin (round_rat x) else Inf (x < 0))"

lemma nearest_floor: "nearest z = \<lfloor>z\<rfloor> \<or> nearest z = \<lfloor>z\<rfloor> + 1"
  by (simp add: nearest_def Let_def)

lemma nearest_of_int [simp]: "nearest (of_int n) = n"
  by (simp add: nearest_def)

lemma nearest_mono:
  assumes "z \<le> z'" shows "nearest z \<le> nearest z'"
proof (cases "\<lfloor>z\<rfloor> = \<lfloor>z'\<rfloor>")
  case True
  with assms show ?thesis by (auto simp: nearest_def Let_def)
next
  case False
  then have "\<lfloor>z\<rfloor> + 1 \<le> \<lfloor>z'\<rfloor>" using floor_mono [OF assms] by simp
  then show ?thesis using nearest_floor [of z] nearest_floor [of z'] by linarith
qed

lemma nearest_le: "z \<le> of_int n \<Longrightarrow> nearest z \<le> n"
  using nearest_mono [of z "of_int n"] by simp

lemma nearest_ge: "of_int n \<le> z \<Longrightarrow> n \<le> nearest z"
  using nearest_mono [of "of_int n" z] by simp

section \<open>Powers of two\<close>

lemma pow2_pos [simp]: "0 < (2 :: rat) powi k" "(2 :: rat) powi k \<noteq> 0"
  by (simp_all add: zero_less_power_int)

lemma pow2_mono: "j \<le> k \<Longrightarrow> (2 :: rat) powi j \<le> 2 powi k"
  by (simp add: power_int_increasing)

lemma pow2_le_iff: "(2 :: rat) powi j \<le> 2 powi k \<longleftrightarrow> j \<le> k"
  by (metis pow2_mono linorder_le_cases antisym one_less_numeral_iff power_int_strict_increasing linorder_not_le semiring_norm(76))

lemma pow2_less: "(2 :: rat) powi j < 2 powi k \<longleftrightarrow> j < k"
  using pow2_le_iff [of k j] by linarith

lemma pow2_add: "(2 :: rat) powi (j + k) = 2 powi j * 2 powi k"
  by (simp add: power_int_add)

lemma pow2_diff: "(2 :: rat) powi (j - k) = 2 powi j / 2 powi k"
  by (simp add: power_int_diff)

lemma pow2_int: "0 \<le> k \<Longrightarrow> (2 :: rat) powi k = of_int (2 ^ nat k)"
  by (simp add: power_int_def)

lemma pow2_step: "(2 :: rat) powi (k + 1) = 2 * 2 powi k"
  by (simp add: pow2_add)

lemma bitlen_bounds: "0 < n \<Longrightarrow> 0 < bitlen n \<and> 2 ^ (bitlen n - 1) \<le> n \<and> n < 2 ^ bitlen n"
proof (induction n rule: bitlen.induct)
  case (1 n)
  show ?case
  proof (cases "n div 2 = 0")
    case True
    then have "n = 1" using 1(2) by simp
    then show ?thesis by (simp add: bitlen.simps)
  next
    case False
    then have ih: "0 < bitlen (n div 2)" "2 ^ (bitlen (n div 2) - 1) \<le> n div 2" "n div 2 < 2 ^ bitlen (n div 2)"
      using 1 by simp_all
    obtain k where k: "bitlen (n div 2) = Suc k" using ih(1) gr0_implies_Suc by blast
    have "bitlen n = Suc (Suc k)" using 1(2) k by (subst bitlen.simps) simp
    moreover have "2 ^ Suc k \<le> n" "n < 2 ^ Suc (Suc k)" using ih(2,3) k by auto
    ultimately show ?thesis by simp
  qed
qed

lemma expo_bounds:
  assumes "0 < x" shows "2 powi expo x \<le> x" "x < 2 powi (expo x + 1)"
proof -
  obtain a b where q: "quotient_of x = (a, b)" by fastforce
  have b: "0 < b" and x: "x = of_int a / of_int b" using quotient_of_denom_pos [OF q] quotient_of_div [OF q] by auto
  have "0 < rat_of_int a"
  proof (rule ccontr)
    assume "\<not> 0 < rat_of_int a"
    then have "x \<le> 0" unfolding x using b by (intro divide_nonpos_pos) simp_all
    with assms show False by simp
  qed
  then have a: "0 < a" by simp
  let ?A = "bitlen (nat a)" and ?B = "bitlen (nat b)"
  have "0 < nat a" "0 < nat b" using a b by simp_all
  note A = bitlen_bounds [OF this(1)] and B = bitlen_bounds [OF this(2)]
  have cast: "rat_of_nat (nat a) = of_int a" "rat_of_nat (nat b) = of_int b" using a b by simp_all
  have low: "(2 :: rat) powi (int n - 1) \<le> of_nat m" if "0 < n" "2 ^ (n - 1) \<le> m" for n m :: nat
  proof -
    have "(2 :: rat) powi (int n - 1) = 2 ^ (n - 1)" using that(1) by (simp add: power_int_def nat_diff_distrib)
    also have "\<dots> \<le> of_nat m" using that(2) by (metis of_nat_le_iff of_nat_numeral of_nat_power)
    finally show ?thesis .
  qed
  have high: "of_nat m < (2 :: rat) powi int n" if "m < 2 ^ n" for n m :: nat
    using that by (metis of_nat_less_iff of_nat_numeral of_nat_power power_int_of_nat)
  have al: "2 powi (int ?A - 1) \<le> rat_of_int a" "rat_of_int a < 2 powi int ?A"
    using low [of ?A "nat a"] high [of "nat a" ?A] A unfolding cast by simp_all
  have bl: "2 powi (int ?B - 1) \<le> rat_of_int b" "rat_of_int b < 2 powi int ?B"
    using low [of ?B "nat b"] high [of "nat b" ?B] B unfolding cast by simp_all
  let ?k = "int ?A - int ?B"
  have "2 powi (?k - 1) * rat_of_int b \<le> 2 powi (?k - 1) * 2 powi int ?B" using bl by simp
  also have "\<dots> = 2 powi (int ?A - 1)" using pow2_add [of "?k - 1" "int ?B"] by (simp only: algebra_simps) simp
  finally have "2 powi (?k - 1) * rat_of_int b \<le> of_int a" using al by simp
  then have lo: "2 powi (?k - 1) \<le> x" unfolding x using b by (simp add: le_divide_eq)
  have "rat_of_int a < 2 powi (?k + 1) * 2 powi (int ?B - 1)"
    using al by (simp add: pow2_add [symmetric])
  also have "\<dots> \<le> 2 powi (?k + 1) * of_int b" using bl by simp
  finally have hi: "x < 2 powi (?k + 1)" unfolding x using b by (simp add: divide_less_eq)
  have e: "expo x = (if 2 powi ?k \<le> x then ?k else ?k - 1)" by (simp add: expo_def q Let_def)
  show "2 powi expo x \<le> x" "x < 2 powi (expo x + 1)" using lo hi unfolding e by auto
qed

lemma expo_unique:
  assumes "2 powi k \<le> x" and "x < 2 powi (k + 1)" shows "expo x = k"
proof -
  have "0 < x" using assms(1) pow2_pos(1) [of k] by linarith
  note e = expo_bounds [OF this]
  have "(2 :: rat) powi k < 2 powi (expo x + 1)" "(2 :: rat) powi expo x < 2 powi (k + 1)" using e assms by linarith+
  then show ?thesis by (simp add: pow2_less)
qed

lemma expo_mono: "0 < x \<Longrightarrow> x \<le> y \<Longrightarrow> expo x \<le> expo y"
proof -
  assume "0 < x" "x \<le> y"
  then have "(2 :: rat) powi expo x < 2 powi (expo y + 1)" using expo_bounds(1) [of x] expo_bounds(2) [of y] by linarith
  then show ?thesis by (simp add: pow2_less)
qed

section \<open>Rounding is monotone and keeps representable numbers\<close>

text \<open>\<open>grid k x\<close>: \<open>x\<close> is a multiple of \<open>2 ^ k\<close>.\<close>

definition grid :: "int \<Rightarrow> rat \<Rightarrow> bool" where
  "grid k x \<longleftrightarrow> (\<exists>n. x = of_int n * 2 powi k)"

lemma grid_finer: "grid k x \<Longrightarrow> j \<le> k \<Longrightarrow> grid j x"
proof -
  assume "grid k x" "j \<le> k"
  then obtain n where n: "x = of_int n * 2 powi k" by (auto simp: grid_def)
  have "(2 :: rat) powi k = of_int (2 ^ nat (k - j)) * 2 powi j"
    using \<open>j \<le> k\<close> pow2_add [of "k - j" j] pow2_int [of "k - j"] by simp
  then show "grid j x" unfolding grid_def n by (intro exI [of _ "n * 2 ^ nat (k - j)"]) simp
qed

lemma grid_ops: "grid k x \<Longrightarrow> grid k y \<Longrightarrow> grid k (x + y)" "grid k x \<Longrightarrow> grid k (- x)"
proof -
  show "grid k (x + y)" if "grid k x" "grid k y"
    using that unfolding grid_def by (metis of_int_add distrib_right)
  show "grid k (- x)" if "grid k x"
    using that unfolding grid_def by (metis of_int_minus minus_mult_left)
qed

lemma grid_least: "grid k x \<Longrightarrow> x \<noteq> 0 \<Longrightarrow> 2 powi k \<le> \<bar>x\<bar>"
proof -
  assume "grid k x" "x \<noteq> 0"
  then obtain n where n: "x = of_int n * 2 powi k" "n \<noteq> 0" by (auto simp: grid_def)
  have "(1 :: rat) \<le> of_int \<bar>n\<bar>" using n(2) by linarith
  then have "1 * 2 powi k \<le> of_int \<bar>n\<bar> * (2 :: rat) powi k" by (intro mult_right_mono) simp_all
  then show ?thesis by (simp add: n(1) abs_mult)
qed

lemma round_pos_grid: "grid (unit_of x) (round_pos x)"
  by (auto simp: round_pos_def grid_def)

lemma round_pos_fixed: "grid (unit_of x) x \<Longrightarrow> round_pos x = x"
proof -
  assume "grid (unit_of x) x"
  then obtain n where n: "x = of_int n * 2 powi unit_of x" by (auto simp: grid_def)
  then have "x / 2 powi unit_of x = of_int n" by (metis nonzero_mult_div_cancel_right pow2_pos(2))
  then have "round_pos x = of_int n * 2 powi unit_of x" by (simp add: round_pos_def)
  with n show ?thesis by simp
qed

lemma nearest_pow2:
  "0 \<le> j \<Longrightarrow> z \<le> 2 powi j \<Longrightarrow> of_int (nearest z) \<le> (2 :: rat) powi j"
  "0 \<le> j \<Longrightarrow> 2 powi j \<le> z \<Longrightarrow> (2 :: rat) powi j \<le> of_int (nearest z)"
proof -
  assume j: "0 \<le> j"
  note p = pow2_int [OF j]
  show "of_int (nearest z) \<le> (2 :: rat) powi j" if "z \<le> 2 powi j"
    using nearest_le [of z "2 ^ nat j"] that unfolding p by (simp only: of_int_le_iff)
  show "(2 :: rat) powi j \<le> of_int (nearest z)" if "2 powi j \<le> z"
    using nearest_ge [of "2 ^ nat j" z] that unfolding p by (simp only: of_int_le_iff)
qed

lemma round_pos_upper:
  assumes "x \<le> 2 powi k" and "unit_of x \<le> k" shows "round_pos x \<le> 2 powi k"
proof -
  have "x / 2 powi unit_of x \<le> 2 powi (k - unit_of x)" using assms(1) by (simp add: pow2_diff divide_right_mono)
  from nearest_pow2(1) [OF _ this] assms(2) have "round_pos x \<le> 2 powi (k - unit_of x) * 2 powi unit_of x"
    unfolding round_pos_def by (intro mult_right_mono) simp_all
  then show ?thesis by (simp add: pow2_add [symmetric])
qed

lemma round_pos_at_least:
  assumes "2 powi k \<le> x" and "unit_of x \<le> k" shows "2 powi k \<le> round_pos x"
proof -
  have "2 powi (k - unit_of x) \<le> x / 2 powi unit_of x" using assms(1) by (simp add: pow2_diff divide_right_mono)
  from nearest_pow2(2) [OF _ this] assms(2) have "2 powi (k - unit_of x) * 2 powi unit_of x \<le> round_pos x"
    unfolding round_pos_def by (intro mult_right_mono) simp_all
  then show ?thesis by (simp add: pow2_add [symmetric])
qed

lemma round_pos_mono:
  assumes "0 < x" and "x \<le> y" shows "round_pos x \<le> round_pos y"
proof -
  have e: "expo x \<le> expo y" by (rule expo_mono [OF assms])
  show ?thesis
  proof (cases "unit_of x = unit_of y")
    case True
    have "nearest (x / 2 powi unit_of y) \<le> nearest (y / 2 powi unit_of y)"
      using assms(2) by (intro nearest_mono divide_right_mono) simp_all
    then show ?thesis unfolding round_pos_def True by (intro mult_right_mono) simp_all
  next
    case False
    then have u: "unit_of y = expo y - 52" "unit_of x \<le> expo y" "expo x + 1 \<le> expo y" using e by (auto simp: unit_of_def)
    have "x \<le> 2 powi expo y"
      using expo_bounds(2) [OF assms(1)] pow2_mono [OF u(3)] by linarith
    from round_pos_upper [OF this u(2)] have "round_pos x \<le> 2 powi expo y" .
    also have "\<dots> \<le> round_pos y"
      using assms u(1) by (intro round_pos_at_least expo_bounds) simp_all
    finally show ?thesis .
  qed
qed

lemma round_pos_nonneg: "0 < x \<Longrightarrow> 0 \<le> round_pos x"
proof -
  assume "0 < x"
  then have "0 \<le> nearest (x / 2 powi unit_of x)" using nearest_ge [of 0] by simp
  then show ?thesis by (simp add: round_pos_def)
qed

lemma round_rat_minus: "round_rat (- x) = - round_rat x"
  by (simp add: round_rat_def)

lemma round_rat_mono: "x \<le> y \<Longrightarrow> round_rat x \<le> round_rat y"
proof -
  assume le: "x \<le> y"
  have sign: "0 \<le> z \<Longrightarrow> 0 \<le> round_rat z" "z \<le> 0 \<Longrightarrow> round_rat z \<le> 0" for z
    using round_pos_nonneg [of z] round_pos_nonneg [of "- z"] by (auto simp: round_rat_def)
  consider "0 < x" | "y < 0" | "x \<le> 0" "0 \<le> y" by linarith
  then show ?thesis
  proof cases
    case 1
    with le round_pos_mono [OF 1 le] show ?thesis by (simp add: round_rat_def)
  next
    case 2
    with le round_pos_mono [of "- y" "- x"] show ?thesis by (simp add: round_rat_def)
  next
    case 3
    with sign show ?thesis by (meson order_trans)
  qed
qed

text \<open>Representable numbers: those that rounding keeps.\<close>

definition double :: "rat \<Rightarrow> bool" where
  "double x \<longleftrightarrow> round_rat x = x"

lemma double_minus: "double x \<Longrightarrow> double (- x)"
  by (simp add: double_def round_rat_minus)

lemma double_grid: "0 < x \<Longrightarrow> grid (unit_of x) x \<Longrightarrow> double x"
  by (simp add: double_def round_rat_def round_pos_fixed)

lemma double_pow2: "- 1074 \<le> k \<Longrightarrow> double (2 powi k)"
proof -
  assume k: "- 1074 \<le> k"
  have "expo (2 powi k) = k" by (rule expo_unique) (simp_all add: pow2_less)
  then have u: "unit_of (2 powi k) \<le> k" using k by (simp add: unit_of_def)
  have "grid k (2 powi k)" unfolding grid_def by (rule exI [of _ 1]) simp
  then have "grid (unit_of (2 powi k)) (2 powi k)" using u by (rule grid_finer)
  then show ?thesis by (intro double_grid) simp_all
qed

text \<open>Small integers are representable, and whatever rounding returns is.\<close>

lemma double_int: "\<bar>n\<bar> \<le> 2 ^ 53 \<Longrightarrow> double (of_int n)"
proof -
  assume n: "\<bar>n\<bar> \<le> 2 ^ 53"
  have pos: "double (of_int m)" if "0 < m" "m \<le> 2 ^ 53" for m
  proof (cases "m = 2 ^ 53")
    case True
    then show ?thesis using double_pow2 [of 53] by (simp add: power_int_def)
  next
    case False
    then have "rat_of_int m < 2 powi 53" using that by (simp add: power_int_def)
    moreover have "0 < rat_of_int m" using that(1) by simp
    moreover have "2 powi expo (rat_of_int m) \<le> rat_of_int m" using expo_bounds(1) [of "rat_of_int m"] that(1) by simp
    ultimately have "(2 :: rat) powi expo (of_int m) < 2 powi 53" by linarith
    then have "expo (of_int m) < 53" by (simp only: pow2_less)
    then have "unit_of (of_int m) \<le> 0" by (simp add: unit_of_def)
    moreover have "grid 0 (of_int m)" unfolding grid_def by (rule exI [of _ m]) simp
    ultimately show ?thesis using grid_finer that(1) by (intro double_grid) simp_all
  qed
  show ?thesis
  proof (cases "0 \<le> n")
    case True
    then show ?thesis using pos [of n] n by (cases "n = 0") (auto simp: double_def round_rat_def)
  next
    case False
    then show ?thesis using double_minus [OF pos [of "- n"]] n by simp
  qed
qed

lemma round_rat_le: "x \<le> b \<Longrightarrow> double b \<Longrightarrow> round_rat x \<le> b"
  using round_rat_mono [of x b] by (simp add: double_def)

lemma round_rat_ge: "b \<le> x \<Longrightarrow> double b \<Longrightarrow> b \<le> round_rat x"
  using round_rat_mono [of b x] by (simp add: double_def)

lemma round_rat_abs: "\<bar>x\<bar> \<le> b \<Longrightarrow> double b \<Longrightarrow> \<bar>round_rat x\<bar> \<le> b"
  using round_rat_le [of x b] round_rat_ge [of "- b" x] double_minus [of b] by linarith

text \<open>Rounding keeps a number on a grid, and a number away from 0 is on a grid by itself.\<close>

lemma round_rat_grid:
  assumes "grid k x" shows "grid k (round_rat x)"
proof -
  have pos: "grid k (round_pos z)" if "grid k z" "0 < z" for z
  proof (cases "unit_of z \<le> k")
    case True
    then show ?thesis using that(1) round_pos_fixed [OF grid_finer [OF that(1) True]] by simp
  next
    case False
    then show ?thesis using round_pos_grid [of z] grid_finer by simp
  qed
  then show ?thesis
    using assms pos [of x] pos [of "- x"] grid_ops(2) [of k x] grid_ops(2) [of k "round_pos (- x)"]
    by (auto simp: round_rat_def grid_def)
qed

lemma round_rat_coarse:
  assumes "2 powi k < \<bar>round_rat x\<bar>" and "- 1022 \<le> k" shows "grid (k - 52) (round_rat x)"
proof -
  have pos: "grid (k - 52) (round_pos z)" if "0 < z" "2 powi k < round_pos z" for z
  proof -
    have "\<not> z \<le> 2 powi k"
    proof
      assume "z \<le> 2 powi k"
      then have "round_rat z \<le> 2 powi k" using assms(2) by (intro round_rat_le double_pow2) simp_all
      with that show False by (simp add: round_rat_def)
    qed
    then have "(2 :: rat) powi k < 2 powi (expo z + 1)" using expo_bounds(2) [OF that(1)] by linarith
    then have "k - 52 \<le> unit_of z" by (simp add: pow2_less unit_of_def)
    then show ?thesis using round_pos_grid grid_finer by blast
  qed
  have "0 \<le> round_pos z" if "0 < z" for z using that by (rule round_pos_nonneg)
  moreover have "grid (k - 52) 0" unfolding grid_def by (rule exI [of _ 0]) simp
  ultimately show ?thesis
    using assms(1) pos [of x] pos [of "- x"] grid_ops(2) [of "k - 52" "round_pos (- x)"]
    by (auto simp: round_rat_def split: if_splits)
qed

section \<open>Operations\<close>

text \<open>The integer square root, a digit in base four at a time.\<close>

fun isqrt :: "nat \<Rightarrow> nat" where
  "isqrt n = (if n = 0 then 0 else let r = 2 * isqrt (n div 4) in if (r + 1)\<^sup>2 \<le> n then r + 1 else r)"

declare isqrt.simps [simp del]

text \<open>
  The square root of a positive number, whose leading bit is at half the exponent: the integer
  root of the scaled number, rounded. No square root of a double lies half-way.
\<close>

definition sqrt_unit :: "rat \<Rightarrow> int" where
  "sqrt_unit x = expo x div 2 - 52"

definition round_sqrt :: "rat \<Rightarrow> rat" where
  "round_sqrt x =
    (let u = sqrt_unit x; z = x / 4 powi u; r = isqrt (nat \<lfloor>z\<rfloor>)
     in (if (of_nat r + 1 / 2)\<^sup>2 < z then of_nat r + 1 else of_nat r) * 2 powi u)"

fun js_neg :: "js_num \<Rightarrow> js_num" where
  "js_neg NaN = NaN"
| "js_neg (Inf s) = Inf (\<not> s)"
| "js_neg (Fin x) = Fin (- x)"

fun js_add :: "js_num \<Rightarrow> js_num \<Rightarrow> js_num" where
  "js_add (Fin x) (Fin y) = js_round (x + y)"
| "js_add NaN _ = NaN"
| "js_add _ NaN = NaN"
| "js_add (Inf s) (Inf t) = (if s = t then Inf s else NaN)"
| "js_add (Inf s) (Fin _) = Inf s"
| "js_add (Fin _) (Inf s) = Inf s"

definition js_sub :: "js_num \<Rightarrow> js_num \<Rightarrow> js_num" where
  "js_sub a b = js_add a (js_neg b)"

fun js_mul :: "js_num \<Rightarrow> js_num \<Rightarrow> js_num" where
  "js_mul (Fin x) (Fin y) = js_round (x * y)"
| "js_mul NaN _ = NaN"
| "js_mul _ NaN = NaN"
| "js_mul (Inf s) (Inf t) = Inf (s \<noteq> t)"
| "js_mul (Inf s) (Fin y) = (if y = 0 then NaN else Inf (s \<noteq> (y < 0)))"
| "js_mul (Fin x) (Inf s) = (if x = 0 then NaN else Inf (s \<noteq> (x < 0)))"

fun js_div :: "js_num \<Rightarrow> js_num \<Rightarrow> js_num" where
  "js_div (Fin x) (Fin y) = (if y \<noteq> 0 then js_round (x / y) else if x = 0 then NaN else Inf (x < 0))"
| "js_div NaN _ = NaN"
| "js_div _ NaN = NaN"
| "js_div (Inf _) (Inf _) = NaN"
| "js_div (Inf s) (Fin y) = Inf (s \<noteq> (y < 0))"
| "js_div (Fin _) (Inf _) = Fin 0"

fun js_sqrt :: "js_num \<Rightarrow> js_num" where
  "js_sqrt (Fin x) = (if x < 0 then NaN else if x = 0 then Fin 0 else Fin (round_sqrt x))"
| "js_sqrt (Inf s) = (if s then NaN else Inf False)"
| "js_sqrt NaN = NaN"

fun js_floor :: "js_num \<Rightarrow> js_num" where
  "js_floor (Fin x) = Fin (of_int \<lfloor>x\<rfloor>)"
| "js_floor a = a"

fun js_less :: "js_num \<Rightarrow> js_num \<Rightarrow> bool" where
  "js_less (Fin x) (Fin y) \<longleftrightarrow> x < y"
| "js_less NaN _ \<longleftrightarrow> False"
| "js_less _ NaN \<longleftrightarrow> False"
| "js_less (Inf s) (Inf t) \<longleftrightarrow> s \<and> \<not> t"
| "js_less (Inf s) (Fin _) \<longleftrightarrow> s"
| "js_less (Fin _) (Inf t) \<longleftrightarrow> \<not> t"

definition js_max :: "js_num \<Rightarrow> js_num \<Rightarrow> js_num" where
  "js_max a b = (if a = NaN \<or> b = NaN then NaN else if js_less a b then b else a)"

definition js_min :: "js_num \<Rightarrow> js_num \<Rightarrow> js_num" where
  "js_min a b = (if a = NaN \<or> b = NaN then NaN else if js_less b a then b else a)"

text \<open>\<open>a || b\<close>.\<close>

definition js_or :: "js_num \<Rightarrow> js_num \<Rightarrow> js_num" where
  "js_or a b = (if a = Fin 0 \<or> a = NaN then b else a)"

text \<open>A literal.\<close>

definition lit :: "rat \<Rightarrow> js_num" where
  "lit x = js_round x"

section \<open>Square roots\<close>

lemma isqrt_spec: "(isqrt n)\<^sup>2 \<le> n \<and> n < (isqrt n + 1)\<^sup>2"
proof (induction n rule: isqrt.induct)
  case (1 n)
  show ?case
  proof (cases "n = 0")
    case True
    then show ?thesis by (simp add: isqrt.simps)
  next
    case False
    let ?r = "isqrt (n div 4)"
    have ih: "?r\<^sup>2 \<le> n div 4" "n div 4 < (?r + 1)\<^sup>2" using 1 False by simp_all
    have e: "isqrt n = (if (2 * ?r + 1)\<^sup>2 \<le> n then 2 * ?r + 1 else 2 * ?r)"
      using False by (subst isqrt.simps) (simp add: Let_def)
    have "4 * ?r\<^sup>2 \<le> n" using ih(1) by linarith
    then have low: "(2 * ?r)\<^sup>2 \<le> n" by (simp add: power2_eq_square)
    have "n < 4 * (?r + 1)\<^sup>2" using ih(2) by linarith
    also have "\<dots> = (2 * ?r + 1 + 1)\<^sup>2" by (simp add: power2_eq_square algebra_simps)
    finally show ?thesis using low unfolding e by auto
  qed
qed

lemma isqrt_ge: "m\<^sup>2 \<le> n \<Longrightarrow> m \<le> isqrt n"
proof (rule ccontr)
  assume "m\<^sup>2 \<le> n" "\<not> m \<le> isqrt n"
  then have "(isqrt n + 1)\<^sup>2 \<le> m\<^sup>2" by (intro power_mono) simp_all
  then show False using isqrt_spec [of n] \<open>m\<^sup>2 \<le> n\<close> by linarith
qed

lemma isqrt_le: "n \<le> m\<^sup>2 \<Longrightarrow> isqrt n \<le> m"
  using isqrt_spec [of n] by (metis le_trans power2_nat_le_eq_le)

lemma pow4: "(4 :: rat) powi k = 2 powi (2 * k)" "(4 :: rat) powi k = 2 powi k * 2 powi k"
proof -
  have "(4 :: rat) powi k = (2 * 2) powi k" by simp
  then show q: "(4 :: rat) powi k = 2 powi k * 2 powi k" by (simp only: power_int_mult_distrib)
  show "(4 :: rat) powi k = 2 powi (2 * k)" unfolding q using pow2_add [of k k] by simp
qed

lemma pow4_int: "0 \<le> k \<Longrightarrow> (2 :: rat) powi (2 * k) = of_int (int ((2 ^ nat k)\<^sup>2))"
proof -
  assume k: "0 \<le> k"
  have "(2 :: rat) powi (2 * k) = 2 powi k * 2 powi k" using pow2_add [of k k] by simp
  also have "\<dots> = of_int (int ((2 ^ nat k)\<^sup>2))" using pow2_int [OF k] by (simp add: power2_eq_square)
  finally show ?thesis .
qed

lemma round_sqrt_upper:
  assumes "0 < x" and "x \<le> 2 powi (2 * k)" shows "round_sqrt x \<le> 2 powi k"
proof -
  let ?u = "sqrt_unit x" and ?z = "x / 4 powi sqrt_unit x"
  let ?r = "isqrt (nat \<lfloor>?z\<rfloor>)" and ?N = "2 ^ nat (k - sqrt_unit x) :: nat"
  have "(2 :: rat) powi expo x \<le> 2 powi (2 * k)" using expo_bounds(1) [OF assms(1)] assms(2) by linarith
  then have u: "0 \<le> k - ?u" by (simp only: pow2_le_iff) (simp add: sqrt_unit_def)
  have "2 * (k - ?u) = 2 * k - 2 * ?u" by simp
  then have "?z \<le> 2 powi (2 * (k - ?u))" using assms(2) by (simp only: pow2_diff pow4(1)) (simp add: divide_right_mono)
  then have z: "?z \<le> of_int (int (?N\<^sup>2))" unfolding pow4_int [OF u] .
  then have "\<lfloor>?z\<rfloor> \<le> int (?N\<^sup>2)" by linarith
  then have r: "?r \<le> ?N" by (intro isqrt_le) linarith
  have "(if (of_nat ?r + 1 / 2)\<^sup>2 < ?z then of_nat ?r + 1 else of_nat ?r) \<le> (of_nat ?N :: rat)"
  proof (cases "?r = ?N")
    case True
    have "?z \<le> (of_nat ?N)\<^sup>2" using z by simp
    also have "\<dots> \<le> (of_nat ?N + 1 / 2)\<^sup>2" by (intro power_mono) simp_all
    finally show ?thesis unfolding True by simp
  next
    case False
    with r have "Suc ?r \<le> ?N" by simp
    then have "rat_of_nat (Suc ?r) \<le> of_nat ?N" by (simp only: of_nat_le_iff)
    moreover have "rat_of_nat ?r \<le> of_nat ?N" using r by (simp only: of_nat_le_iff)
    ultimately show ?thesis by (simp only: of_nat_Suc split: if_split) simp
  qed
  moreover have "(of_nat ?N :: rat) = 2 powi (k - ?u)" using pow2_int [OF u] by simp
  ultimately have "round_sqrt x \<le> 2 powi (k - ?u) * 2 powi ?u"
    unfolding round_sqrt_def Let_def by (intro mult_right_mono) simp_all
  then show ?thesis by (simp add: pow2_add [symmetric])
qed

lemma round_sqrt_lower:
  assumes "2 powi (2 * j) \<le> x" shows "2 powi j \<le> round_sqrt x"
proof -
  let ?u = "sqrt_unit x" and ?z = "x / 4 powi sqrt_unit x" and ?h = "expo x div 2"
  let ?r = "isqrt (nat \<lfloor>?z\<rfloor>)"
  have x: "0 < x" using assms pow2_pos(1) [of "2 * j"] by linarith
  have "(2 :: rat) powi (2 * j) < 2 powi (expo x + 1)" using expo_bounds(2) [OF x] assms by linarith
  then have j: "j \<le> ?h" by (simp only: pow2_less)
  have "2 powi (2 * ?h) \<le> x" using expo_bounds(1) [OF x] pow2_mono [of "2 * ?h" "expo x"] by linarith
  moreover have "2 * (?h - ?u) = 2 * ?h - 2 * ?u" by simp
  ultimately have "2 powi (2 * (?h - ?u)) \<le> ?z" by (simp only: pow2_diff pow4(1)) (simp add: divide_right_mono)
  moreover have hu: "?h - ?u = 52" by (simp add: sqrt_unit_def)
  ultimately have "of_int (int ((2 ^ 52)\<^sup>2)) \<le> ?z" using pow4_int [of 52] by simp
  then have "int ((2 ^ 52)\<^sup>2) \<le> \<lfloor>?z\<rfloor>" by (simp only: le_floor_iff)
  then have "2 ^ 52 \<le> ?r" by (intro isqrt_ge) linarith
  then have "rat_of_nat (2 ^ 52) \<le> of_nat ?r" by (simp only: of_nat_le_iff)
  then have "(2 :: rat) powi 52 \<le> (if (of_nat ?r + 1 / 2)\<^sup>2 < ?z then of_nat ?r + 1 else of_nat ?r)"
    by (simp add: power_int_def)
  then have "2 powi 52 * 2 powi ?u \<le> round_sqrt x"
    unfolding round_sqrt_def Let_def by (rule mult_right_mono) simp
  then have "2 powi ?h \<le> round_sqrt x" using hu pow2_add [of 52 ?u] by (simp add: algebra_simps)
  then show ?thesis using pow2_mono [OF j] by linarith
qed

section \<open>Sizes of results\<close>

text \<open>\<open>size_le k a\<close>: a number of magnitude at most \<open>2 ^ k\<close>; \<open>size_ge k a\<close>: at least that.\<close>

definition size_le :: "int \<Rightarrow> js_num \<Rightarrow> bool" where
  "size_le k a \<longleftrightarrow> (case a of Fin x \<Rightarrow> \<bar>x\<bar> \<le> 2 powi k | _ \<Rightarrow> False)"

definition size_ge :: "int \<Rightarrow> js_num \<Rightarrow> bool" where
  "size_ge k a \<longleftrightarrow> (case a of Fin x \<Rightarrow> 2 powi k \<le> x | _ \<Rightarrow> False)"

lemma size_weaken: "size_le j a \<Longrightarrow> j \<le> k \<Longrightarrow> size_le k a"
  using pow2_mono [of j k] by (auto simp: size_le_def split: js_num.splits)

lemma js_round_Fin: "\<bar>x\<bar> \<le> 2 powi k \<Longrightarrow> - 1074 \<le> k \<Longrightarrow> k < 1024 \<Longrightarrow> js_round x = Fin (round_rat x) \<and> \<bar>round_rat x\<bar> \<le> 2 powi k"
proof -
  assume x: "\<bar>x\<bar> \<le> 2 powi k" and k: "- 1074 \<le> k" "k < 1024"
  have "\<bar>round_rat x\<bar> \<le> 2 powi k" by (rule round_rat_abs [OF x double_pow2 [OF k(1)]])
  moreover have "(2 :: rat) powi k < 2 powi 1024" using k(2) by (simp only: pow2_less)
  ultimately show ?thesis by (simp add: js_round_def)
qed

lemma size_round: "\<bar>x\<bar> \<le> 2 powi k \<Longrightarrow> - 1074 \<le> k \<Longrightarrow> k < 1024 \<Longrightarrow> size_le k (js_round x)"
  using js_round_Fin [of x k] by (simp add: size_le_def)

lemma size_add:
  assumes "size_le k a" and "size_le k b" and "- 1075 \<le> k" and "k < 1023"
  shows "size_le (k + 1) (js_add a b)" "size_le (k + 1) (js_sub a b)"
proof -
  obtain x y where xy: "a = Fin x" "b = Fin y" "\<bar>x\<bar> \<le> 2 powi k" "\<bar>y\<bar> \<le> 2 powi k"
    using assms(1,2) by (auto simp: size_le_def split: js_num.splits)
  then have "\<bar>x + y\<bar> \<le> 2 powi (k + 1)" "\<bar>x + - y\<bar> \<le> 2 powi (k + 1)" unfolding pow2_step by linarith+
  then show "size_le (k + 1) (js_add a b)" "size_le (k + 1) (js_sub a b)"
    using assms(3,4) by (simp_all add: xy(1,2) js_sub_def size_round)
qed

lemma size_mul:
  assumes "size_le j a" and "size_le k b" and "- 1074 \<le> j + k" and "j + k < 1024"
  shows "size_le (j + k) (js_mul a b)"
proof -
  obtain x y where xy: "a = Fin x" "b = Fin y" "\<bar>x\<bar> \<le> 2 powi j" "\<bar>y\<bar> \<le> 2 powi k"
    using assms(1,2) by (auto simp: size_le_def split: js_num.splits)
  then have "\<bar>x * y\<bar> \<le> 2 powi (j + k)" unfolding abs_mult pow2_add by (intro mult_mono) simp_all
  then show ?thesis using assms(3,4) by (simp add: xy(1,2) size_round)
qed

lemma size_div:
  assumes "size_le j a" and "size_ge k b" and "- 1074 \<le> j - k" and "j - k < 1024"
  shows "size_le (j - k) (js_div a b)"
proof -
  obtain x y where xy: "a = Fin x" "b = Fin y" "\<bar>x\<bar> \<le> 2 powi j" "2 powi k \<le> y"
    using assms(1,2) by (auto simp: size_le_def size_ge_def split: js_num.splits)
  then have y: "0 < y" using pow2_pos(1) [of k] by linarith
  have "\<bar>x / y\<bar> = \<bar>x\<bar> / y" using y by simp
  also have "\<dots> \<le> 2 powi j / 2 powi k" using xy y by (intro frac_le) simp_all
  finally have "\<bar>x / y\<bar> \<le> 2 powi (j - k)" by (simp add: pow2_diff)
  then show ?thesis using assms(3,4) y by (simp add: xy(1,2) size_round)
qed

lemma big_mul:
  assumes "size_ge j a" and "size_ge k b" and "size_le m (js_mul a b)" and "- 1074 \<le> j + k"
  shows "size_ge (j + k) (js_mul a b)"
proof -
  obtain x y where xy: "a = Fin x" "b = Fin y" "2 powi j \<le> x" "2 powi k \<le> y"
    using assms(1,2) by (auto simp: size_ge_def split: js_num.splits)
  have "2 powi (j + k) \<le> x * y" unfolding pow2_add using xy(3,4) by (intro mult_mono) (auto intro: order_trans [rotated])
  then have "2 powi (j + k) \<le> round_rat (x * y)" by (intro round_rat_ge double_pow2 assms(4))
  then show ?thesis using assms(3) by (auto simp: xy(1,2) size_ge_def size_le_def js_round_def split: if_splits)
qed

section \<open>Numbers between representable ones\<close>

lemma double_small: "grid k x \<Longrightarrow> \<bar>x\<bar> < 2 powi (k + 53) \<Longrightarrow> - 1074 \<le> k \<Longrightarrow> double x"
proof -
  assume g: "grid k x" and le: "\<bar>x\<bar> < 2 powi (k + 53)" and k: "- 1074 \<le> k"
  have pos: "double z" if "0 < z" "grid k z" "z < 2 powi (k + 53)" for z
  proof -
    have "(2 :: rat) powi expo z < 2 powi (k + 53)" using expo_bounds(1) [OF that(1)] that(3) by linarith
    then have "expo z < k + 53" by (simp only: pow2_less)
    then have "unit_of z \<le> k" using k by (simp add: unit_of_def)
    then show ?thesis using that(1,2) grid_finer by (intro double_grid) simp_all
  qed
  consider "0 < x" | "x < 0" | "x = 0" by linarith
  then show ?thesis
  proof cases
    case 1
    then show ?thesis using pos [of x] g le by simp
  next
    case 2
    then show ?thesis using pos [of "- x"] double_minus [of "- x"] grid_ops(2) [OF g] le by simp
  next
    case 3
    then show ?thesis by (simp add: double_def round_rat_def)
  qed
qed

lemma double_num: "\<bar>n\<bar> \<le> 2 ^ 40 \<Longrightarrow> double (of_int n / 1024)"
proof -
  assume n: "\<bar>n\<bar> \<le> 2 ^ 40"
  then have "rat_of_int \<bar>n\<bar> \<le> of_int (2 ^ 40)" by (simp only: of_int_le_iff)
  then have "\<bar>rat_of_int n / 1024\<bar> < 2 powi 43" by (simp add: abs_div)
  moreover have "of_int n / 1024 = of_int n * (2 :: rat) powi (- 10)" by (simp add: power_int_minus)
  then have "grid (- 10) (of_int n / 1024)" unfolding grid_def by blast
  ultimately show ?thesis using double_small [of "- 10" "of_int n / 1024"] by simp
qed

text \<open>A number between two representable ones stays there when it is rounded.\<close>

lemma round_between:
  assumes "a \<le> x" and "x \<le> b" and "double a" and "double b" and "\<bar>a\<bar> \<le> 2 powi 60" and "\<bar>b\<bar> \<le> 2 powi 60"
  shows "js_round x = Fin (round_rat x) \<and> a \<le> round_rat x \<and> round_rat x \<le> b"
proof -
  have r: "a \<le> round_rat x" "round_rat x \<le> b" using assms round_rat_ge round_rat_le by blast+
  moreover have "\<bar>round_rat x\<bar> \<le> 2 powi 60" using r assms(5,6) by linarith
  moreover have "(2 :: rat) powi 60 < 2 powi 1024" by (simp only: pow2_less)
  ultimately have "\<bar>round_rat x\<bar> < 2 powi 1024" by linarith
  then show ?thesis using r by (simp add: js_round_def)
qed

lemma double_whole: "\<bar>n\<bar> \<le> 2 ^ 30 \<Longrightarrow> double (of_int n) \<and> \<bar>rat_of_int n\<bar> \<le> 2 powi 60"
proof -
  assume n: "\<bar>n\<bar> \<le> 2 ^ 30"
  then have "rat_of_int \<bar>n\<bar> \<le> of_int (2 ^ 30)" by (simp only: of_int_le_iff)
  then show ?thesis using double_int [of n] n by simp
qed

text \<open>A product or quotient of numbers between 0 and whole bounds.\<close>

lemma mul_between:
  assumes "0 \<le> x" and "x \<le> of_int a" and "0 \<le> y" and "y \<le> of_int b" and "\<bar>a * b\<bar> \<le> 2 ^ 30"
  shows "\<exists>z. js_mul (Fin x) (Fin y) = Fin z \<and> 0 \<le> z \<and> z \<le> of_int (a * b)"
proof -
  have "x * y \<le> of_int a * of_int b" using assms by (intro mult_mono) simp_all
  then show ?thesis
    using round_between [of 0 "x * y" "of_int (a * b)"] assms(1,3) double_whole [of 0] double_whole [OF assms(5)] by auto
qed

lemma ratio_between:
  assumes "0 \<le> x" and "x \<le> y" and "0 < y" shows "\<exists>z. js_div (Fin x) (Fin y) = Fin z \<and> 0 \<le> z \<and> z \<le> 1"
  using round_between [of 0 "x / y" 1] assms double_whole [of 0] double_whole [of 1] by auto

end
