(* ===== verification/Physics.thy ===== *)
theory Physics
  imports Dashboard Binary64
begin

text \<open>
  The moving graph of src/dashboard.ts: \<open>tick\<close>, which \<open>animate\<close> calls for every frame, and the
  small charts. Numbers are those of JavaScript, with their rounding. A position or velocity is an
  object that the script changes in place; each belongs to one domain, so that a map from
  domains to pairs of coordinates stands for all of them.
\<close>

section \<open>Forces\<close>

type_synonym vec = "js_num \<times> js_num"
type_synonym places = "domain \<Rightarrow> vec option"

definition REP :: js_num where "REP = lit 6000"
definition ATT :: js_num where "ATT = lit (5 / 1000)"
definition IDEAL :: js_num where "IDEAL = lit 80"
definition CPULL :: js_num where "CPULL = lit (1 / 100)"
definition DAMP :: js_num where "DAMP = lit (85 / 100)"
definition MVEL :: js_num where "MVEL = lit 10"
definition CS :: js_num where "CS = lit 120"

text \<open>The differences of two places, and their distance, never 0.\<close>

definition apart :: "vec \<Rightarrow> vec \<Rightarrow> vec" where
  "apart p q = (js_sub (fst p) (fst q), js_sub (snd p) (snd q))"

definition gap :: "vec \<Rightarrow> js_num" where
  "gap v = js_or (js_sqrt (js_add (js_mul (fst v) (fst v)) (js_mul (snd v) (snd v)))) (lit 1)"

text \<open>A force of size \<open>f\<close> along \<open>v\<close>.\<close>

definition along :: "vec \<Rightarrow> js_num \<Rightarrow> vec" where
  "along v f = (js_mul (js_div (fst v) (gap v)) f, js_mul (js_div (snd v) (gap v)) f)"

text \<open>\<open>v.x += f.x; v.y += f.y\<close> for the velocity of a domain, and the same with \<open>-=\<close>.\<close>

definition bump :: "(js_num \<Rightarrow> js_num \<Rightarrow> js_num) \<Rightarrow> domain \<Rightarrow> vec \<Rightarrow> places \<Rightarrow> places" where
  "bump op d f vel = vel(d := map_option (\<lambda>v. (op (fst v) (fst f), op (snd v) (snd f))) (vel d))"

definition repulsion :: "vec \<Rightarrow> vec" where
  "repulsion v = along v (js_div REP (js_mul (gap v) (gap v)))"

definition repel_pair :: "places \<Rightarrow> domain \<Rightarrow> domain \<Rightarrow> places \<Rightarrow> places" where
  "repel_pair pos di dj vel =
    (case (pos di, pos dj, vel dj) of
       (Some p, Some q, Some _) \<Rightarrow>
         (let v = apart p q in
          if js_less (js_mul CS (lit 3)) (gap v) then vel
          else bump js_sub dj (repulsion v) (bump js_add di (repulsion v) vel))
     | _ \<Rightarrow> vel)"

text \<open>The cells of side \<open>CS\<close>: the key of a place, and the indices of the nodes in a cell.\<close>

definition cell_key :: "vec \<Rightarrow> js_num \<times> js_num" where
  "cell_key p = (js_floor (js_div (fst p) CS), js_floor (js_div (snd p) CS))"

definition cell :: "places \<Rightarrow> domain list \<Rightarrow> js_num \<times> js_num \<Rightarrow> nat list" where
  "cell pos ds k = filter (\<lambda>j. case pos (ds ! j) of None \<Rightarrow> False | Some p \<Rightarrow> cell_key p = k) [0..<length ds]"

definition around :: "(int \<times> int) list" where
  "around = concat (map (\<lambda>dx. map (\<lambda>dy. (dx, dy)) [- 2, - 1, 0, 1, 2]) [- 2, - 1, 0, 1, 2])"

definition repel_node :: "places \<Rightarrow> domain list \<Rightarrow> nat \<Rightarrow> places \<Rightarrow> places" where
  "repel_node pos ds i vel =
    (case (pos (ds ! i), vel (ds ! i)) of
       (Some p, Some _) \<Rightarrow>
         fold (\<lambda>(dx, dy) vel.
             fold (\<lambda>j vel. if j \<le> i then vel else repel_pair pos (ds ! i) (ds ! j) vel)
               (cell pos ds (js_add (fst (cell_key p)) (lit (of_int dx)), js_add (snd (cell_key p)) (lit (of_int dy)))) vel)
           around vel
     | _ \<Rightarrow> vel)"

text \<open>The pointer pushes nodes away; \<open>m\<close> is its place.\<close>

definition mouse_push :: "vec \<Rightarrow> vec" where
  "mouse_push v =
    (let rest = js_sub (lit 1) (js_div (gap v) (lit 100))
     in along v (js_div (js_mul (js_mul (lit 30000) rest) rest) (gap v)))"

definition mouse_node :: "vec \<Rightarrow> places \<Rightarrow> domain \<Rightarrow> places \<Rightarrow> places" where
  "mouse_node m pos d vel =
    (case (pos d, vel d) of
       (Some p, Some _) \<Rightarrow>
         (let v = apart p m in
          if js_less (gap v) (lit 100) then bump js_add d (mouse_push v) vel else vel)
     | _ \<Rightarrow> vel)"

definition spring_pull :: "vec \<Rightarrow> vec" where
  "spring_pull v = along v (js_mul ATT (js_sub (gap v) IDEAL))"

definition spring :: "places \<Rightarrow> domain \<times> domain \<Rightarrow> places \<Rightarrow> places" where
  "spring pos = (\<lambda>(a, b) vel.
    (case (pos a, pos b, vel a, vel b) of
       (Some p, Some q, Some _, Some _) \<Rightarrow>
         (let f = spring_pull (apart q p) in bump js_sub b f (bump js_add a f vel))
     | _ \<Rightarrow> vel))"

section \<open>A frame\<close>

text \<open>The pull to the middle, the damping and the two clamps, for one coordinate.\<close>

definition new_speed :: "js_num \<Rightarrow> js_num \<Rightarrow> js_num \<Rightarrow> js_num" where
  "new_speed extent p v =
    (let v = js_add v (js_mul (js_sub (js_div extent (lit 2)) p) CPULL); v = js_mul v DAMP
     in js_max (js_neg MVEL) (js_min MVEL v))"

definition new_place :: "js_num \<Rightarrow> js_num \<Rightarrow> js_num \<Rightarrow> js_num" where
  "new_place extent p v = js_max (lit 15) (js_min (js_sub extent (lit 15)) (js_add p v))"

definition settle :: "vec \<Rightarrow> domain \<Rightarrow> places \<times> places \<Rightarrow> places \<times> places" where
  "settle area d = (\<lambda>(pos, vel).
    (case (pos d, vel d) of
       (Some p, Some v) \<Rightarrow>
         (let v = (new_speed (fst area) (fst p) (fst v), new_speed (snd area) (snd p) (snd v));
              p = (new_place (fst area) (fst p) (fst v), new_place (snd area) (snd p) (snd v))
          in (pos(d \<mapsto> p), vel(d \<mapsto> v)))
     | _ \<Rightarrow> (pos, vel)))"

definition forces :: "vec option \<Rightarrow> places \<Rightarrow> domain list \<Rightarrow> (domain \<times> domain) list \<Rightarrow> places \<Rightarrow> places" where
  "forces mouse pos ds es vel =
    (let vel = fold (repel_node pos ds) [0..<length ds] vel;
         vel = (case mouse of None \<Rightarrow> vel | Some m \<Rightarrow> fold (mouse_node m pos) ds vel)
     in fold (spring pos) es vel)"

text \<open>\<open>tick\<close>: \<open>area\<close> is the size of the canvas, \<open>mouse\<close> the pointer's place while it is over the graph.\<close>

definition tick :: "vec \<Rightarrow> vec option \<Rightarrow> vec dashboard \<Rightarrow> vec dashboard" where
  "tick area mouse s =
    (let ds = map n_domain (d_nodes s);
         (pos, vel) = fold (settle area) ds (d_pos s, forces mouse (d_pos s) ds (d_edges s) (d_vel s))
     in s\<lparr>d_pos := pos, d_vel := vel\<rparr>)"

text \<open>What it draws: a line for each edge between nodes with a place, and the elements of the
  nodes; elements of other nodes are removed.\<close>

definition drawn_lines :: "vec dashboard \<Rightarrow> (vec \<times> vec) list" where
  "drawn_lines s = concat (map (\<lambda>(a, b). case (d_pos s a, d_pos s b) of
     (Some p, Some q) \<Rightarrow> [(p, q)] | _ \<Rightarrow> []) (d_edges s))"

definition node_elements :: "vec dashboard \<Rightarrow> places \<Rightarrow> places" where
  "node_elements s els = (\<lambda>d.
    if d \<in> n_domain ` set (d_nodes s)
    then (case d_pos s d of
            Some p \<Rightarrow> Some (js_add (js_sub (fst p) (lit 20)) (lit 0), js_add (js_sub (snd p) (lit 20)) (lit 0))
          | None \<Rightarrow> els d)
    else None)"

text \<open>\<open>animate\<close> with its call of \<open>tick\<close>, which an empty graph skips.\<close>

definition next_frame :: "vec \<Rightarrow> vec option \<Rightarrow> (domain \<Rightarrow> vec) \<Rightarrow> vec dashboard \<Rightarrow> vec dashboard" where
  "next_frame area mouse spot s =
    (if shown_nodes s = [] then s else tick area mouse (animate spot (Fin 0, Fin 0) s))"

text \<open>The random place of a new node.\<close>

definition random_spot :: "vec \<Rightarrow> js_num \<times> js_num \<Rightarrow> vec" where
  "random_spot area r =
    (js_add (js_div (fst area) (lit 2)) (js_mul (js_sub (fst r) (lit (1 / 2))) (lit 200)),
     js_add (js_div (snd area) (lit 2)) (js_mul (js_sub (snd r) (lit (1 / 2))) (lit 200)))"

section \<open>The frame keeps the graph\<close>

lemma dom_bump [simp]: "dom (bump op d f vel) = dom vel"
  by (auto simp: bump_def dom_def)

lemma dom_fold: "(\<And>x f. dom (g x f) = dom f) \<Longrightarrow> dom (fold g xs f) = dom f" for g :: "'x \<Rightarrow> places \<Rightarrow> places"
  by (induction xs arbitrary: f) simp_all

lemma dom_repel_pair [simp]: "dom (repel_pair pos a b vel) = dom vel"
  by (auto simp: repel_pair_def Let_def split: option.split)

lemma dom_repel_node [simp]: "dom (repel_node pos ds i vel) = dom vel"
proof -
  have "dom (fold (\<lambda>j vel. if j \<le> i then vel else repel_pair pos a (b j) vel) js v) = dom v" for a b js and v :: places
    by (rule dom_fold) simp
  then show ?thesis by (simp add: repel_node_def split_beta dom_fold split: option.split)
qed

lemma dom_mouse_node [simp]: "dom (mouse_node m pos d vel) = dom vel"
  by (auto simp: mouse_node_def Let_def split: option.split)

lemma dom_spring [simp]: "dom (spring pos e vel) = dom vel"
  by (auto simp: spring_def Let_def split: option.split prod.split)

lemma dom_forces [simp]: "dom (forces mouse pos ds es vel) = dom vel"
  by (simp add: forces_def Let_def dom_fold split: option.split)

lemma dom_settle: "dom (fst (settle area d pv)) = dom (fst pv) \<and> dom (snd (settle area d pv)) = dom (snd pv)"
  by (cases pv) (auto simp: settle_def Let_def split: option.split)

lemma dom_settles: "dom (fst (fold (settle area) ds pv)) = dom (fst pv) \<and> dom (snd (fold (settle area) ds pv)) = dom (snd pv)"
  by (induction ds arbitrary: pv) (simp_all add: dom_settle)

lemma tick_dash_step: "dash_step s (tick area mouse s)"
proof -
  obtain pos vel where f: "fold (settle area) (map n_domain (d_nodes s))
      (d_pos s, forces mouse (d_pos s) (map n_domain (d_nodes s)) (d_edges s) (d_vel s)) = (pos, vel)" by fastforce
  have "dom pos = dom (d_pos s)" "dom vel = dom (d_vel s)" using dom_settles f by (metis dom_forces fst_conv snd_conv)+
  then show ?thesis unfolding tick_def f Let_def prod.case by (rule dash_step.move)
qed

section \<open>Sizes\<close>

text \<open>
  A coordinate is a multiple of \<open>2 ^ - 51\<close> of magnitude at most \<open>2 ^ 15\<close>: two nodes are at one
  place or at least \<open>2 ^ - 51\<close> apart, so that no force is infinite. A speed within a frame is
  at most \<open>n\<close> forces, each at most \<open>2 ^ 182\<close>.
\<close>

definition coord_ok :: "js_num \<Rightarrow> bool" where
  "coord_ok a \<longleftrightarrow> (\<exists>x. a = Fin x \<and> grid (- 51) x \<and> \<bar>x\<bar> \<le> 2 powi 15)"

definition vec_ok :: "vec \<Rightarrow> bool" where
  "vec_ok p \<longleftrightarrow> coord_ok (fst p) \<and> coord_ok (snd p)"

definition diff_ok :: "js_num \<Rightarrow> bool" where
  "diff_ok a \<longleftrightarrow> (\<exists>x. a = Fin x \<and> grid (- 51) x \<and> \<bar>x\<bar> \<le> 2 powi 16)"

definition places_ok :: "places \<Rightarrow> bool" where
  "places_ok pos \<longleftrightarrow> (\<forall>d p. pos d = Some p \<longrightarrow> vec_ok p)"

definition speed_ok :: "nat \<Rightarrow> js_num \<Rightarrow> bool" where
  "speed_ok n a \<longleftrightarrow> (\<exists>x. a = Fin x \<and> \<bar>x\<bar> \<le> of_nat n * 2 powi 182)"

definition speeds_ok :: "nat \<Rightarrow> places \<Rightarrow> bool" where
  "speeds_ok n vel \<longleftrightarrow> (\<forall>d v. vel d = Some v \<longrightarrow> speed_ok n (fst v) \<and> speed_ok n (snd v))"

lemma lit_int: "\<bar>n\<bar> \<le> 2 ^ 53 \<Longrightarrow> lit (of_int n) = Fin (of_int n)"
proof -
  assume n: "\<bar>n\<bar> \<le> 2 ^ 53"
  then have "\<bar>rat_of_int n\<bar> \<le> 2 powi 53" by (metis of_int_abs of_int_le_iff of_int_numeral of_int_power power_int_numeral)
  moreover have "(2 :: rat) powi 53 < 2 powi 1024" by (simp only: pow2_less)
  ultimately show ?thesis using double_int [OF n] by (simp add: lit_def js_round_def double_def)
qed

lemma lits [simp]: "lit 1 = Fin 1" "lit 2 = Fin 2" "lit 3 = Fin 3" "lit 15 = Fin 15" "lit 100 = Fin 100" "lit 30000 = Fin 30000"
  "REP = Fin 6000" "IDEAL = Fin 80" "MVEL = Fin 10"
  using lit_int [of 1] lit_int [of 2] lit_int [of 3] lit_int [of 15] lit_int [of 100] lit_int [of 30000] lit_int [of 6000]
    lit_int [of 80] lit_int [of 10] by (simp_all add: REP_def IDEAL_def MVEL_def)

lemma apart_ok: "coord_ok a \<Longrightarrow> coord_ok b \<Longrightarrow> diff_ok (js_sub a b)"
proof -
  assume "coord_ok a" "coord_ok b"
  then obtain x y where xy: "a = Fin x" "b = Fin y" "grid (- 51) x" "grid (- 51) y" "\<bar>x\<bar> \<le> 2 powi 15" "\<bar>y\<bar> \<le> 2 powi 15"
    by (auto simp: coord_ok_def)
  have "grid (- 51) (x + - y)" by (intro grid_ops xy)
  moreover have "\<bar>x + - y\<bar> \<le> 2 powi 16" using xy(5,6) pow2_step [of 15] by simp
  ultimately show ?thesis using js_round_Fin [of "x + - y" 16] round_rat_grid by (simp add: diff_ok_def xy(1,2) js_sub_def)
qed

lemma square_ok:
  assumes "diff_ok a" obtains s where "js_mul a a = Fin s" "0 \<le> s" "s \<le> 2 powi 32" "a = Fin 0 \<and> s = 0 \<or> 2 powi (- 102) \<le> s"
proof -
  obtain x where x: "a = Fin x" "grid (- 51) x" "\<bar>x\<bar> \<le> 2 powi 16" using assms by (auto simp: diff_ok_def)
  have "\<bar>x\<bar> * \<bar>x\<bar> \<le> 2 powi 16 * 2 powi 16" using x(3) by (intro mult_mono) simp_all
  then have "\<bar>x * x\<bar> \<le> 2 powi 32" by (simp add: abs_mult pow2_add [symmetric])
  note f = js_round_Fin [OF this]
  have d0: "double 0" by (simp add: double_def round_rat_def)
  have r0: "0 \<le> round_rat (x * x)" by (rule round_rat_ge [OF _ d0]) simp
  have "x = 0 \<or> 2 powi (- 102) \<le> round_rat (x * x)"
  proof (cases "x = 0")
    case False
    have "(2 :: rat) powi (- 51) * 2 powi (- 51) \<le> \<bar>x\<bar> * \<bar>x\<bar>" using grid_least [OF x(2) False] by (intro mult_mono) simp_all
    then have "2 powi (- 102) \<le> x * x" by (simp add: pow2_add [symmetric])
    then show ?thesis by (intro disjI2 round_rat_ge double_pow2) simp_all
  qed simp
  moreover have "round_rat 0 = 0" by (simp add: round_rat_def)
  ultimately show thesis using f r0 by (intro that [of "round_rat (x * x)"]) (auto simp: x(1))
qed

lemma gap_ok:
  assumes "diff_ok (fst v)" and "diff_ok (snd v)"
  shows "size_le 17 (gap v) \<and> size_ge (- 51) (gap v)"
proof -
  obtain s where s: "js_mul (fst v) (fst v) = Fin s" "0 \<le> s" "s \<le> 2 powi 32" "s = 0 \<or> 2 powi (- 102) \<le> s"
    using square_ok [OF assms(1)] by metis
  obtain t where t: "js_mul (snd v) (snd v) = Fin t" "0 \<le> t" "t \<le> 2 powi 32" "t = 0 \<or> 2 powi (- 102) \<le> t"
    using square_ok [OF assms(2)] by metis
  let ?q = "round_rat (s + t)"
  have "\<bar>s + t\<bar> \<le> 2 powi 33" using s t pow2_step [of 32] by simp
  then have q: "js_round (s + t) = Fin ?q" "?q \<le> 2 powi 34" using js_round_Fin [of "s + t" 33] pow2_mono [of 33 34] by (auto intro: order_trans)
  have one: "size_le 17 (Fin 1) \<and> size_ge (- 51) (Fin 1)" by (simp add: size_le_def size_ge_def)
  show ?thesis
  proof (cases "s + t = 0")
    case True
    then have "gap v = Fin 1" by (simp add: gap_def s(1) t(1) js_round_def round_rat_def js_or_def)
    then show ?thesis using one by simp
  next
    case False
    then have "2 powi (- 102) \<le> s + t" using s t by linarith
    then have l: "2 powi (- 102) \<le> ?q" by (intro round_rat_ge double_pow2) simp_all
    then have pos: "0 < ?q" using pow2_pos(1) [of "- 102"] by linarith
    have "round_sqrt ?q \<le> 2 powi 17" using q(2) pos by (intro round_sqrt_upper) simp_all
    moreover have lower: "2 powi (- 51) \<le> round_sqrt ?q" using l by (intro round_sqrt_lower) simp
    moreover have "0 < round_sqrt ?q" using lower pow2_pos(1) [of "- 51"] by linarith
    moreover have "js_sqrt (js_round (s + t)) = Fin (round_sqrt ?q)" using pos q(1) by simp
    ultimately have "gap v = Fin (round_sqrt ?q)" "\<bar>round_sqrt ?q\<bar> \<le> 2 powi 17"
      by (simp_all add: gap_def s(1) t(1) js_or_def)
    then show ?thesis using lower by (simp add: size_le_def size_ge_def)
  qed
qed

lemma diff_size: "diff_ok a \<Longrightarrow> size_le 16 a"
  by (auto simp: diff_ok_def size_le_def)

lemma along_ok:
  assumes "diff_ok (fst v)" and "diff_ok (snd v)" and "size_le k f" and "- 1074 \<le> 67 + k" and "67 + k \<le> 182"
  shows "size_le 182 (fst (along v f))" "size_le 182 (snd (along v f))"
proof -
  note g = conjunct2 [OF gap_ok [OF assms(1,2)]]
  have "size_le (67 + k) (js_mul (js_div a (gap v)) f)" if "diff_ok a" for a
    using size_mul [OF size_div [OF diff_size [OF that] g] assms(3)] assms(4,5) by simp
  then have "size_le 182 (js_mul (js_div a (gap v)) f)" if "diff_ok a" for a
    using that assms(5) size_weaken by blast
  then show "size_le 182 (fst (along v f))" "size_le 182 (snd (along v f))"
    using assms(1,2) by (simp_all add: along_def)
qed

lemma force_ok:
  assumes "diff_ok (fst v)" and "diff_ok (snd v)"
  shows "size_le 182 (fst (repulsion v)) \<and> size_le 182 (snd (repulsion v))"
    "size_le 182 (fst (mouse_push v)) \<and> size_le 182 (snd (mouse_push v))"
    "size_le 182 (fst (spring_pull v)) \<and> size_le 182 (snd (spring_pull v))"
proof -
  have g: "size_le 17 (gap v)" "size_ge (- 51) (gap v)" using gap_ok [OF assms] by simp_all
  have gg: "size_le 34 (js_mul (gap v) (gap v))" using size_mul [OF g(1) g(1)] by simp
  have "size_ge (- 102) (js_mul (gap v) (gap v))" using big_mul [OF g(2) g(2) gg] by simp
  moreover have "size_le 13 REP" by (simp add: size_le_def)
  ultimately have "size_le 115 (js_div REP (js_mul (gap v) (gap v)))" using size_div [of 13 REP "- 102"] by simp
  from along_ok [OF assms this] show "size_le 182 (fst (repulsion v)) \<and> size_le 182 (snd (repulsion v))"
    by (simp add: repulsion_def)
  have "size_ge 6 (Fin 100)" by (simp add: size_ge_def)
  from size_div [OF g(1) this] have "size_le 11 (js_div (gap v) (Fin 100))" by simp
  moreover have "size_le 11 (Fin 1)" by (simp add: size_le_def)
  ultimately have r: "size_le 12 (js_sub (Fin 1) (js_div (gap v) (Fin 100)))" using size_add(2) [of 11 "Fin 1"] by simp
  have "size_le 15 (Fin 30000)" by (simp add: size_le_def)
  from size_mul [OF this r] have "size_le 27 (js_mul (Fin 30000) (js_sub (Fin 1) (js_div (gap v) (Fin 100))))" by simp
  from size_div [OF size_mul [OF this r] g(2)]
  have "size_le 90 (js_div (js_mul (js_mul (Fin 30000) (js_sub (Fin 1) (js_div (gap v) (Fin 100))))
      (js_sub (Fin 1) (js_div (gap v) (Fin 100)))) (gap v))" by simp
  from along_ok [OF assms this] show "size_le 182 (fst (mouse_push v)) \<and> size_le 182 (snd (mouse_push v))"
    by (simp add: mouse_push_def Let_def)
  have "size_le 17 IDEAL" by (simp add: size_le_def)
  from size_add(2) [OF g(1) this] have i: "size_le 18 (js_sub (gap v) IDEAL)" by simp
  have "size_le (- 7) ATT" unfolding ATT_def lit_def by (rule size_round) (simp_all add: power_int_minus)
  from size_mul [OF this i] have "size_le 11 (js_mul ATT (js_sub (gap v) IDEAL))" by simp
  from along_ok [OF assms this] show "size_le 182 (fst (spring_pull v)) \<and> size_le 182 (snd (spring_pull v))"
    by (simp add: spring_pull_def)
qed

section \<open>A frame stays within its bounds\<close>

lemma double_scaled: "n < 2 ^ 53 \<Longrightarrow> double (of_nat n * 2 powi 182)"
proof (cases "n = 0")
  case False
  assume n: "n < 2 ^ 53"
  let ?x = "of_nat n * 2 powi 182 :: rat"
  have pos: "0 < ?x" using False by simp
  have "rat_of_nat n < of_nat (2 ^ 53)" using n by (simp only: of_nat_less_iff)
  then have "?x < 2 powi 53 * 2 powi 182" by (intro mult_strict_right_mono) (simp_all add: power_int_def)
  then have "?x < 2 powi 235" by (simp add: pow2_add [symmetric])
  then have "(2 :: rat) powi expo ?x < 2 powi 235" using expo_bounds(1) [OF pos] by linarith
  then have "expo ?x < 235" by (simp only: pow2_less)
  then have "unit_of ?x \<le> 182" by (simp add: unit_of_def)
  moreover have "grid 182 ?x" unfolding grid_def by (rule exI [of _ "int n"]) simp
  ultimately show ?thesis using pos grid_finer by (intro double_grid) simp_all
qed (simp add: double_def round_rat_def)

lemma speed_step:
  assumes "speed_ok n a" and "size_le 182 f" and "Suc n < 2 ^ 53"
  shows "speed_ok (Suc n) (js_add a f)" "speed_ok (Suc n) (js_sub a f)"
proof -
  have add: "speed_ok (Suc n) (js_round (x + y))" if "\<bar>x\<bar> \<le> of_nat n * 2 powi 182" "\<bar>y\<bar> \<le> 2 powi 182" for x y
  proof -
    let ?b = "of_nat (Suc n) * 2 powi 182 :: rat"
    have "\<bar>x + y\<bar> \<le> ?b" using that by (simp add: algebra_simps)
    then have r: "\<bar>round_rat (x + y)\<bar> \<le> ?b" by (rule round_rat_abs [OF _ double_scaled [OF assms(3)]])
    have "rat_of_nat (Suc n) < of_nat (2 ^ 53)" using assms(3) by (simp only: of_nat_less_iff)
    then have "?b < 2 powi 53 * 2 powi 182" by (intro mult_strict_right_mono) (simp_all add: power_int_def)
    moreover have "(2 :: rat) powi 53 * 2 powi 182 < 2 powi 1024" unfolding pow2_add [symmetric] pow2_less by simp
    ultimately show ?thesis using r by (simp add: speed_ok_def js_round_def)
  qed
  obtain x y where xy: "a = Fin x" "f = Fin y" "\<bar>x\<bar> \<le> of_nat n * 2 powi 182" "\<bar>y\<bar> \<le> 2 powi 182"
    using assms(1,2) by (auto simp: speed_ok_def size_le_def split: js_num.splits)
  then show "speed_ok (Suc n) (js_add a f)" "speed_ok (Suc n) (js_sub a f)"
    using add [of x y] add [of x "- y"] by (simp_all add: js_sub_def)
qed

lemma speed_mono: "speed_ok m a \<Longrightarrow> m \<le> n \<Longrightarrow> speed_ok n a"
proof -
  assume "m \<le> n"
  then have "rat_of_nat m * 2 powi 182 \<le> of_nat n * 2 powi 182" by (intro mult_right_mono) simp_all
  then show "speed_ok m a \<Longrightarrow> speed_ok n a" by (auto simp: speed_ok_def intro: order_trans)
qed

lemma speeds_mono: "speeds_ok m vel \<Longrightarrow> m \<le> n \<Longrightarrow> speeds_ok n vel"
  unfolding speeds_ok_def by (meson speed_mono)

lemma speeds_bump:
  assumes "speeds_ok n vel" and "size_le 182 (fst f) \<and> size_le 182 (snd f)" and "Suc n < 2 ^ 53" and "op \<in> {js_add, js_sub}"
  shows "speeds_ok (Suc n) (bump op d f vel)"
  unfolding speeds_ok_def
proof (intro allI impI)
  fix e v assume v: "bump op d f vel e = Some v"
  have op: "speed_ok (Suc n) (op a b)" if "speed_ok n a" "size_le 182 b" for a b
    using assms(4) speed_step [OF that assms(3)] by auto
  show "speed_ok (Suc n) (fst v) \<and> speed_ok (Suc n) (snd v)"
  proof (cases "e = d")
    case True
    then obtain u where "vel d = Some u" "v = (op (fst u) (fst f), op (snd u) (snd f))" using v by (auto simp: bump_def)
    moreover have "speed_ok n (fst u) \<and> speed_ok n (snd u)" using assms(1) calculation(1) unfolding speeds_ok_def by blast
    ultimately show ?thesis using assms(2) op by simp
  next
    case False
    then have "vel e = Some v" using v by (simp add: bump_def)
    moreover have "speeds_ok (Suc n) vel" by (rule speeds_mono [OF assms(1)]) simp
    ultimately show ?thesis unfolding speeds_ok_def by blast
  qed
qed

text \<open>Each step of a loop adds at most \<open>c\<close> forces to a speed.\<close>

definition adds :: "nat \<Rightarrow> (places \<Rightarrow> places) \<Rightarrow> bool" where
  "adds c g \<longleftrightarrow> (\<forall>n vel. speeds_ok n vel \<longrightarrow> n + c < 2 ^ 53 \<longrightarrow> speeds_ok (n + c) (g vel))"

lemma addsD: "adds c g \<Longrightarrow> speeds_ok n vel \<Longrightarrow> n + c < 2 ^ 53 \<Longrightarrow> speeds_ok (n + c) (g vel)"
  by (simp add: adds_def)

lemma adds_mono: "adds b g \<Longrightarrow> b \<le> c \<Longrightarrow> adds c g"
  unfolding adds_def by (meson add_left_mono order_le_less_trans speeds_mono)

lemma adds_fold: "(\<And>x. x \<in> set xs \<Longrightarrow> adds c (g x)) \<Longrightarrow> adds (c * length xs) (fold g xs)"
proof (induction xs)
  case Nil
  then show ?case by (simp add: adds_def)
next
  case (Cons x xs)
  have "adds c (g x)" "adds (c * length xs) (fold g xs)" using Cons by simp_all
  then show ?case unfolding adds_def by (simp add: add.assoc [symmetric])
qed

lemma adds_comp: "adds b f \<Longrightarrow> adds c g \<Longrightarrow> adds (b + c) (\<lambda>vel. g (f vel))"
  unfolding adds_def by (simp add: add.assoc [symmetric])

lemma adds_bump: "size_le 182 (fst f) \<and> size_le 182 (snd f) \<Longrightarrow> op \<in> {js_add, js_sub} \<Longrightarrow> adds 1 (bump op d f)"
  unfolding adds_def using speeds_bump by simp

lemma adds_same: "adds c (\<lambda>vel. vel)"
  unfolding adds_def using speeds_mono by simp

lemma places_apart:
  assumes "places_ok pos" and "pos a = Some p" and "pos b = Some q"
  shows "diff_ok (fst (apart p q))" "diff_ok (snd (apart p q))"
proof -
  have "vec_ok p" "vec_ok q" using assms unfolding places_ok_def by blast+
  then show "diff_ok (fst (apart p q))" "diff_ok (snd (apart p q))" by (simp_all add: vec_ok_def apart_def apart_ok)
qed

lemma adds_either:
  assumes "\<And>vel. g vel = vel \<or> (\<exists>h. adds c h \<and> g vel = h vel)" shows "adds c g"
  unfolding adds_def
proof (intro allI impI)
  fix n vel assume a: "speeds_ok n vel" "n + c < 2 ^ 53"
  from assms [of vel] show "speeds_ok (n + c) (g vel)"
  proof (elim disjE exE conjE)
    assume "g vel = vel"
    then show ?thesis using speeds_mono [OF a(1)] by simp
  next
    fix h assume "adds c h" "g vel = h vel"
    then show ?thesis using a unfolding adds_def by simp
  qed
qed

lemma adds_pair:
  "size_le 182 (fst f) \<and> size_le 182 (snd f) \<Longrightarrow> adds 2 (\<lambda>vel. bump js_sub b f (bump js_add a f vel))"
  using adds_comp [OF adds_bump [of f js_add a] adds_bump [of f js_sub b]] by (simp add: numeral_2_eq_2)

lemma adds_repel_pair:
  assumes "places_ok pos" shows "adds 2 (repel_pair pos a b)"
proof (rule adds_either)
  fix vel
  show "repel_pair pos a b vel = vel \<or> (\<exists>h. adds 2 h \<and> repel_pair pos a b vel = h vel)"
  proof (cases "\<exists>p q. pos a = Some p \<and> pos b = Some q")
    case True
    then obtain p q where pq: "pos a = Some p" "pos b = Some q" by blast
    let ?h = "\<lambda>vel. bump js_sub b (repulsion (apart p q)) (bump js_add a (repulsion (apart p q)) vel)"
    have "adds 2 ?h" by (intro adds_pair force_ok(1) places_apart [OF assms pq])
    moreover have "repel_pair pos a b vel = vel \<or> repel_pair pos a b vel = ?h vel"
      by (simp add: repel_pair_def Let_def pq split: option.split)
    ultimately show ?thesis by blast
  next
    case False
    then have "repel_pair pos a b vel = vel" by (auto simp: repel_pair_def split: option.split)
    then show ?thesis ..
  qed
qed

lemma length_around: "length around = 25"
  by (simp add: around_def)

lemma adds_repel_node:
  assumes "places_ok pos" shows "adds (50 * length ds) (repel_node pos ds i)"
proof (rule adds_either)
  fix vel
  define inner where "inner k = fold (\<lambda>j vel. if j \<le> i then vel else repel_pair pos (ds ! i) (ds ! j) vel) (cell pos ds k)" for k
  have one: "adds 2 (\<lambda>vel. if j \<le> i then vel else repel_pair pos (ds ! i) (ds ! j) vel)" for j
    using adds_repel_pair [OF assms] adds_same by (cases "j \<le> i") simp_all
  have inner: "adds (2 * length ds) (inner k)" for k
    unfolding inner_def
  proof (rule adds_mono [OF adds_fold])
    have "length (cell pos ds k) \<le> length [0..<length ds]" unfolding cell_def by (rule length_filter_le)
    then show "2 * length (cell pos ds k) \<le> 2 * length ds" by simp
  qed (rule one)
  let ?key = "\<lambda>p dx dy. (js_add (fst (cell_key p)) (lit (of_int dx)), js_add (snd (cell_key p)) (lit (of_int dy)))"
  have outer: "adds (2 * length ds * length around) (fold (\<lambda>(dx, dy). inner (?key p dx dy)) around)" for p
    by (intro adds_fold) (auto simp: inner split: prod.split)
  have "50 * length ds = 2 * length ds * length around" by (simp add: length_around)
  moreover have "repel_node pos ds i vel = vel \<or>
      (\<exists>p. repel_node pos ds i vel = fold (\<lambda>(dx, dy). inner (?key p dx dy)) around vel)"
    by (auto simp: repel_node_def inner_def [symmetric] split: option.split)
  ultimately show "repel_node pos ds i vel = vel \<or> (\<exists>h. adds (50 * length ds) h \<and> repel_node pos ds i vel = h vel)"
    using outer by metis
qed

lemma adds_mouse_node:
  assumes "places_ok pos" and "vec_ok m" shows "adds 1 (mouse_node m pos d)"
proof (rule adds_either)
  fix vel
  show "mouse_node m pos d vel = vel \<or> (\<exists>h. adds 1 h \<and> mouse_node m pos d vel = h vel)"
  proof (cases "pos d")
    case (Some p)
    then have "vec_ok p" using assms(1) unfolding places_ok_def by blast
    then have "adds 1 (bump js_add d (mouse_push (apart p m)))"
      using assms(2) by (intro adds_bump force_ok(2)) (simp_all add: apart_def apart_ok vec_ok_def)
    moreover have "mouse_node m pos d vel = vel \<or> mouse_node m pos d vel = bump js_add d (mouse_push (apart p m)) vel"
      by (simp add: mouse_node_def Let_def Some split: option.split)
    ultimately show ?thesis by blast
  qed (simp add: mouse_node_def)
qed

lemma adds_spring:
  assumes "places_ok pos" shows "adds 2 (spring pos (a, b))"
proof (rule adds_either)
  fix vel
  show "spring pos (a, b) vel = vel \<or> (\<exists>h. adds 2 h \<and> spring pos (a, b) vel = h vel)"
  proof (cases "\<exists>p q. pos a = Some p \<and> pos b = Some q")
    case True
    then obtain p q where pq: "pos a = Some p" "pos b = Some q" by blast
    let ?h = "\<lambda>vel. bump js_sub b (spring_pull (apart q p)) (bump js_add a (spring_pull (apart q p)) vel)"
    have "adds 2 ?h" by (intro adds_pair force_ok(3) places_apart [OF assms pq(2,1)])
    moreover have "spring pos (a, b) vel = vel \<or> spring pos (a, b) vel = ?h vel"
      by (simp add: spring_def Let_def pq split: option.split)
    ultimately show ?thesis by blast
  next
    case False
    then have "spring pos (a, b) vel = vel" by (auto simp: spring_def split: option.split)
    then show ?thesis ..
  qed
qed

lemma forces_ok:
  assumes "places_ok pos" and "speeds_ok 1 vel" and "length ds \<le> 100" and "length es \<le> 300"
    and "case mouse of None \<Rightarrow> True | Some m \<Rightarrow> vec_ok m"
  shows "speeds_ok 600000 (forces mouse pos ds es vel)"
proof -
  let ?N = "length ds"
  have r: "adds (50 * ?N * ?N) (fold (repel_node pos ds) [0..<?N])"
    using adds_fold [of "[0..<?N]" "50 * ?N" "repel_node pos ds"] adds_repel_node [OF assms(1)] by simp
  have m: "adds ?N (\<lambda>vel. case mouse of None \<Rightarrow> vel | Some m \<Rightarrow> fold (mouse_node m pos) ds vel)"
    using adds_fold [of ds 1 "mouse_node _ pos"] adds_mouse_node [OF assms(1)] assms(5) adds_same
    by (cases mouse) simp_all
  have e: "adds (2 * length es) (fold (spring pos) es)"
    using adds_fold [of es 2 "spring pos"] adds_spring [OF assms(1)] by (metis surj_pair)
  have "50 * ?N * ?N \<le> 50 * 100 * 100" using assms(3) by (intro mult_le_mono) simp_all
  then have "50 * ?N * ?N + ?N + 2 * length es \<le> 599999" using assms(3,4) by simp
  from adds_mono [OF adds_comp [OF adds_comp [OF r m] e] this] have "adds 599999 (forces mouse pos ds es)"
    unfolding forces_def Let_def .
  from addsD [OF this assms(2)] show ?thesis by simp
qed

text \<open>A canvas: its sides are whole numbers of pixels.\<close>

definition side_ok :: "js_num \<Rightarrow> bool" where
  "side_ok a \<longleftrightarrow> (\<exists>n. a = Fin (of_int n) \<and> 0 \<le> n \<and> n \<le> 32768)"

definition area_ok :: "vec \<Rightarrow> bool" where
  "area_ok a \<longleftrightarrow> side_ok (fst a) \<and> side_ok (snd a)"

text \<open>A coordinate on the canvas: at least 15 pixels from the edges, as far as it is that wide.\<close>

definition inside :: "js_num \<Rightarrow> js_num \<Rightarrow> bool" where
  "inside side a \<longleftrightarrow> (case (side, a) of (Fin n, Fin x) \<Rightarrow> 15 \<le> x \<and> x \<le> max 15 (n - 15) | _ \<Rightarrow> False)"

definition slow :: "js_num \<Rightarrow> bool" where
  "slow a \<longleftrightarrow> (case a of Fin x \<Rightarrow> \<bar>x\<bar> \<le> 10 | _ \<Rightarrow> False)"

lemma new_speed_ok:
  assumes "side_ok side" and "coord_ok p" and "speed_ok 600000 v" shows "slow (new_speed side p v)"
proof -
  obtain n where n: "side = Fin (of_int n)" "0 \<le> n" "n \<le> 32768" using assms(1) by (auto simp: side_ok_def)
  have "\<bar>rat_of_int n / 2\<bar> \<le> 2 powi 15" using n by simp
  then have "size_le 15 (js_div side (lit 2))" using size_round [of "of_int n / 2" 15] by (simp add: n(1))
  moreover have "size_le 15 p" using assms(2) by (auto simp: coord_ok_def size_le_def)
  ultimately have "size_le 16 (js_sub (js_div side (lit 2)) p)" using size_add(2) [of 15 "js_div side (lit 2)" p] by simp
  moreover have "size_le (- 6) CPULL" unfolding CPULL_def lit_def by (rule size_round) (simp_all add: power_int_minus)
  ultimately have "size_le 10 (js_mul (js_sub (js_div side (lit 2)) p) CPULL)" using size_mul [of 16 _ "- 6" CPULL] by simp
  then have pull: "size_le 202 (js_mul (js_sub (js_div side (lit 2)) p) CPULL)" by (rule size_weaken) simp
  have "size_le 202 v"
  proof -
    obtain x where x: "v = Fin x" "\<bar>x\<bar> \<le> of_nat 600000 * 2 powi 182" using assms(3) by (auto simp: speed_ok_def)
    have "(of_nat 600000 :: rat) * 2 powi 182 \<le> 2 powi 20 * 2 powi 182" by (intro mult_right_mono) (simp_all add: power_int_def)
    then have "\<bar>x\<bar> \<le> 2 powi 202" using x(2) by (simp only: pow2_add [symmetric]) simp
    then show ?thesis by (simp add: x(1) size_le_def)
  qed
  from size_add(1) [OF this pull] have "size_le 203 (js_add v (js_mul (js_sub (js_div side (lit 2)) p) CPULL))" by simp
  moreover have "size_le 0 DAMP" unfolding DAMP_def lit_def by (rule size_round) simp_all
  ultimately have "size_le 203 (js_mul (js_add v (js_mul (js_sub (js_div side (lit 2)) p) CPULL)) DAMP)"
    using size_mul [of 203 _ 0 DAMP] by simp
  then obtain y where "js_mul (js_add v (js_mul (js_sub (js_div side (lit 2)) p) CPULL)) DAMP = Fin y"
    by (auto simp: size_le_def split: js_num.splits)
  then show ?thesis by (auto simp: new_speed_def Let_def js_min_def js_max_def slow_def abs_if)
qed

lemma grid_int: "grid (- 51) (of_int n)"
proof -
  have "grid 0 (of_int n)" unfolding grid_def by (rule exI [of _ n]) simp
  then show ?thesis by (rule grid_finer) simp
qed

lemma new_place_ok:
  assumes "side_ok side" and "coord_ok p" and "slow v"
  shows "inside side (new_place side p v)" "coord_ok (new_place side p v)"
proof -
  obtain n where n: "side = Fin (of_int n)" "0 \<le> n" "n \<le> 32768" using assms(1) by (auto simp: side_ok_def)
  obtain x where x: "p = Fin x" "\<bar>x\<bar> \<le> 2 powi 15" using assms(2) by (auto simp: coord_ok_def)
  obtain y where y: "v = Fin y" "\<bar>y\<bar> \<le> 10" using assms(3) by (auto simp: slow_def split: js_num.splits)
  define q where "q = round_rat (x + y)"
  have "\<bar>x + y\<bar> \<le> 2 powi 16" using x(2) y(2) by simp
  then have add: "js_add p v = Fin q" using js_round_Fin [of "x + y" 16] by (simp add: x(1) y(1) q_def)
  have "js_sub side (lit 15) = js_round (of_int (n - 15))" by (simp add: n(1) js_sub_def)
  also have "\<dots> = Fin (of_int (n - 15))" using lit_int [of "n - 15"] n by (simp add: lit_def)
  finally have sub: "js_sub side (Fin 15) = Fin (of_int n - 15)" by simp
  define z where "z = (if q < of_int n - 15 then q else of_int n - 15 :: rat)"
  have new: "new_place side p v = Fin (if 15 < z then z else 15)"
    by (simp add: new_place_def add sub js_min_def js_max_def z_def)
  show "inside side (new_place side p v)"
    using new by (auto simp: n(1) inside_def z_def max_def)
  have "grid (- 51) (if 15 < z then z else 15)"
  proof (cases "15 < z \<and> z = q")
    case True
    then have "2 powi 3 < \<bar>round_rat (x + y)\<bar>" unfolding q_def [symmetric] by simp
    from round_rat_coarse [OF this] have "grid (- 49) q" by (simp add: q_def)
    then have "grid (- 51) q" by (rule grid_finer) simp
    then show ?thesis using True by simp
  next
    case False
    then have "(if 15 < z then z else 15) = of_int (if 15 < z then n - 15 else 15)" by (auto simp: z_def split: if_splits)
    then show ?thesis using grid_int by metis
  qed
  moreover have "\<bar>if 15 < z then z else 15\<bar> \<le> 2 powi 15" using n by (auto simp: z_def)
  ultimately show "coord_ok (new_place side p v)" unfolding new coord_ok_def by blast
qed

text \<open>All the nodes of a frame, one after the other.\<close>

definition on_canvas :: "vec \<Rightarrow> vec \<Rightarrow> bool" where
  "on_canvas area p \<longleftrightarrow> inside (fst area) (fst p) \<and> inside (snd area) (snd p)"

lemma settle_ok:
  assumes "area_ok area" and "places_ok (fst pv)" and "speeds_ok 600000 (snd pv)"
  shows "places_ok (fst (settle area d pv)) \<and> speeds_ok 600000 (snd (settle area d pv))"
    "fst (settle area d pv) d = Some p \<Longrightarrow> snd (settle area d pv) d = Some v \<Longrightarrow> on_canvas area p \<and> slow (fst v) \<and> slow (snd v)"
    "e \<noteq> d \<Longrightarrow> fst (settle area d pv) e = fst pv e \<and> snd (settle area d pv) e = snd pv e"
proof -
  obtain pos vel where pv: "pv = (pos, vel)" by fastforce
  have new: "on_canvas area p' \<and> vec_ok p' \<and> slow (fst v') \<and> slow (snd v')"
    if "pos d = Some p" "vel d = Some v"
      "v' = (new_speed (fst area) (fst p) (fst v), new_speed (snd area) (snd p) (snd v))"
      "p' = (new_place (fst area) (fst p) (fst v'), new_place (snd area) (snd p) (snd v'))" for p v p' v'
  proof -
    have "vec_ok p" using assms(2) that(1) unfolding pv places_ok_def by (metis fst_conv)
    moreover have "speed_ok 600000 (fst v) \<and> speed_ok 600000 (snd v)"
      using assms(3) that(2) unfolding pv speeds_ok_def by (metis snd_conv)
    ultimately have "slow (fst v') \<and> slow (snd v')"
      using assms(1) by (simp add: that(3) new_speed_ok area_ok_def vec_ok_def)
    then show ?thesis
      using assms(1) \<open>vec_ok p\<close> by (simp add: that(4) new_place_ok area_ok_def vec_ok_def on_canvas_def)
  qed
  have slow_speed: "speed_ok 600000 a" if "slow a" for a
  proof -
    have "(10 :: rat) \<le> of_nat 600000 * 2 powi 182" by (simp add: power_int_def)
    then show ?thesis using that by (auto simp: slow_def speed_ok_def split: js_num.splits)
  qed
  have "settle area d pv = pv \<or> (\<exists>p' v'. settle area d pv = (pos(d \<mapsto> p'), vel(d \<mapsto> v')) \<and>
      on_canvas area p' \<and> vec_ok p' \<and> slow (fst v') \<and> slow (snd v'))"
  proof (cases "pos d = None \<or> vel d = None")
    case True
    then have "settle area d pv = pv" by (auto simp: pv settle_def split: option.split)
    then show ?thesis ..
  next
    case False
    obtain p0 where p0: "pos d = Some p0" using False by (cases "pos d") auto
    obtain v0 where v0: "vel d = Some v0" using False by (cases "vel d") auto
    note 0 = p0 v0
    define v' where "v' = (new_speed (fst area) (fst p0) (fst v0), new_speed (snd area) (snd p0) (snd v0))"
    define p' where "p' = (new_place (fst area) (fst p0) (fst v'), new_place (snd area) (snd p0) (snd v'))"
    have "settle area d pv = (pos(d \<mapsto> p'), vel(d \<mapsto> v'))" by (simp add: pv settle_def Let_def 0 v'_def p'_def)
    with new [OF 0 v'_def p'_def] show ?thesis by blast
  qed
  then show "places_ok (fst (settle area d pv)) \<and> speeds_ok 600000 (snd (settle area d pv))"
  proof (elim disjE exE conjE)
    fix p' v' assume e: "settle area d pv = (pos(d \<mapsto> p'), vel(d \<mapsto> v'))" and ok: "vec_ok p'" "slow (fst v')" "slow (snd v')"
    have "places_ok (pos(d \<mapsto> p'))" using assms(2) ok(1) by (simp add: pv places_ok_def del: split_paired_All)
    moreover have "speeds_ok 600000 (vel(d \<mapsto> v'))"
      using assms(3) slow_speed ok(2,3) by (simp add: pv speeds_ok_def del: split_paired_All)
    ultimately show ?thesis by (simp add: e)
  qed (use assms in simp)
  show "on_canvas area p \<and> slow (fst v) \<and> slow (snd v)"
    if st: "fst (settle area d pv) d = Some p" "snd (settle area d pv) d = Some v"
  proof -
    obtain p0 v0 where 0: "pos d = Some p0" "vel d = Some v0"
      using st by (cases "pos d"; cases "vel d") (simp_all add: pv settle_def)
    from new [OF 0 refl refl] st show ?thesis by (auto simp: pv settle_def Let_def 0)
  qed
  show "fst (settle area d pv) e = fst pv e \<and> snd (settle area d pv) e = snd pv e" if "e \<noteq> d"
    using that by (simp add: pv settle_def Let_def split: option.split)
qed

lemma settles_ok:
  assumes "area_ok area" and "places_ok (fst pv)" and "speeds_ok 600000 (snd pv)" and "dom (snd pv) = dom (fst pv)"
  shows "places_ok (fst (fold (settle area) ds pv))"
    "d \<in> set ds \<Longrightarrow> fst (fold (settle area) ds pv) d = Some p \<Longrightarrow>
      \<exists>v. snd (fold (settle area) ds pv) d = Some v \<and> on_canvas area p \<and> slow (fst v) \<and> slow (snd v)"
proof -
  have "places_ok (fst (fold (settle area) ds pv)) \<and> speeds_ok 600000 (snd (fold (settle area) ds pv)) \<and>
      dom (snd (fold (settle area) ds pv)) = dom (fst (fold (settle area) ds pv)) \<and>
      (\<forall>d \<in> set ds. \<forall>p v. fst (fold (settle area) ds pv) d = Some p \<longrightarrow> snd (fold (settle area) ds pv) d = Some v \<longrightarrow>
        on_canvas area p \<and> slow (fst v) \<and> slow (snd v))"
  proof (induction ds rule: rev_induct)
    case Nil
    then show ?case using assms by simp
  next
    case (snoc d ds)
    let ?q = "fold (settle area) ds pv"
    have q: "places_ok (fst ?q)" "speeds_ok 600000 (snd ?q)" "dom (snd ?q) = dom (fst ?q)" using snoc by simp_all
    have "on_canvas area p \<and> slow (fst v) \<and> slow (snd v)"
      if "e \<in> set (ds @ [d])" "fst (settle area d ?q) e = Some p" "snd (settle area d ?q) e = Some v" for e p v
    proof (cases "e = d")
      case True
      then show ?thesis using settle_ok(2) [OF assms(1) q(1,2)] that(2,3) by blast
    next
      case False
      have "fst ?q e = Some p" "snd ?q e = Some v" using settle_ok(3) [OF assms(1) q(1,2) False] that(2,3) by simp_all
      moreover have "e \<in> set ds" using that(1) False by simp
      ultimately show ?thesis using snoc by blast
    qed
    then show ?case using settle_ok(1) [OF assms(1) q(1,2)] dom_settle [of area d ?q] q(3) by simp
  qed
  note all = this
  then show "places_ok (fst (fold (settle area) ds pv))" by blast
  show "d \<in> set ds \<Longrightarrow> fst (fold (settle area) ds pv) d = Some p \<Longrightarrow>
      \<exists>v. snd (fold (settle area) ds pv) d = Some v \<and> on_canvas area p \<and> slow (fst v) \<and> slow (snd v)"
  proof -
    assume d: "d \<in> set ds" "fst (fold (settle area) ds pv) d = Some p"
    then obtain v where "snd (fold (settle area) ds pv) d = Some v" using all by (metis domD domI)
    with all d show ?thesis by blast
  qed
qed

definition still :: "places \<Rightarrow> bool" where
  "still vel \<longleftrightarrow> (\<forall>d v. vel d = Some v \<longrightarrow> slow (fst v) \<and> slow (snd v))"

definition mouse_ok :: "vec option \<Rightarrow> bool" where
  "mouse_ok m \<longleftrightarrow> (case m of None \<Rightarrow> True | Some p \<Rightarrow> vec_ok p)"

text \<open>What holds of the graph between two frames.\<close>

definition motion_ok :: "vec dashboard \<Rightarrow> bool" where
  "motion_ok s \<longleftrightarrow> graph_ok s \<and> places_ok (d_pos s) \<and> still (d_vel s) \<and> length (d_edges s) \<le> 300 \<and> length (allEdges s) \<le> 300"

lemma still_speeds: "still vel \<Longrightarrow> speeds_ok 1 vel"
proof -
  have "(10 :: rat) \<le> of_nat 1 * 2 powi 182" by (simp add: power_int_def)
  then have "speed_ok 1 a" if "slow a" for a
    using that by (auto simp: slow_def speed_ok_def split: js_num.splits)
  then show "still vel \<Longrightarrow> speeds_ok 1 vel" unfolding still_def speeds_ok_def by blast
qed

lemma tick_ok:
  assumes "motion_ok s" and "area_ok area" and "mouse_ok mouse"
  shows "motion_ok (tick area mouse s)"
    "n \<in> set (d_nodes s) \<Longrightarrow> \<exists>p. d_pos (tick area mouse s) (n_domain n) = Some p \<and> on_canvas area p"
proof -
  let ?ds = "map n_domain (d_nodes s)"
  let ?pv = "(d_pos s, forces mouse (d_pos s) ?ds (d_edges s) (d_vel s))"
  let ?r = "fold (settle area) ?ds ?pv"
  have g: "graph_ok s" "places_ok (d_pos s)" "still (d_vel s)" "length (d_edges s) \<le> 300" "length (allEdges s) \<le> 300"
    using assms(1) by (simp_all add: motion_ok_def)
  have doms: "dom (d_pos s) = set ?ds" "dom (d_vel s) = set ?ds" "length ?ds \<le> 100" using g(1) by (simp_all add: graph_ok_def)
  have f: "speeds_ok 600000 (forces mouse (d_pos s) ?ds (d_edges s) (d_vel s))"
    using forces_ok [OF g(2) still_speeds [OF g(3)] doms(3) g(4)] assms(3) by (simp add: mouse_ok_def)
  have pv: "places_ok (fst ?pv)" "speeds_ok 600000 (snd ?pv)" "dom (snd ?pv) = dom (fst ?pv)" using g(2) f doms by simp_all
  note r = settles_ok [OF assms(2) pv, where ds = ?ds]
  have tick: "tick area mouse s = s\<lparr>d_pos := fst ?r, d_vel := snd ?r\<rparr>" by (simp add: tick_def split_beta Let_def)
  have rd: "dom (fst ?r) = set ?ds" "dom (snd ?r) = set ?ds" using dom_settles [of area ?ds ?pv] doms by simp_all
  have "still (snd ?r)"
    unfolding still_def
  proof (intro allI impI)
    fix d v assume v: "snd ?r d = Some v"
    then have d: "d \<in> set ?ds" using rd(2) by blast
    then obtain p where "fst ?r d = Some p" using rd(1) by blast
    from r(2) [OF d this] v show "slow (fst v) \<and> slow (snd v)" by simp
  qed
  moreover have "graph_ok (tick area mouse s)" using graph_ok_step [OF g(1) tick_dash_step] .
  ultimately show "motion_ok (tick area mouse s)"
    using r(1) g(4,5) by (simp add: motion_ok_def tick)
  show "\<exists>p. d_pos (tick area mouse s) (n_domain n) = Some p \<and> on_canvas area p" if "n \<in> set (d_nodes s)"
  proof -
    have d: "n_domain n \<in> set ?ds" using that by simp
    then obtain p where "fst ?r (n_domain n) = Some p" using rd(1) by blast
    moreover from r(2) [OF d this] have "on_canvas area p" by blast
    ultimately show ?thesis by (simp add: tick)
  qed
qed

text \<open>A random number is a multiple of \<open>2 ^ - 53\<close> below 1.\<close>

definition random_ok :: "js_num \<Rightarrow> bool" where
  "random_ok r \<longleftrightarrow> (\<exists>k. r = Fin (of_int k * 2 powi (- 53)) \<and> 0 \<le> k \<and> k < 2 ^ 53)"

lemma random_coord:
  assumes "side_ok side" and "random_ok r"
  shows "coord_ok (js_add (js_div side (lit 2)) (js_mul (js_sub r (lit (1 / 2))) (lit 200)))"
proof -
  obtain n where n: "side = Fin (of_int n)" "0 \<le> n" "n \<le> 32768" using assms(1) by (auto simp: side_ok_def)
  obtain k where k: "r = Fin (of_int k * 2 powi (- 53))" "0 \<le> k" "k < 2 ^ 53" using assms(2) by (auto simp: random_ok_def)
  have half: "lit (1 / 2) = Fin (1 / 2)"
  proof -
    have "round_rat (1 / 2) = 1 / 2" using double_pow2 [of "- 1"] by (simp add: double_def power_int_minus)
    moreover have "(1 / 2 :: rat) < 2 powi 1024" using pow2_mono [of 0 1024] by simp
    ultimately show ?thesis by (simp add: lit_def js_round_def)
  qed
  let ?x = "of_int k * 2 powi (- 53) + - (1 / 2) :: rat"
  have "rat_of_int k < of_int (2 ^ 53)" using k(3) by (simp only: of_int_less_iff)
  then have kx: "0 \<le> of_int k * (2 :: rat) powi (- 53)" "of_int k * (2 :: rat) powi (- 53) \<le> 1"
    using k(2) by (simp_all add: power_int_minus field_simps)
  have gx: "grid (- 53) ?x"
  proof -
    have "(1 / 2 :: rat) = of_int (2 ^ 52) * 2 powi (- 53)" by (simp add: power_int_minus)
    then have "grid (- 53) (1 / 2)" unfolding grid_def by blast
    moreover have "grid (- 53) (of_int k * 2 powi (- 53))" unfolding grid_def by blast
    ultimately show ?thesis by (intro grid_ops)
  qed
  let ?y = "round_rat ?x"
  have "\<bar>?x\<bar> \<le> 2 powi 0" using kx by (simp add: abs_le_iff)
  from js_round_Fin [OF this] have y: "js_round ?x = Fin ?y" "\<bar>?y\<bar> \<le> 1" by simp_all
  have "grid (- 53) ?y" by (rule round_rat_grid [OF gx])
  then obtain m where m: "?y = of_int m * 2 powi (- 53)" by (auto simp: grid_def)
  have "(2 :: rat) powi (- 50) = 2 powi (- 53) * 8" using pow2_add [of "- 53" 3] by simp
  then have "of_int m * 2 powi (- 53) * 200 = of_int (25 * m) * (2 :: rat) powi (- 50)" by simp
  then have "?y * 200 = of_int (25 * m) * 2 powi (- 50)" by (simp only: m)
  then have "grid (- 50) (?y * 200)" unfolding grid_def by blast
  then have gz: "grid (- 51) (round_rat (?y * 200))" using round_rat_grid grid_finer [of "- 50" _ "- 51"] by simp
  have z: "\<bar>?y * 200\<bar> \<le> 2 powi 8" using y(2) by (simp add: abs_mult)
  note z' = js_round_Fin [OF z]
  have sub: "js_sub r (lit (1 / 2)) = Fin ?y" using y(1) by (simp add: k(1) half js_sub_def)
  have "lit 200 = Fin 200" using lit_int [of 200] by simp
  then have mul: "js_mul (js_sub r (lit (1 / 2))) (lit 200) = Fin (round_rat (?y * 200))" "\<bar>round_rat (?y * 200)\<bar> \<le> 256"
    using z' by (simp_all add: sub)
  have "(of_int n / 2 :: rat) = of_int n * 2 powi (- 1)" by (simp add: power_int_minus)
  then have "grid (- 1) (of_int n / 2)" unfolding grid_def by blast
  then have gw: "grid (- 51) (round_rat (of_int n / 2))" using round_rat_grid grid_finer [of "- 1" _ "- 51"] by simp
  have "\<bar>rat_of_int n / 2\<bar> \<le> 2 powi 14" using n by simp
  then have w: "js_round (of_int n / 2) = Fin (round_rat (of_int n / 2)) \<and> \<bar>round_rat (of_int n / 2)\<bar> \<le> 2 powi 14"
    by (intro js_round_Fin) simp_all
  let ?s = "round_rat (of_int n / 2) + round_rat (?y * 200)"
  have "\<bar>?s\<bar> \<le> \<bar>round_rat (of_int n / 2)\<bar> + \<bar>round_rat (?y * 200)\<bar>" by (rule abs_triangle_ineq)
  also have "\<dots> \<le> 2 powi 14 + 256" by (intro add_mono conjunct2 [OF w] mul(2))
  finally have "\<bar>?s\<bar> \<le> 2 powi 15" by simp
  moreover have "grid (- 51) (round_rat ?s)" by (intro round_rat_grid grid_ops gw gz)
  ultimately have "coord_ok (js_round ?s)" using js_round_Fin [of ?s 15] unfolding coord_ok_def by simp
  then show ?thesis using w unfolding mul(1) by (simp add: n(1))
qed

lemma random_spot_ok: "area_ok area \<Longrightarrow> random_ok (fst r) \<Longrightarrow> random_ok (snd r) \<Longrightarrow> vec_ok (random_spot area r)"
  using random_coord by (simp add: random_spot_def vec_ok_def area_ok_def)

section \<open>Frame after frame\<close>

text \<open>Answers, clicks and frames; \<open>/api/tree\<close> sends at most 300 links, and the window may be resized.\<close>

inductive page_step :: "vec dashboard \<Rightarrow> vec dashboard \<Rightarrow> bool" where
  tree: "length (t_edges d) \<le> 300 \<Longrightarrow> page_step s (load_tree loc d s)"
| stats: "page_step s (snd (loadStats loc b s))"
| metrics: "page_step s (loadMetrics t s)"
| click: "page_step s (select_site x s)"
| all: "page_step s (show_all s)"
| frame: "area_ok area \<Longrightarrow> mouse_ok mouse \<Longrightarrow> (\<And>d. random_ok (fst (rand d)) \<and> random_ok (snd (rand d))) \<Longrightarrow>
    page_step s (next_frame area mouse (\<lambda>d. random_spot area (rand d)) s)"

inductive_cases page_stepE: "page_step s t"

lemma animate_motion:
  assumes "motion_ok s" and "\<And>d. vec_ok (spot d)" shows "motion_ok (animate spot (Fin 0, Fin 0) s)"
proof -
  have "graph_ok (animate spot (Fin 0, Fin 0) s)"
    by (rule graph_ok_step [OF _ dash_step.frame]) (use assms(1) in \<open>simp add: motion_ok_def\<close>)
  moreover have "slow (Fin 0)" by (simp add: slow_def)
  ultimately show ?thesis
    using assms
    by (auto simp: motion_ok_def animate_def buildG_def Let_def places_ok_def still_def
        intro: order_trans [OF length_filter_le] simp del: split_paired_All split: if_splits)
qed

lemma motion_step: "motion_ok s \<Longrightarrow> page_step s t \<Longrightarrow> motion_ok t"
proof -
  assume m: "motion_ok s"
  then have g: "graph_ok s" by (simp add: motion_ok_def)
  show "page_step s t \<Longrightarrow> motion_ok t"
  proof (erule page_stepE)
    fix d and loc :: "int \<Rightarrow> string" assume t: "t = load_tree loc d s" "length (t_edges d) \<le> 300"
    have "graph_ok t" unfolding t(1) by (rule graph_ok_step [OF g dash_step.tree])
    then show "motion_ok t" using m t by (simp add: motion_ok_def load_tree_def)
  next
    fix area mouse and rand :: "string \<Rightarrow> js_num \<times> js_num"
    assume t: "t = next_frame area mouse (\<lambda>d. random_spot area (rand d)) s" and ok: "area_ok area" "mouse_ok mouse"
      "\<And>d. random_ok (fst (rand d)) \<and> random_ok (snd (rand d))"
    have "motion_ok (animate (\<lambda>d. random_spot area (rand d)) (Fin 0, Fin 0) s)"
      using ok by (intro animate_motion [OF m] random_spot_ok) blast+
    then show "motion_ok t" using m tick_ok(1) ok by (simp add: t next_frame_def)
  next
    fix loc b assume t: "t = snd (loadStats loc b s)"
    have "graph_ok t" unfolding t by (rule graph_ok_step [OF g dash_step.stats])
    then show "motion_ok t" using m by (simp add: motion_ok_def t loadStats_def Let_def)
  next
    fix x assume t: "t = loadMetrics x s"
    have "graph_ok t" unfolding t by (rule graph_ok_step [OF g dash_step.metrics])
    then show "motion_ok t" using m by (simp add: motion_ok_def t loadMetrics_def Let_def split: option.split prod.split)
  next
    fix x assume t: "t = select_site x s"
    have "graph_ok t" unfolding t by (rule graph_ok_step [OF g dash_step.click])
    then show "motion_ok t" using m by (simp add: motion_ok_def t select_site_def)
  next
    assume t: "t = show_all s"
    have "graph_ok t" unfolding t by (rule graph_ok_step [OF g dash_step.all])
    then show "motion_ok t" using m by (simp add: motion_ok_def t show_all_def)
  qed
qed

interpretation motion: invariant_system page_step new_dashboard motion_ok
  by unfold_locales (simp add: new_dashboard_def motion_ok_def graph_ok_def places_ok_def still_def, rule motion_step)

lemma tick_frame [simp]:
  "d_nodes (tick area mouse s) = d_nodes s" "d_edges (tick area mouse s) = d_edges s"
  by (simp_all add: tick_def split_beta Let_def)

lemma drawn_all:
  assumes "graph_ok s"
  shows "length (drawn_lines s) = length (d_edges s)" "dom (node_elements s els) = n_domain ` set (d_nodes s)"
proof -
  have pos: "d_pos s d \<noteq> None" if "d \<in> n_domain ` set (d_nodes s)" for d
    using assms that unfolding graph_ok_def by blast
  have "length (case (d_pos s a, d_pos s b) of (Some p, Some q) \<Rightarrow> [(p, q)] | _ \<Rightarrow> []) = 1" if "(a, b) \<in> set (d_edges s)" for a b
  proof -
    have "d_pos s a \<noteq> None" "d_pos s b \<noteq> None" using assms that pos unfolding graph_ok_def by blast+
    then show ?thesis by (auto split: option.split)
  qed
  then have "length (concat (map (\<lambda>(a, b). case (d_pos s a, d_pos s b) of (Some p, Some q) \<Rightarrow> [(p, q)] | _ \<Rightarrow> []) es)) = length es"
    if "set es \<subseteq> set (d_edges s)" for es
    using that by (induction es) (auto split del: option.split)
  then show "length (drawn_lines s) = length (d_edges s)" by (simp add: drawn_lines_def)
  show "dom (node_elements s els) = n_domain ` set (d_nodes s)"
  proof -
    have "node_elements s els d \<noteq> None \<longleftrightarrow> d \<in> n_domain ` set (d_nodes s)" for d
      using pos [of d] by (cases "d \<in> n_domain ` set (d_nodes s)"; cases "d_pos s d") (simp_all add: node_elements_def)
    then show ?thesis by blast
  qed
qed

text \<open>C39. The moving graph stays on the canvas: after any sequence of answers, clicks and frames, for any
  canvas, pointer and random numbers, and with JavaScript's rounding, the next frame of a graph
  that is not empty gives every node a finite place at least 15 pixels inside the canvas (as
  far as that is wide enough) and a speed of at most 10 per axis, draws one line for each link,
  and leaves an element for each node and no other.
\<close>

theorem graph_on_canvas:
  assumes "reaches page_step new_dashboard s" and "shown_nodes s \<noteq> []" and "area_ok area" and "mouse_ok mouse"
    and "\<forall>d. random_ok (fst (rand d)) \<and> random_ok (snd (rand d))"
  defines "t \<equiv> next_frame area mouse (\<lambda>d. random_spot area (rand d)) s"
  shows "(\<forall>n \<in> set (d_nodes t). \<exists>p. d_pos t (n_domain n) = Some p \<and> on_canvas area p) \<and>
    still (d_vel t) \<and> length (drawn_lines t) = length (d_edges t) \<and>
    dom (node_elements t els) = n_domain ` set (d_nodes t)"
proof -
  let ?s = "animate (\<lambda>d. random_spot area (rand d)) (Fin 0, Fin 0) s"
  have "motion_ok s" by (rule motion.reaches_inv [OF assms(1)])
  then have m: "motion_ok ?s" by (rule animate_motion) (use random_spot_ok assms(3,5) in blast)
  have t: "t = tick area mouse ?s" using assms(2) by (simp add: t_def next_frame_def)
  note ok = tick_ok [OF m assms(3,4)]
  have "motion_ok t" unfolding t by (rule ok(1))
  then have "graph_ok t" "still (d_vel t)" by (simp_all add: motion_ok_def)
  moreover have "\<forall>n \<in> set (d_nodes t). \<exists>p. d_pos t (n_domain n) = Some p \<and> on_canvas area p"
    using ok(2) by (simp add: t)
  ultimately show ?thesis using drawn_all by blast
qed

lemma random_half: "random_ok (Fin (1 / 2))"
  unfolding random_ok_def by (rule exI [of _ "2 ^ 52"]) (simp add: power_int_minus)

definition new_graph :: "vec dashboard" where
  "new_graph = \<lparr>allN = [], allEdges = [], prevU = {}, lastA = {}, selRoot = None, d_pos = (\<lambda>_. None),
     d_vel = (\<lambda>_. None), d_nodes = [], d_edges = [], g_last = None, errHistory = [], rateHistory = [],
     memHistory = [], s_pages = [], s_domains = 0, memVal = []\<rparr>"

lemma graph_on_canvas_witness:
  "length (drawn_lines (next_frame (Fin 800, Fin 600) None (\<lambda>d. random_spot (Fin 800, Fin 600) (Fin (1 / 2), Fin (1 / 2)))
     (load_tree (\<lambda>_. []) (demo_tree [\<lparr>e_src = ''a.org'', e_dst = ''b.org'', e_w = 1\<rparr>]) new_graph))) = 1"
proof -
  let ?area = "(Fin 800, Fin 600) :: vec" and ?rand = "\<lambda>d :: string. (Fin (1 / 2), Fin (1 / 2)) :: vec"
  let ?d = "demo_tree [\<lparr>e_src = ''a.org'', e_dst = ''b.org'', e_w = 1\<rparr>]"
  let ?s = "load_tree (\<lambda>_. []) ?d new_graph"
  have "reaches page_step new_dashboard new_graph"
    by (rule reaches_init) (simp add: new_dashboard_def new_graph_def)
  moreover have "page_step new_graph ?s" by (rule page_step.tree) (simp add: demo_tree_def)
  ultimately have r: "reaches page_step new_dashboard ?s" by (rule reaches_step)
  have shown: "shown_nodes ?s \<noteq> []" "map n_domain (shown_nodes ?s) = [''a.org'', ''b.org'']"
    using demo_tree_domains [of "[\<lparr>e_src = ''a.org'', e_dst = ''b.org'', e_w = 1\<rparr>]"]
    by (simp_all add: shown_nodes_def load_tree_def new_graph_def take_map [symmetric])
  have "side_ok (Fin 800)" "side_ok (Fin 600)"
    unfolding side_ok_def by (rule exI [of _ 800], simp) (rule exI [of _ 600], simp)
  then have area: "area_ok ?area" by (simp add: area_ok_def)
  have mouse: "mouse_ok None" by (simp add: mouse_ok_def)
  have "\<forall>d. random_ok (fst (?rand d)) \<and> random_ok (snd (?rand d))" using random_half by simp
  note g = graph_on_canvas [OF r shown(1) area mouse this]
  have "n_domain ` set (shown_nodes ?s) = {''a.org'', ''b.org''}"
    using arg_cong [OF shown(2), of set] by simp
  moreover have s: "allEdges ?s = [\<lparr>e_src = ''a.org'', e_dst = ''b.org'', e_w = 1\<rparr>]" "g_last ?s = None"
    using demo_tree_domains(2) by (simp_all add: load_tree_def new_graph_def demo_tree_def)
  ultimately have "d_edges (next_frame ?area None (\<lambda>d. random_spot ?area (?rand d)) ?s) = [(''a.org'', ''b.org'')]"
    using shown(1) s by (simp add: next_frame_def animate_def buildG_def Let_def)
  with g show ?thesis by simp
qed

section \<open>The small charts\<close>

text \<open>
  \<open>drawMiniChart\<close>: the points of the curve, in order, on a canvas of \<open>w\<close> times \<open>h\<close>; nothing is
  drawn for fewer than two values. The callers pass a \<open>maxVal\<close> that is not 0.
\<close>

definition chart_max :: "js_num \<Rightarrow> js_num list \<Rightarrow> js_num" where
  "chart_max maxVal vs = js_or (js_or maxVal (fold (\<lambda>v m. js_max m v) vs (Inf True))) (lit 1)"

definition chart_point :: "js_num \<Rightarrow> js_num \<Rightarrow> js_num \<Rightarrow> nat \<Rightarrow> nat \<Rightarrow> js_num \<Rightarrow> vec" where
  "chart_point w h m len i v =
    (js_mul (js_div (Fin (of_nat i)) (js_sub (Fin (of_nat len)) (lit 1))) w,
     js_sub h (js_mul (js_mul (js_div v m) h) (lit (85 / 100))))"

definition drawMiniChart :: "js_num \<Rightarrow> js_num \<Rightarrow> js_num list \<Rightarrow> js_num \<Rightarrow> vec list" where
  "drawMiniChart w h vs maxVal =
    (if length vs < 2 then []
     else map (\<lambda>(i, v). chart_point w h (chart_max maxVal vs) (length vs) i v) (zip [0..<length vs] vs))"

text \<open>The value of a history is the number nearest to its decimal text.\<close>

definition chart_value :: "fraction \<Rightarrow> js_num" where
  "chart_value f = lit (of_nat (fst f) / of_nat (snd f))"

lemma chart_max_given: "maxVal \<noteq> Fin 0 \<Longrightarrow> maxVal \<noteq> NaN \<Longrightarrow> chart_max maxVal vs = maxVal"
  by (simp add: chart_max_def js_or_def)

text \<open>The factor 0.85 of the charts.\<close>

lemma chart_factor: "\<exists>c. lit (85 / 100) = Fin c \<and> 27 / 32 \<le> c \<and> c \<le> 1"
proof -
  have "double (27 / 32)" using double_num [of 864] by simp
  then show ?thesis
    using round_between [of "27 / 32" "85 / 100" 1] double_whole [of 1] by (auto simp: lit_def)
qed

definition on_chart :: "js_num \<Rightarrow> js_num \<Rightarrow> vec \<Rightarrow> bool" where
  "on_chart w h p \<longleftrightarrow> (case (w, h, p) of
     (Fin a, Fin b, (Fin x, Fin y)) \<Rightarrow> 0 \<le> x \<and> x \<le> a \<and> 0 \<le> y \<and> y \<le> b | _ \<Rightarrow> False)"

lemma chart_point_on:
  assumes "side_ok w" and "side_ok h" and "m = Fin (of_int k)" and "0 < k" and "v = Fin x" and "0 \<le> x" and "x \<le> of_int k"
    and "i < len" and "2 \<le> len" and "len \<le> 60"
  shows "on_chart w h (chart_point w h m len i v)"
proof -
  obtain a where a: "w = Fin (of_int a)" "0 \<le> a" "a \<le> 32768" using assms(1) by (auto simp: side_ok_def)
  obtain b where b: "h = Fin (of_int b)" "0 \<le> b" "b \<le> 32768" using assms(2) by (auto simp: side_ok_def)
  have "js_sub (Fin (of_nat len)) (lit 1) = js_round (of_int (int len - 1))" by (simp add: js_sub_def)
  also have "\<dots> = Fin (of_int (int len - 1))" using lit_int [of "int len - 1"] assms(10) by (simp add: lit_def)
  finally have last: "js_sub (Fin (of_nat len)) (lit 1) = Fin (of_int (int len - 1))" .
  obtain r where r: "js_div (Fin (of_nat i)) (Fin (of_int (int len - 1))) = Fin r" "0 \<le> r" "r \<le> 1"
    using ratio_between [of "of_nat i" "of_int (int len - 1)"] assms(8,9) by auto
  obtain x' where x': "js_mul (Fin r) (Fin (of_int a)) = Fin x'" "0 \<le> x'" "x' \<le> of_int a"
    using mul_between [of r 1 "of_int a" a] r a by auto
  obtain q where q: "js_div v m = Fin q" "0 \<le> q" "q \<le> 1"
    using ratio_between [of x "of_int k"] assms(3-7) by auto
  obtain y where y: "js_mul (Fin q) (Fin (of_int b)) = Fin y" "0 \<le> y" "y \<le> of_int b"
    using mul_between [of q 1 "of_int b" b] q b by auto
  obtain c where c: "lit (85 / 100) = Fin c" "27 / 32 \<le> c" "c \<le> 1" using chart_factor by blast
  obtain z where z: "js_mul (Fin y) (Fin c) = Fin z" "0 \<le> z" "z \<le> of_int b"
    using mul_between [of y b c 1] y c b by auto
  have "\<bar>b\<bar> \<le> 2 ^ 30" using b by simp
  then obtain t where t: "js_sub (Fin (of_int b)) (Fin z) = Fin t" "0 \<le> t" "t \<le> of_int b"
    using round_between [of 0 "of_int b - z" "of_int b"] z double_whole [of 0] double_whole [of b] by (auto simp: js_sub_def)
  have "chart_point w h m len i v = (Fin x', Fin t)"
    by (simp only: chart_point_def last r(1) q(1) y(1) c(1) z(1) t(1) x'(1) a(1) b(1))
  then show ?thesis using x'(2,3) t(2,3) by (simp add: on_chart_def a(1) b(1))
qed

text \<open>A small chart shows its whole history: two to sixty values between 0 and its scale are drawn
  as as many points, each within the canvas of the chart.
\<close>

theorem mini_chart:
  assumes "side_ok w" and "side_ok h" and "0 < k" and "2 \<le> length vs" and "length vs \<le> 60"
    and "\<forall>v \<in> set vs. \<exists>x. v = Fin x \<and> 0 \<le> x \<and> x \<le> of_int k"
  shows "length (drawMiniChart w h vs (Fin (of_int k))) = length vs \<and>
    list_all (on_chart w h) (drawMiniChart w h vs (Fin (of_int k)))"
proof -
  have m: "chart_max (Fin (of_int k)) vs = Fin (of_int k)" using assms(3) by (intro chart_max_given) simp_all
  have "on_chart w h (chart_point w h (Fin (of_int k)) (length vs) i (vs ! i))" if i: "i < length vs" for i
  proof -
    obtain x where "vs ! i = Fin x" "0 \<le> x" "x \<le> of_int k" using assms(6) nth_mem [OF i] by blast
    then show ?thesis using chart_point_on [OF assms(1,2) refl assms(3) _ _ _ i assms(4,5)] by simp
  qed
  then show ?thesis using assms(4) by (auto simp: drawMiniChart_def m list_all_length)
qed

lemma mini_chart_witness:
  "list_all (on_chart (Fin 200) (Fin 60)) (drawMiniChart (Fin 200) (Fin 60) [Fin 0, Fin (25 / 2), Fin 30] (Fin 30))"
proof -
  have s: "side_ok (Fin 200)" "side_ok (Fin 60)"
    unfolding side_ok_def by (rule exI [of _ 200], simp) (rule exI [of _ 60], simp)
  have "\<exists>x. Fin (25 / 2) = Fin x \<and> 0 \<le> x \<and> x \<le> rat_of_int 30" by (rule exI [of _ "25 / 2"]) simp
  then have "\<forall>v \<in> set [Fin 0, Fin (25 / 2), Fin 30]. \<exists>x. v = Fin x \<and> 0 \<le> x \<and> x \<le> rat_of_int 30" by simp
  from mini_chart [OF s _ _ _ this] show ?thesis by simp
qed

text \<open>The chart of the error rate has a scale of 30: a rate of 36 percent or more is drawn above it.\<close>

lemma error_chart_overflow:
  assumes "h = Fin (of_int b)" and "1 \<le> b" and "b \<le> 32768" and "36 \<le> x" and "x \<le> 100"
  shows "\<exists>y. snd (chart_point w h (Fin 30) len i (Fin x)) = Fin y \<and> y < 0"
proof -
  have e: "rat_of_int b * (19 / 16) = of_int (1216 * b) / 1024" "rat_of_int b * (513 / 512) = of_int (1026 * b) / 1024"
    "- rat_of_int b / 512 = of_int (- 2 * b) / 1024" by simp_all
  have n: "\<bar>b\<bar> \<le> 32768" using assms(2,3) by simp
  have d: "double (19 / 16)" "double (rat_of_int b * (19 / 16))" "double (rat_of_int b * (513 / 512))" "double (- rat_of_int b / 512)"
    using double_num [of 1216] double_num [of "1216 * b"] double_num [of "1026 * b"] double_num [of "- 2 * b"] assms(2,3)
    unfolding e by simp_all
  have big: "\<bar>rat_of_int b\<bar> \<le> 32768" using n by (metis of_int_abs of_int_le_iff of_int_numeral)
  have w: "double (of_int (4 * b))" "\<bar>rat_of_int (4 * b)\<bar> \<le> 2 powi 60" "double (of_int (- 3 * b))" "\<bar>rat_of_int (- 3 * b)\<bar> \<le> 2 powi 60"
    "double (of_int 4)" "\<bar>rat_of_int 4\<bar> \<le> 2 powi 60"
    using double_whole [of "4 * b"] double_whole [of "- 3 * b"] double_whole [of 4] assms(2,3) by simp_all
  have b1: "1 \<le> rat_of_int b" using assms(2) by simp
  obtain q where q: "js_div (Fin x) (Fin 30) = Fin q" "19 / 16 \<le> q" "q \<le> 4"
    using round_between [of "19 / 16" "x / 30" "of_int 4"] d(1) w(5,6) assms(4,5) by auto
  have "rat_of_int b * (19 / 16) \<le> q * of_int b" "q * of_int b \<le> of_int (4 * b)"
    using mult_right_mono [OF q(2), of "of_int b"] mult_right_mono [OF q(3), of "of_int b"] b1 by (simp_all add: mult.commute)
  from round_between [OF this d(2) w(1) _ w(2)] big
  obtain y where y: "js_mul (Fin q) (Fin (of_int b)) = Fin y" "rat_of_int b * (19 / 16) \<le> y" "y \<le> of_int (4 * b)" by auto
  obtain c where c: "lit (85 / 100) = Fin c" "27 / 32 \<le> c" "c \<le> 1" using chart_factor by blast
  have "rat_of_int b * (19 / 16) * (27 / 32) \<le> y * c" using y(2) c(2) b1 by (intro mult_mono) simp_all
  moreover have "y * c \<le> of_int (4 * b) * 1"
  proof (rule mult_mono [OF y(3) c(3)])
    show "0 \<le> rat_of_int (4 * b)" using b1 by simp
    show "0 \<le> c" using c(2) by simp
  qed
  ultimately have "rat_of_int b * (513 / 512) \<le> y * c" "y * c \<le> of_int (4 * b)" by simp_all
  from round_between [OF this d(3) w(1) _ w(2)] big
  obtain z where z: "js_mul (Fin y) (Fin c) = Fin z" "rat_of_int b * (513 / 512) \<le> z" "z \<le> of_int (4 * b)" by auto
  have "of_int (- 3 * b) \<le> of_int b - z" "of_int b - z \<le> - rat_of_int b / 512" using z by simp_all
  from round_between [OF this w(3) d(4) w(4)] big
  obtain t where t: "js_sub (Fin (of_int b)) (Fin z) = Fin t" "t \<le> - rat_of_int b / 512" by (auto simp: js_sub_def)
  moreover have "- rat_of_int b / 512 < 0" using b1 by simp
  moreover have "snd (chart_point w h (Fin 30) len i (Fin x)) = Fin t"
    by (simp only: chart_point_def assms(1) q(1) y(1) c(1) z(1) t(1) snd_conv)
  ultimately show ?thesis by auto
qed

end
